(* ===== verification/Prelude.thy ===== *)
theory Prelude
  imports Main "HOL-Library.Word" "HOL-Library.Char_ord" "HOL-Library.List_Lexorder"
begin

text \<open>
  Shared vocabulary of the development: machine types, the \<^verbatim>\<open>std::expected\<close> result
  combinators, the ordered associative container that stands for \<^verbatim>\<open>std::map\<close>, the
  zeroing of byte buffers, and the interfaces stated as locales: the map contract every
  registry of the agent relies on, the transition systems whose invariants the component
  theories prove, and the simulation of one system by another.
\<close>

section \<open>Automation collections\<close>

named_theorems map_laws \<open>lookup laws of the ordered container\<close>
named_theorems inv_intros \<open>preservation lemmas of a component invariant\<close>

section \<open>Machine types\<close>

type_synonym byte = "8 word"
type_synonym bytes = "8 word list"
type_synonym u32 = "32 word"
type_synonym u64 = "64 word"

text \<open>\<^verbatim>\<open>static_cast<std::uint32_t>\<close> of a 64-bit value keeps the low 32 bits.\<close>

definition narrow32 :: "u64 \<Rightarrow> u32" where
  "narrow32 x = ucast x"

definition widen64 :: "u32 \<Rightarrow> u64" where
  "widen64 x = ucast x"

section \<open>Results of fallible calls\<close>

type_synonym ('e, 'a) expected = "'e + 'a"

fun try_bind :: "('e, 'a) expected \<Rightarrow> ('a \<Rightarrow> ('e, 'b) expected) \<Rightarrow> ('e, 'b) expected" where
  "try_bind (Inl e) f = Inl e"
| "try_bind (Inr x) f = f x"

fun need :: "'e \<Rightarrow> 'a option \<Rightarrow> ('e, 'a) expected" where
  "need e None = Inl e"
| "need e (Some x) = Inr x"

section \<open>Byte buffers\<close>

text \<open>\<^verbatim>\<open>secureZero\<close> and \<^verbatim>\<open>std::fill(..., 0)\<close> overwrite a buffer in place; its length stays.\<close>

definition zeroed :: "bytes \<Rightarrow> bytes" where
  "zeroed b = replicate (length b) 0"

definition all_zero :: "bytes \<Rightarrow> bool" where
  "all_zero b \<longleftrightarrow> list_all (\<lambda>x. x = 0) b"

section \<open>The ordered container behind \<^verbatim>\<open>std::map\<close>\<close>

text \<open>
  A \<^verbatim>\<open>std::map\<close> is its sequence of entries in key order; iteration is the list. The
  byte strings used as keys compare as unsigned bytes, lexicographically, which is the
  order of \<^typ>\<open>string\<close> here.
\<close>

type_synonym ('k, 'v) smap = "('k \<times> 'v) list"

fun sm_put :: "'k::linorder \<Rightarrow> 'v \<Rightarrow> ('k, 'v) smap \<Rightarrow> ('k, 'v) smap" where
  "sm_put k v [] = [(k, v)]"
| "sm_put k v ((k', v') # m) =
     (if k < k' then (k, v) # (k', v') # m
      else if k = k' then (k, v) # m
      else (k', v') # sm_put k v m)"

definition sm_find :: "('k, 'v) smap \<Rightarrow> 'k \<Rightarrow> 'v option" where
  "sm_find m k = map_of m k"

definition sm_emplace :: "'k::linorder \<Rightarrow> 'v \<Rightarrow> ('k, 'v) smap \<Rightarrow> ('k, 'v) smap" where
  "sm_emplace k v m = (if sm_find m k = None then sm_put k v m else m)"

definition sm_erase :: "'k \<Rightarrow> ('k, 'v) smap \<Rightarrow> ('k, 'v) smap" where
  "sm_erase k m = filter (\<lambda>kv. fst kv \<noteq> k) m"

definition sm_erase_if :: "('k \<times> 'v \<Rightarrow> bool) \<Rightarrow> ('k, 'v) smap \<Rightarrow> ('k, 'v) smap" where
  "sm_erase_if p m = filter (\<lambda>kv. \<not> p kv) m"

definition sm_ok :: "('k::linorder, 'v) smap \<Rightarrow> bool" where
  "sm_ok m \<longleftrightarrow> sorted_wrt (<) (map fst m)"

lemma sm_find_Nil [simp]: "sm_find [] k = None"
  by (simp add: sm_find_def)

lemma sm_find_Cons [simp]: "sm_find ((k, v) # m) k' = (if k = k' then Some v else sm_find m k')"
  by (auto simp: sm_find_def)

lemma sm_find_put [simp, map_laws]: "sm_find (sm_put k v m) k' = (if k' = k then Some v else sm_find m k')"
  by (induction k v m rule: sm_put.induct) auto

lemma sm_find_emplace [map_laws]:
  "sm_find (sm_emplace k v m) k' =
     (if k' = k \<and> sm_find m k = None then Some v else sm_find m k')"
  by (simp add: sm_emplace_def)

lemma sm_find_erase [simp, map_laws]: "sm_find (sm_erase k m) k' = (if k' = k then None else sm_find m k')"
  by (induction m) (auto simp: sm_erase_def)

lemma sm_find_in: "sm_find m k = Some v \<Longrightarrow> (k, v) \<in> set m"
  by (simp add: sm_find_def map_of_SomeD)

lemma sm_ok_Nil [simp]: "sm_ok []"
  by (simp add: sm_ok_def)

lemma sm_ok_Cons: "sm_ok ((k, v) # m) \<longleftrightarrow> (\<forall>k' \<in> fst ` set m. k < k') \<and> sm_ok m"
  by (auto simp: sm_ok_def)

lemma sm_put_keys: "fst ` set (sm_put k v m) = insert k (fst ` set m)"
  by (induction k v m rule: sm_put.induct) auto

lemma sm_ok_put [simp]: "sm_ok m \<Longrightarrow> sm_ok (sm_put k v m)"
  by (induction k v m rule: sm_put.induct) (auto simp: sm_ok_Cons sm_put_keys dest: less_trans)

lemma sm_ok_filter [simp]: "sm_ok m \<Longrightarrow> sm_ok (filter p m)"
  by (induction m) (auto simp: sm_ok_Cons)

lemma sm_ok_emplace [simp]: "sm_ok m \<Longrightarrow> sm_ok (sm_emplace k v m)"
  by (simp add: sm_emplace_def)

lemma sm_ok_erase [simp]: "sm_ok m \<Longrightarrow> sm_ok (sm_erase k m)"
  by (simp add: sm_erase_def)

lemma sm_ok_erase_if [simp]: "sm_ok m \<Longrightarrow> sm_ok (sm_erase_if p m)"
  by (simp add: sm_erase_if_def)

lemma sm_ok_distinct: "sm_ok m \<Longrightarrow> distinct (map fst m)"
  by (simp add: sm_ok_def strict_sorted_iff)

lemma sm_find_iff: "sm_ok m \<Longrightarrow> sm_find m k = Some v \<longleftrightarrow> (k, v) \<in> set m"
  by (simp add: sm_find_def sm_ok_distinct)

lemma sm_find_above: "sm_ok m \<Longrightarrow> (\<forall>k' \<in> fst ` set m. k < k') \<Longrightarrow> sm_find m k = None"
  by (induction m) (auto simp: sm_ok_Cons)

lemma sm_put_put [simp]: "sm_put k v (sm_put k w m) = sm_put k v m"
  by (induction k w m rule: sm_put.induct) auto

lemma sm_put_same: "sm_ok m \<Longrightarrow> sm_find m k = Some v \<Longrightarrow> sm_put k v m = m"
proof (induction k v m rule: sm_put.induct)
  case (2 k v k' v' m)
  then have "k < k' \<Longrightarrow> False"
    by (auto simp: sm_ok_Cons dest!: sm_find_in split: if_splits)
  with 2 show ?case by (auto simp: sm_ok_Cons)
qed simp

lemma sm_erase_put [simp]: "sm_erase k (sm_put k v m) = sm_erase k m"
  by (induction k v m rule: sm_put.induct) (auto simp: sm_erase_def)

lemma length_sm_put:
  "sm_ok m \<Longrightarrow> length (sm_put k v m) = (if sm_find m k = None then Suc (length m) else length m)"
proof (induction k v m rule: sm_put.induct)
  case (2 k v k' v' m)
  then have "k < k' \<Longrightarrow> sm_find m k = None"
    by (auto simp: sm_ok_Cons intro!: sm_find_above dest: less_trans)
  with 2 show ?case by (auto simp: sm_ok_Cons)
qed simp

lemma length_sm_erase: "length (sm_erase k m) \<le> length m"
  by (simp add: sm_erase_def)

section \<open>Decimal numerals\<close>

text \<open>\<^verbatim>\<open>std::to_string\<close> and the \<^verbatim>\<open>{}\<close> of \<^verbatim>\<open>std::format\<close> on an unsigned number.\<close>

fun showNat :: "nat \<Rightarrow> string" where
  "showNat n = (if n < 10 then [char_of (48 + n)] else showNat (n div 10) @ [char_of (48 + n mod 10)])"

declare showNat.simps [simp del]

definition readNat :: "string \<Rightarrow> nat" where
  "readNat s = foldl (\<lambda>a c. 10 * a + (of_char c - 48)) 0 s"

lemma readNat_showNat [simp]: "readNat (showNat n) = n"
proof (induction n rule: showNat.induct)
  case (1 n)
  show ?case
  proof (cases "n < 10")
    case True
    then show ?thesis by (simp add: showNat.simps [of n] readNat_def)
  next
    case False
    with 1 show ?thesis by (simp add: showNat.simps [of n] readNat_def)
  qed
qed

lemma showNat_inj [simp]: "showNat a = showNat b \<longleftrightarrow> a = b"
  by (metis readNat_showNat)

lemma showNat_hd: "hd (showNat n) \<noteq> CHR ''o''"
proof (induction n rule: showNat.induct)
  case (1 n)
  have digit: "char_of (48 + k :: nat) \<noteq> CHR ''o''" if "k < 10" for k
  proof
    assume "char_of (48 + k) = CHR ''o''"
    then have "(48 + k) mod 256 = (of_char (CHR ''o'') :: nat)" by (metis of_char_of)
    with that show False by simp
  qed
  have "showNat (n div 10) \<noteq> []" by (subst showNat.simps) simp
  with 1 digit show ?case by (subst showNat.simps) auto
qed

section \<open>Elementary facts\<close>

lemma narrow_widen [simp]: "narrow32 (widen64 x) = x"
  by (simp add: narrow32_def widen64_def ucast_down_ucast_id is_down)

lemma unat_narrow32: "unat (narrow32 x) = unat x mod 2 ^ 32"
  by (simp add: narrow32_def unsigned_ucast_eq take_bit_eq_mod)

lemma unat_widen64 [simp]: "unat (widen64 x) = unat x"
  using unsigned_less [of x, where ?'a = nat]
  by (simp add: widen64_def unsigned_ucast_eq take_bit_nat_eq_self)

lemma length_zeroed [simp]: "length (zeroed b) = length b"
  by (simp add: zeroed_def)

lemma all_zero_zeroed [simp]: "all_zero (zeroed b)"
  by (simp add: all_zero_def zeroed_def list_all_iff)

lemma all_zero_Nil [simp]: "all_zero []"
  by (simp add: all_zero_def)

lemma try_bind_Inr_iff: "try_bind x f = Inr y \<longleftrightarrow> (\<exists>a. x = Inr a \<and> f a = Inr y)"
  by (cases x) auto

lemma need_Inr_iff [simp]: "need e x = Inr y \<longleftrightarrow> x = Some y"
  by (cases x) auto

section \<open>Interfaces\<close>

text \<open>
  The contract a component's registries rely on: a lookup sees the last write and
  nothing of an erased key, and every operation keeps the container well formed.
\<close>

locale keyed_store =
  fixes find :: "'m \<Rightarrow> 'k \<Rightarrow> 'v option"
    and put :: "'k \<Rightarrow> 'v \<Rightarrow> 'm \<Rightarrow> 'm"
    and erase :: "'k \<Rightarrow> 'm \<Rightarrow> 'm"
    and ok :: "'m \<Rightarrow> bool"
  assumes find_put: "find (put k v m) k' = (if k' = k then Some v else find m k')"
    and find_erase: "find (erase k m) k' = (if k' = k then None else find m k')"
    and ok_put: "ok m \<Longrightarrow> ok (put k v m)"
    and ok_erase: "ok m \<Longrightarrow> ok (erase k m)"

text \<open>Two stores that are each other's inverse, as the transport keeps for its handles.\<close>

locale inverse_stores =
  fwd: keyed_store find1 put1 erase1 ok1 + bwd: keyed_store find2 put2 erase2 ok2
  for find1 :: "'m \<Rightarrow> 'a \<Rightarrow> 'b option" and put1 erase1 ok1
    and find2 :: "'n \<Rightarrow> 'b \<Rightarrow> 'a option" and put2 erase2 ok2
begin

lemma inverse_insert:
  assumes "\<And>a b. find1 m a = Some b \<longleftrightarrow> find2 n b = Some a"
    and "find1 m a0 = None" and "find2 n b0 = None"
  shows "find1 (put1 a0 b0 m) a = Some b \<longleftrightarrow> find2 (put2 b0 a0 n) b = Some a"
  using assms by (auto simp: fwd.find_put bwd.find_put) (metis option.distinct(1))+

lemma inverse_erase:
  assumes "\<And>a b. find1 m a = Some b \<longleftrightarrow> find2 n b = Some a" and "find1 m a0 = Some b0"
  shows "find1 (erase1 a0 m) a = Some b \<longleftrightarrow> find2 (erase2 b0 n) b = Some a"
  using assms by (auto simp: fwd.find_erase bwd.find_erase) (metis option.inject)+

end

interpretation sm: keyed_store sm_find sm_put sm_erase sm_ok
  by unfold_locales simp_all

interpretation sm2: inverse_stores sm_find sm_put sm_erase sm_ok sm_find sm_put sm_erase sm_ok
  by unfold_locales

text \<open>
  A component with steps: the states its initial states reach, and the rule that a
  property of the initial states kept by every step holds in all of them.
\<close>

inductive reach :: "('s \<Rightarrow> bool) \<Rightarrow> ('s \<Rightarrow> 's \<Rightarrow> bool) \<Rightarrow> 's \<Rightarrow> bool" for init step where
  reach_init: "init s \<Longrightarrow> reach init step s"
| reach_step: "reach init step s \<Longrightarrow> step s t \<Longrightarrow> reach init step t"

locale invariant_system =
  fixes init :: "'s \<Rightarrow> bool"
    and step :: "'s \<Rightarrow> 's \<Rightarrow> bool"
    and inv :: "'s \<Rightarrow> bool"
  assumes inv_init: "init s \<Longrightarrow> inv s"
    and inv_step: "inv s \<Longrightarrow> step s t \<Longrightarrow> inv t"
begin

lemma reach_inv: "reach init step s \<Longrightarrow> inv s"
  by (induction rule: reach.induct) (auto intro: inv_init inv_step)

end

text \<open>
  A detailed system that implements an abstract one: under its own invariant, every step of it is seen
  through \<open>view\<close> as steps of the abstract system. What the abstract system reaches is then an invariant
  of the detailed one, and so is every invariant of the abstract system.
\<close>

locale simulation = conc: invariant_system cinit cstep cinv
  for cinit :: "'c \<Rightarrow> bool" and cstep :: "'c \<Rightarrow> 'c \<Rightarrow> bool" and cinv :: "'c \<Rightarrow> bool" +
  fixes ainit :: "'a \<Rightarrow> bool"
    and astep :: "'a \<Rightarrow> 'a \<Rightarrow> bool"
    and view :: "'c \<Rightarrow> 'a"
  assumes view_init: "cinit s \<Longrightarrow> ainit (view s)"
    and view_step: "cinv s \<Longrightarrow> cstep s t \<Longrightarrow> astep\<^sup>*\<^sup>* (view s) (view t)"
begin

lemma reach_rtranclp: "reach ainit astep a \<Longrightarrow> astep\<^sup>*\<^sup>* a b \<Longrightarrow> reach ainit astep b"
  by (rotate_tac 1, induction rule: rtranclp_induct) (auto intro: reach_step)

end

sublocale simulation \<subseteq> image: invariant_system cinit cstep "\<lambda>s. cinv s \<and> reach ainit astep (view s)"
  by unfold_locales (auto intro: conc.inv_init conc.inv_step reach_init view_init reach_rtranclp view_step)

context simulation
begin

lemma reach_view: "reach cinit cstep s \<Longrightarrow> reach ainit astep (view s)"
  using image.reach_inv by blast

end

end
