(* ===== verification/Anon_Fd.thy ===== *)
theory Anon_Fd
  imports Prelude
begin

text \<open>
  \<^verbatim>\<open>agent/src/backend/wire/AnonFd.cpp\<close>: a byte buffer as an unlinked temporary file whose descriptor is
  passed to a client. The kernel is an argument, a record of how it answers \<^verbatim>\<open>mkstemp\<close> and each
  \<^verbatim>\<open>pwrite\<close> in turn. The write loop retries an interrupted call without a bound, so it is a partial
  function: \<open>None\<close> is a loop that never returns.
\<close>

section \<open>The write loop\<close>

datatype pwrite_answer = PwWrote nat | PwEIntr | PwError

record anon_sys =
  as_mkstemp :: bool
  as_pwrite :: "nat \<Rightarrow> pwrite_answer"

text \<open>
  The file as a sequence of bytes. A \<^verbatim>\<open>pwrite\<close> that reports \<open>w\<close> bytes stores that prefix of the rest of
  the buffer at the offset, and the kernel never reports more than it was given.
\<close>

definition storeAt :: "nat \<Rightarrow> bytes \<Rightarrow> bytes \<Rightarrow> bytes" where
  "storeAt off d content = take off content @ d @ drop (off + length d) content"

partial_function (option) writeAll ::
    "(nat \<Rightarrow> pwrite_answer) \<Rightarrow> bytes \<Rightarrow> nat \<Rightarrow> nat \<Rightarrow> bytes \<Rightarrow> bytes option option" where
  "writeAll pw b call off content =
     (if length b \<le> off then Some (Some content)
      else case pw call of
             PwEIntr \<Rightarrow> writeAll pw b (Suc call) off content
           | PwError \<Rightarrow> Some None
           | PwWrote w \<Rightarrow>
               (let n = min w (length b - off)
                in if n = 0 then Some None
                   else writeAll pw b (Suc call) (off + n) (storeAt off (take n (drop off b)) content)))"

text \<open>The content of the descriptor, read from the start: the offset is set back before it is returned.\<close>

definition anonFdFromBytes :: "anon_sys \<Rightarrow> bytes \<Rightarrow> bytes option option" where
  "anonFdFromBytes sys b = (if \<not> as_mkstemp sys then Some None else writeAll (as_pwrite sys) b 0 0 [])"

section \<open>What the loop leaves in the file\<close>

lemma storeAt_prefix:
  "off + n \<le> length b \<Longrightarrow> storeAt off (take n (drop off b)) (take off b) = take (off + n) b"
  by (simp add: storeAt_def take_add)

lemma writeAll_content:
  assumes "writeAll pw b call off content = Some r" and "content = take off b" and "r = Some c"
  shows "c = b"
proof -
  have "content = take off b \<longrightarrow> r = Some c \<longrightarrow> c = b"
  proof (rule writeAll.raw_induct [where P = "\<lambda>pw b call off content r. content = take off b \<longrightarrow> r = Some c \<longrightarrow> c = b",
        OF _ assms(1)], goal_cases)
    case (1 f pw b call off content r)
    show ?case
    proof (cases "length b \<le> off")
      case False
      have "off + min w (length b - off) \<le> length b" for w using False by simp
      with 1(2) False show ?thesis
        by (auto split: if_splits pwrite_answer.splits simp: Let_def storeAt_prefix dest: 1(1))
    qed (use 1(2) in auto)
  qed
  then show ?thesis using assms(2,3) by simp
qed

text \<open>
  With answers that are not interruptions again and again the loop ends, since each of them ends it
  or moves on; and no step fails when the kernel always makes progress.
\<close>

lemma writeAll_returns:
  assumes answers: "\<And>n. \<exists>m \<ge> n. pw m \<noteq> PwEIntr"
  shows "\<exists>r. writeAll pw b call off content = Some r
       \<and> ((\<forall>n. pw n \<noteq> PwError \<and> pw n \<noteq> PwWrote 0) \<longrightarrow> r \<noteq> None)"
proof (induction "length b - off" arbitrary: call off content rule: less_induct)
  case less
  obtain m where "m \<ge> call" "pw m \<noteq> PwEIntr" using answers by blast
  then show ?case
  proof (induction "m - call" arbitrary: call)
    case 0
    then have "m = call" by simp
    with 0 less show ?case
      by (subst (1) writeAll.simps) (auto simp: Let_def min_def split: pwrite_answer.split)
  next
    case (Suc k)
    then have "\<exists>r. writeAll pw b (Suc call) off content = Some r
        \<and> ((\<forall>n. pw n \<noteq> PwError \<and> pw n \<noteq> PwWrote 0) \<longrightarrow> r \<noteq> None)" by auto
    with less show ?case
      by (subst (1) writeAll.simps) (auto simp: Let_def min_def split: pwrite_answer.split)
  qed
qed

lemma anonFd_content: "anonFdFromBytes sys b = Some (Some c) \<Longrightarrow> c = b"
  by (auto simp: anonFdFromBytes_def split: if_splits intro: writeAll_content)

text \<open>
  C35: an artifact becomes a descriptor that holds exactly its bytes, however the kernel splits the
  writes: as long as the calls are not interrupted forever the write loop ends, with a failure or
  with a file that read from its start is the buffer, and it fails only when the temporary file or a
  write fails or a write makes no progress.
\<close>
theorem anon_fd_holds_bytes:
  assumes "\<And>n. \<exists>m \<ge> n. as_pwrite sys m \<noteq> PwEIntr"
  shows "(anonFdFromBytes sys b = Some None \<or> anonFdFromBytes sys b = Some (Some b))
       \<and> (as_mkstemp sys \<and> (\<forall>n. as_pwrite sys n \<noteq> PwError \<and> as_pwrite sys n \<noteq> PwWrote 0)
            \<longrightarrow> anonFdFromBytes sys b = Some (Some b))"
proof -
  obtain r where r: "writeAll (as_pwrite sys) b 0 0 [] = Some r"
    "(\<forall>n. as_pwrite sys n \<noteq> PwError \<and> as_pwrite sys n \<noteq> PwWrote 0) \<longrightarrow> r \<noteq> None"
    using writeAll_returns [OF assms] by blast
  moreover have "r = None \<or> r = Some b" using r(1) by (cases r) (auto intro: writeAll_content)
  ultimately show ?thesis by (auto simp: anonFdFromBytes_def)
qed

text \<open>A kernel that interrupts every other call and takes two bytes at a time.\<close>

definition demoAnonSys :: anon_sys where
  "demoAnonSys = \<lparr>as_mkstemp = True, as_pwrite = (\<lambda>n. if even n then PwEIntr else PwWrote 2)\<rparr>"

lemma demoAnonSys_answers: "\<exists>m \<ge> n. as_pwrite demoAnonSys m \<noteq> PwEIntr"
  by (rule exI [of _ "2 * n + 1"]) (simp add: demoAnonSys_def)

theorem anon_fd_holds_bytes_witness: "anonFdFromBytes demoAnonSys [1, 2, 3] = Some (Some [1, 2, 3])"
  using anon_fd_holds_bytes [OF demoAnonSys_answers, of "[1, 2, 3]"] by (simp add: demoAnonSys_def)

end
