(* ===== verification/Cbor_Value.thy ===== *)
theory Cbor_Value
  imports Prelude
begin

text \<open>
  The values the agent puts on its sockets. \<^verbatim>\<open>CborValue\<close> and its codec belong to the
  LibreAgent wire library, so only the face the sources use is stated here: the data
  items they build and ask for, the accessors that answer \<^verbatim>\<open>nullptr\<close> or
  \<^verbatim>\<open>nullopt\<close> on another kind of item, and the codec as a record of functions that
  every definition using it takes as an argument. \<open>COther\<close> stands for the items no
  source asks for (null, negative integers, floats).
\<close>

section \<open>Data items\<close>

datatype cbor =
    CText string
  | CUInt u64
  | CBytes bytes
  | CBool bool
  | CArray "cbor list"
  | CMap "(string \<times> cbor) list"
  | COther nat

fun asText :: "cbor \<Rightarrow> string option" where
  "asText (CText s) = Some s"
| "asText _ = None"

fun asUInt :: "cbor \<Rightarrow> u64 option" where
  "asUInt (CUInt n) = Some n"
| "asUInt _ = None"

fun asBytes :: "cbor \<Rightarrow> bytes option" where
  "asBytes (CBytes b) = Some b"
| "asBytes _ = None"

fun asBool :: "cbor \<Rightarrow> bool option" where
  "asBool (CBool b) = Some b"
| "asBool _ = None"

fun asArray :: "cbor \<Rightarrow> cbor list option" where
  "asArray (CArray xs) = Some xs"
| "asArray _ = None"

fun asMap :: "cbor \<Rightarrow> (string \<times> cbor) list option" where
  "asMap (CMap m) = Some m"
| "asMap _ = None"

type_synonym cbor_map = "(string, cbor) smap"

section \<open>The codec\<close>

text \<open>
  \<^verbatim>\<open>decode\<close> of a body, and the in-place \<^verbatim>\<open>CborValue::scrub\<close> of a decoded tree.
\<close>

record codec =
  decode :: "bytes \<Rightarrow> cbor option"
  scrub :: "cbor \<Rightarrow> cbor"

section \<open>Reading fields\<close>

definition textAt :: "cbor_map \<Rightarrow> string \<Rightarrow> string option" where
  "textAt m k = (case sm_find m k of None \<Rightarrow> None | Some v \<Rightarrow> asText v)"

lemma textAt_emplace [simp]:
  "sm_find m k = None \<Longrightarrow> textAt (sm_emplace k (CText s) m) k = Some s"
  by (simp add: textAt_def sm_find_emplace)

lemma textAt_emplace_other [simp]: "k' \<noteq> k \<Longrightarrow> textAt (sm_emplace k v m) k' = textAt m k'"
  by (simp add: textAt_def sm_find_emplace)

end
