(* ===== verification/Connections.thy ===== *)
theory Connections
  imports Cbor_Value "HOL-Library.Sublist"
begin

text \<open>
  The client connections of \<^verbatim>\<open>agent/src/backend/SocketTransport.cpp\<close>: the connection
  table, the bounded outbound queues and their flushing, broadcasts, the final frame of
  \<^verbatim>\<open>sendThenClose\<close>, the read path and the disconnect fan-out. Everything runs on one
  serial queue, so an operation is a function on the state. The kernel's answers to
  \<^verbatim>\<open>sendmsg\<close> and \<^verbatim>\<open>write\<close> are a script the state carries (an exhausted script is a
  socket that would block) and what a peer receives is a log. The frame encoder, the
  descriptor bound, the request parser and the captured credentials are the agent library's:
  parameters and a type variable. Connection ids are counted in \<^typ>\<open>nat\<close>, the 64-bit
  counter being out of reach of one accept per connection.
\<close>

section \<open>State\<close>

definition kMaxConnections :: nat where
  "kMaxConnections = 32"

definition kMaxQueuedBytesPerConnection :: nat where
  "kMaxQueuedBytesPerConnection = 4 * 1024 * 1024"

definition kMaxQueuedFrames :: nat where
  "kMaxQueuedFrames = 4096"

record wire_env =
  maxFrameFds :: nat
  frameOf :: "cbor \<Rightarrow> nat \<Rightarrow> bytes"

datatype wres = Wrote nat | EIntr | EAgain | EFail

datatype SendState = Sent | WouldBlock | SendError

record OutFrame =
  of_bytes :: bytes
  of_fds :: "nat list"
  of_sent :: nat
  of_ancillarySent :: bool

record 'cred connection =
  co_caller :: string
  co_creds :: 'cred
  co_readSource :: bool
  co_writeSource :: bool
  co_firstFrameTimer :: bool
  co_sawFirstFrame :: bool
  co_wantsPresenceEvents :: bool
  co_closeWhenDrained :: bool
  co_outQueue :: "OutFrame list"
  co_queuedBytes :: nat

text \<open>One successful send: the bytes that left and the descriptors that rode on it.\<close>

record chunk =
  ch_conn :: nat
  ch_bytes :: bytes
  ch_fds :: "nat list"

record 'cred transport =
  t_nextConnId :: nat
  t_connections :: "(nat, 'cred connection) smap"
  t_sink :: bool
  t_loopQuiesced :: bool
  t_disconnectHandlers :: "nat list"
  t_notified :: "(nat \<times> string) list"
  t_script :: "wres list"
  t_wire :: "chunk list"

section \<open>Sending\<close>

fun sendLoop :: "nat \<Rightarrow> wres list \<Rightarrow> OutFrame \<Rightarrow> SendState \<times> OutFrame \<times> wres list \<times> chunk list" where
  "sendLoop cid [] f =
     (if of_sent f < length (of_bytes f) then (WouldBlock, f, [], [])
      else (Sent, f\<lparr>of_fds := []\<rparr>, [], []))"
| "sendLoop cid (r # rest) f =
     (if of_sent f < length (of_bytes f) then
       (case r of
          EIntr \<Rightarrow> sendLoop cid rest f
        | EAgain \<Rightarrow> (WouldBlock, f, rest, [])
        | EFail \<Rightarrow> (SendError, f, rest, [])
        | Wrote n \<Rightarrow>
            (let w = min n (length (of_bytes f) - of_sent f);
                 ch = \<lparr>ch_conn = cid, ch_bytes = take w (drop (of_sent f) (of_bytes f)),
                       ch_fds = (if of_ancillarySent f then [] else of_fds f)\<rparr>
             in case sendLoop cid rest (f\<lparr>of_ancillarySent := True, of_sent := of_sent f + w\<rparr>) of
                  (st, f', rest', chs) \<Rightarrow> (st, f', rest', ch # chs)))
      else (Sent, f\<lparr>of_fds := []\<rparr>, r # rest, []))"

definition trySendFrame ::
    "wire_env \<Rightarrow> nat \<Rightarrow> wres list \<Rightarrow> OutFrame \<Rightarrow> SendState \<times> OutFrame \<times> wres list \<times> chunk list" where
  "trySendFrame env cid script f =
     (if length (of_fds f) > maxFrameFds env then (SendError, f, script, []) else sendLoop cid script f)"

text \<open>The loop of \<^verbatim>\<open>flushWrites\<close> over the queue; frames that were sent whole are popped.\<close>

fun flushQueue ::
    "wire_env \<Rightarrow> nat \<Rightarrow> wres list \<Rightarrow> OutFrame list \<Rightarrow> nat
      \<Rightarrow> SendState \<times> OutFrame list \<times> nat \<times> wres list \<times> chunk list" where
  "flushQueue env cid script [] queued = (Sent, [], queued, script, [])"
| "flushQueue env cid script (f # fs) queued =
     (case trySendFrame env cid script f of
        (Sent, f', script', chs) \<Rightarrow>
          (case flushQueue env cid script' fs (queued - length (of_bytes f')) of
             (st, q, queued', script'', chs') \<Rightarrow> (st, q, queued', script'', chs @ chs'))
      | (st, f', script', chs) \<Rightarrow> (st, f' # fs, queued, script', chs))"

section \<open>Closing\<close>

definition closeConnection :: "nat \<Rightarrow> 'cred transport \<Rightarrow> 'cred transport" where
  "closeConnection cid t =
     (case sm_find (t_connections t) cid of
        None \<Rightarrow> t
      | Some conn \<Rightarrow>
          t\<lparr>t_connections := sm_erase cid (t_connections t),
            t_notified := t_notified t @ map (\<lambda>h. (h, co_caller conn)) (t_disconnectHandlers t)\<rparr>)"

definition setConn :: "nat \<Rightarrow> 'cred connection \<Rightarrow> 'cred transport \<Rightarrow> 'cred transport" where
  "setConn cid conn t = t\<lparr>t_connections := sm_put cid conn (t_connections t)\<rparr>"

definition flushWrites :: "wire_env \<Rightarrow> nat \<Rightarrow> 'cred transport \<Rightarrow> 'cred transport" where
  "flushWrites env cid t =
     (case sm_find (t_connections t) cid of
        None \<Rightarrow> t
      | Some conn \<Rightarrow>
          (case flushQueue env cid (t_script t) (co_outQueue conn) (co_queuedBytes conn) of
             (st, q, queued, script, chs) \<Rightarrow>
               let t' = t\<lparr>t_script := script, t_wire := t_wire t @ chs\<rparr>;
                   conn' = conn\<lparr>co_outQueue := q, co_queuedBytes := queued\<rparr>
               in case st of
                    WouldBlock \<Rightarrow> setConn cid (conn'\<lparr>co_writeSource := True\<rparr>) t'
                  | SendError \<Rightarrow> closeConnection cid (setConn cid conn' t')
                  | Sent \<Rightarrow>
                      let t'' = setConn cid (conn'\<lparr>co_writeSource := False\<rparr>) t'
                      in if co_closeWhenDrained conn then closeConnection cid t'' else t''))"

definition enqueueSend ::
    "wire_env \<Rightarrow> nat \<Rightarrow> bytes \<Rightarrow> nat list \<Rightarrow> 'cred transport \<Rightarrow> 'cred transport" where
  "enqueueSend env cid framed fds t =
     (case sm_find (t_connections t) cid of
        None \<Rightarrow> t
      | Some conn \<Rightarrow>
          let f = \<lparr>of_bytes = framed, of_fds = fds, of_sent = 0, of_ancillarySent = False\<rparr>;
              conn' = conn\<lparr>co_outQueue := co_outQueue conn @ [f],
                           co_queuedBytes := co_queuedBytes conn + length framed\<rparr>;
              t' = setConn cid conn' t
          in if co_queuedBytes conn' > kMaxQueuedBytesPerConnection
                \<or> length (co_outQueue conn') > kMaxQueuedFrames
             then closeConnection cid t'
             else flushWrites env cid t')"

definition sendTo :: "wire_env \<Rightarrow> nat \<Rightarrow> cbor \<Rightarrow> nat list \<Rightarrow> 'cred transport \<Rightarrow> 'cred transport" where
  "sendTo env cid message fds t =
     (if sm_find (t_connections t) cid = None then t
      else enqueueSend env cid (frameOf env message (length fds)) fds t)"

definition sendThenClose :: "wire_env \<Rightarrow> nat \<Rightarrow> cbor \<Rightarrow> 'cred transport \<Rightarrow> 'cred transport" where
  "sendThenClose env cid message t =
     (case sm_find (t_connections t) cid of
        None \<Rightarrow> t
      | Some conn \<Rightarrow>
          sendTo env cid message []
            (setConn cid (conn\<lparr>co_readSource := False, co_closeWhenDrained := True\<rparr>) t))"

definition setWantsPresenceEvents :: "nat \<Rightarrow> bool \<Rightarrow> 'cred transport \<Rightarrow> 'cred transport" where
  "setWantsPresenceEvents cid wants t =
     (case sm_find (t_connections t) cid of
        None \<Rightarrow> t
      | Some conn \<Rightarrow> setConn cid (conn\<lparr>co_wantsPresenceEvents := wants\<rparr>) t)"

datatype EventKind = Presence | AgentWide

definition broadcastIds :: "EventKind \<Rightarrow> 'cred transport \<Rightarrow> nat list" where
  "broadcastIds kind t =
     map fst (filter (\<lambda>(cid, conn). \<not> co_closeWhenDrained conn
                        \<and> (kind = AgentWide \<or> co_wantsPresenceEvents conn)) (t_connections t))"

definition broadcast :: "wire_env \<Rightarrow> cbor \<Rightarrow> EventKind \<Rightarrow> 'cred transport \<Rightarrow> 'cred transport" where
  "broadcast env event kind t =
     fold (\<lambda>cid t. enqueueSend env cid (frameOf env event 0) [] t) (broadcastIds kind t) t"

section \<open>Accepting and reading\<close>

text \<open>\<^verbatim>\<open>capturePeerCredentials\<close> of the accepted socket is the argument \<open>creds\<close>.\<close>

definition callerOf :: "nat \<Rightarrow> string" where
  "callerOf cid = ''conn:'' @ showNat cid"

definition acceptOne :: "'cred option \<Rightarrow> 'cred transport \<Rightarrow> 'cred transport" where
  "acceptOne creds t =
     (if length (t_connections t) \<ge> kMaxConnections then t
      else case creds of
        None \<Rightarrow> t
      | Some cr \<Rightarrow>
          let cid = t_nextConnId t;
              conn = \<lparr>co_caller = callerOf cid, co_creds = cr, co_readSource = True,
                      co_writeSource = False, co_firstFrameTimer = True, co_sawFirstFrame = False,
                      co_wantsPresenceEvents = True, co_closeWhenDrained = False,
                      co_outQueue = [], co_queuedBytes = 0\<rparr>
          in setConn cid conn (t\<lparr>t_nextConnId := cid + 1\<rparr>))"

definition onFirstFrameTimeout :: "nat \<Rightarrow> 'cred transport \<Rightarrow> 'cred transport" where
  "onFirstFrameTimeout cid t =
     (case sm_find (t_connections t) cid of
        None \<Rightarrow> t
      | Some conn \<Rightarrow> if co_sawFirstFrame conn then t else closeConnection cid t)"

text \<open>
  \<^verbatim>\<open>FrameReassembler::pump\<close> belongs to the agent library: its answer is the argument
  \<open>pumped\<close>. The sink threads a state of its own, the frontend's.
\<close>

record pumped =
  pu_frames :: "(bytes \<times> nat list) list"
  pu_ok :: bool

record 'req inbound =
  in_caller :: string
  in_connId :: nat
  in_request :: 'req
  in_fds :: "nat list"

fun dispatchFrames ::
    "(bytes \<Rightarrow> 'req option) \<Rightarrow> ('req inbound \<Rightarrow> 's \<times> 'cred transport \<Rightarrow> 's \<times> 'cred transport)
      \<Rightarrow> string \<Rightarrow> nat \<Rightarrow> (bytes \<times> nat list) list \<Rightarrow> bool
      \<Rightarrow> 's \<times> 'cred transport \<Rightarrow> 's \<times> 'cred transport" where
  "dispatchFrames parse sink caller cid [] ok (s, t) =
     (s, if ok then t else closeConnection cid t)"
| "dispatchFrames parse sink caller cid ((body, fds) # frames) ok (s, t) =
     (case parse body of
        None \<Rightarrow> (s, closeConnection cid t)
      | Some req \<Rightarrow>
          (case sm_find (t_connections t) cid of
             None \<Rightarrow> (s, t)
           | Some live \<Rightarrow>
               if co_closeWhenDrained live then (s, t)
               else dispatchFrames parse sink caller cid frames ok
                 (if t_sink t
                  then sink \<lparr>in_caller = caller, in_connId = cid, in_request = req, in_fds = fds\<rparr> (s, t)
                  else (s, t))))"

definition onReadReady ::
    "(bytes \<Rightarrow> 'req option) \<Rightarrow> ('req inbound \<Rightarrow> 's \<times> 'cred transport \<Rightarrow> 's \<times> 'cred transport)
      \<Rightarrow> nat \<Rightarrow> pumped \<Rightarrow> 's \<times> 'cred transport \<Rightarrow> 's \<times> 'cred transport" where
  "onReadReady parse sink cid pumped st =
     (case st of (s, t) \<Rightarrow>
       (case sm_find (t_connections t) cid of
          None \<Rightarrow> (s, t)
        | Some conn \<Rightarrow>
            let t' = (if pu_frames pumped \<noteq> [] \<and> \<not> co_sawFirstFrame conn
                      then setConn cid (conn\<lparr>co_sawFirstFrame := True, co_firstFrameTimer := False\<rparr>) t
                      else t)
            in dispatchFrames parse sink (co_caller conn) cid (pu_frames pumped) (pu_ok pumped) (s, t')))"

section \<open>Liveness and teardown\<close>

definition onClientDisconnect :: "nat \<Rightarrow> 'cred transport \<Rightarrow> 'cred transport" where
  "onClientDisconnect handler t = t\<lparr>t_disconnectHandlers := t_disconnectHandlers t @ [handler]\<rparr>"

definition setRequestSink :: "'cred transport \<Rightarrow> 'cred transport" where
  "setRequestSink t = t\<lparr>t_sink := True\<rparr>"

definition quiesceLoop :: "'cred transport \<Rightarrow> 'cred transport" where
  "quiesceLoop t = t\<lparr>t_loopQuiesced := True, t_sink := False, t_disconnectHandlers := []\<rparr>"

definition runPosted :: "('cred transport \<Rightarrow> 'cred transport) \<Rightarrow> 'cred transport \<Rightarrow> 'cred transport" where
  "runPosted fn t = (if t_loopQuiesced t then t else fn t)"

definition destroyConnections :: "'cred transport \<Rightarrow> 'cred transport" where
  "destroyConnections t = t\<lparr>t_connections := []\<rparr>"

definition credentialsFor :: "string \<Rightarrow> 'cred transport \<Rightarrow> 'cred option" where
  "credentialsFor caller t =
     map_option (\<lambda>(cid, conn). co_creds conn)
       (find (\<lambda>(cid, conn). co_caller conn = caller) (t_connections t))"

section \<open>What a flush does to a queue\<close>

definition framePending :: "OutFrame \<Rightarrow> bytes" where
  "framePending f = drop (of_sent f) (of_bytes f)"

definition pendingBytes :: "OutFrame list \<Rightarrow> bytes" where
  "pendingBytes q = concat (map framePending q)"

definition queueBytes :: "OutFrame list \<Rightarrow> nat" where
  "queueBytes q = sum_list (map (length \<circ> of_bytes) q)"

definition framesOk :: "OutFrame list \<Rightarrow> bool" where
  "framesOk q \<longleftrightarrow> list_all (\<lambda>f. of_sent f \<le> length (of_bytes f)) q"

definition chunkBytes :: "chunk list \<Rightarrow> bytes" where
  "chunkBytes chs = concat (map ch_bytes chs)"

lemma chunkBytes_simps [simp]:
  "chunkBytes [] = []" "chunkBytes (c # cs) = ch_bytes c @ chunkBytes cs"
  "chunkBytes (xs @ ys) = chunkBytes xs @ chunkBytes ys"
  by (simp_all add: chunkBytes_def)

lemma queue_simps [simp]:
  "pendingBytes [] = []" "pendingBytes (f # q) = framePending f @ pendingBytes q"
  "pendingBytes (q @ q') = pendingBytes q @ pendingBytes q'"
  "queueBytes [] = 0" "queueBytes (f # q) = length (of_bytes f) + queueBytes q"
  "queueBytes (q @ q') = queueBytes q + queueBytes q'"
  "framesOk []" "framesOk (f # q) \<longleftrightarrow> of_sent f \<le> length (of_bytes f) \<and> framesOk q"
  "framesOk (q @ q') \<longleftrightarrow> framesOk q \<and> framesOk q'"
  by (simp_all add: pendingBytes_def queueBytes_def framesOk_def)

lemma framePending_split:
  "framePending f = take w (drop (of_sent f) (of_bytes f)) @ framePending (f\<lparr>of_ancillarySent := b, of_sent := of_sent f + w\<rparr>)"
  by (simp add: framePending_def) (metis add.commute append_take_drop_id drop_drop)

lemma sendLoop_bytes:
  "sendLoop cid script f = (st, f', script', chs) \<Longrightarrow> of_sent f \<le> length (of_bytes f) \<Longrightarrow>
     of_bytes f' = of_bytes f \<and> of_sent f' \<le> length (of_bytes f)
     \<and> framePending f = chunkBytes chs @ framePending f'
     \<and> (st = Sent \<longrightarrow> of_sent f' = length (of_bytes f))
     \<and> list_all (\<lambda>c. ch_conn c = cid) chs"
proof (induction script arbitrary: f st f' script' chs)
  case Nil
  then show ?case by (auto simp: framePending_def split: if_splits)
next
  case (Cons r rest)
  show ?case
  proof (cases "\<exists>n. r = Wrote n \<and> of_sent f < length (of_bytes f)")
    case True
    then obtain n where r: "r = Wrote n" and lt: "of_sent f < length (of_bytes f)" by blast
    define w where "w = min n (length (of_bytes f) - of_sent f)"
    let ?g = "f\<lparr>of_ancillarySent := True, of_sent := of_sent f + w\<rparr>"
    obtain chs' where rec: "sendLoop cid rest ?g = (st, f', script', chs')"
      and chs: "chs = \<lparr>ch_conn = cid, ch_bytes = take w (drop (of_sent f) (of_bytes f)),
                  ch_fds = (if of_ancillarySent f then [] else of_fds f)\<rparr> # chs'"
      using Cons.prems(1) r lt by (auto simp: w_def Let_def split: prod.splits)
    have "of_sent ?g \<le> length (of_bytes ?g)" using lt by (simp add: w_def)
    from Cons.IH [OF rec this] chs show ?thesis using framePending_split [of f w True] by simp
  next
    case False
    with Cons.prems Cons.IH [of f st f' script' chs] show ?thesis
      by (cases r) (auto simp: framePending_def split: if_splits)
  qed
qed

text \<open>The descriptors of a frame ride exactly the first send that succeeds.\<close>

lemma sendLoop_fds:
  "sendLoop cid script f = (st, f', script', chs) \<Longrightarrow>
     map ch_fds chs = (if chs = [] then [] else
        (if of_ancillarySent f then [] else of_fds f) # replicate (length chs - 1) [])
     \<and> of_fds f' = (if st = Sent then [] else of_fds f)
     \<and> of_ancillarySent f' = (of_ancillarySent f \<or> chs \<noteq> [])"
proof (induction script arbitrary: f st f' script' chs)
  case (Cons r rest)
  show ?case
  proof (cases "\<exists>n. r = Wrote n \<and> of_sent f < length (of_bytes f)")
    case True
    then obtain n where r: "r = Wrote n" and lt: "of_sent f < length (of_bytes f)" by blast
    let ?g = "f\<lparr>of_ancillarySent := True,
                of_sent := of_sent f + min n (length (of_bytes f) - of_sent f)\<rparr>"
    obtain ch chs' where rec: "sendLoop cid rest ?g = (st, f', script', chs')"
      and chs: "chs = ch # chs'" "ch_fds ch = (if of_ancillarySent f then [] else of_fds f)"
      using Cons.prems(1) r lt by (auto simp: Let_def split: prod.splits)
    from Cons.IH [OF rec] chs show ?thesis by (cases chs') auto
  next
    case False
    with Cons.prems Cons.IH [of f st f' script' chs] show ?thesis
      by (cases r) (auto split: if_splits)
  qed
qed (auto split: if_splits)

lemma flushQueue_spec:
  "flushQueue env cid script q queued = (st, q', queued', script', chs) \<Longrightarrow>
     framesOk q \<Longrightarrow> queued = queueBytes q \<Longrightarrow>
     framesOk q' \<and> queued' = queueBytes q' \<and> pendingBytes q = chunkBytes chs @ pendingBytes q'
     \<and> (st = Sent \<longleftrightarrow> q' = []) \<and> length q' \<le> length q \<and> queueBytes q' \<le> queueBytes q
     \<and> list_all (\<lambda>c. ch_conn c = cid) chs"
proof (induction env cid script q queued arbitrary: st q' queued' script' chs rule: flushQueue.induct)
  case (2 env cid script f fs queued)
  obtain st1 f1 script1 chs1 where one: "trySendFrame env cid script f = (st1, f1, script1, chs1)"
    by (metis prod_cases4)
  have bytes: "of_bytes f1 = of_bytes f \<and> of_sent f1 \<le> length (of_bytes f)
     \<and> framePending f = chunkBytes chs1 @ framePending f1
     \<and> (st1 = Sent \<longrightarrow> of_sent f1 = length (of_bytes f))
     \<and> list_all (\<lambda>c. ch_conn c = cid) chs1"
    using one "2.prems"(2) sendLoop_bytes [of cid script f]
    by (auto simp: trySendFrame_def split: if_splits)
  show ?case
  proof (cases "st1 = Sent")
    case False
    with "2.prems"(1) one have "st = st1" "q' = f1 # fs" "queued' = queued" "chs = chs1"
      by (cases st1; simp)+
    with False bytes "2.prems"(2,3) show ?thesis by simp
  next
    case True
    obtain st2 q2 queued2 script2 chs2
      where rest: "flushQueue env cid script1 fs (queued - length (of_bytes f1))
                     = (st2, q2, queued2, script2, chs2)"
      by (metis prod_cases5)
    have eqs: "st = st2" "q' = q2" "queued' = queued2" "chs = chs1 @ chs2"
      using "2.prems"(1) one rest True by simp_all
    have "queued - length (of_bytes f1) = queueBytes fs" "framesOk fs" using "2.prems"(2,3) bytes by simp_all
    with "2.IH" [OF one [symmetric] _ _ _ rest] True
    have "framesOk q2 \<and> queued2 = queueBytes q2 \<and> pendingBytes fs = chunkBytes chs2 @ pendingBytes q2
      \<and> (st2 = Sent \<longleftrightarrow> q2 = []) \<and> length q2 \<le> length fs \<and> queueBytes q2 \<le> queueBytes fs
      \<and> list_all (\<lambda>c. ch_conn c = cid) chs2" by simp
    moreover have "framePending f1 = []" using bytes True by (simp add: framePending_def)
    ultimately show ?thesis using eqs bytes by simp
  qed
qed auto

section \<open>The invariant of the connection table\<close>

definition connBounds :: "nat \<Rightarrow> 'cred connection \<Rightarrow> bool" where
  "connBounds cid c \<longleftrightarrow>
     co_caller c = callerOf cid \<and> framesOk (co_outQueue c)
     \<and> co_queuedBytes c = queueBytes (co_outQueue c)
     \<and> co_queuedBytes c \<le> kMaxQueuedBytesPerConnection \<and> length (co_outQueue c) \<le> kMaxQueuedFrames
     \<and> (co_closeWhenDrained c \<longrightarrow> \<not> co_readSource c)
     \<and> (co_firstFrameTimer c \<longleftrightarrow> \<not> co_sawFirstFrame c)"

definition connOk :: "nat \<Rightarrow> 'cred connection \<Rightarrow> bool" where
  "connOk cid c \<longleftrightarrow>
     connBounds cid c \<and> (co_writeSource c \<longleftrightarrow> co_outQueue c \<noteq> [])
     \<and> (co_closeWhenDrained c \<longrightarrow> co_outQueue c \<noteq> [])"

definition notifiedOk :: "'cred transport \<Rightarrow> bool" where
  "notifiedOk t \<longleftrightarrow>
     distinct (t_notified t) \<and> distinct (t_disconnectHandlers t)
     \<and> (\<forall>(h, caller) \<in> set (t_notified t).
          \<exists>cid < t_nextConnId t. caller = callerOf cid \<and> sm_find (t_connections t) cid = None)"

definition transportOk :: "'cred transport \<Rightarrow> bool" where
  "transportOk t \<longleftrightarrow>
     sm_ok (t_connections t) \<and> length (t_connections t) \<le> kMaxConnections \<and> notifiedOk t
     \<and> (\<forall>cid c. sm_find (t_connections t) cid = Some c \<longrightarrow> connOk cid c \<and> cid < t_nextConnId t)"

lemma notifiedOkI:
  assumes "distinct (t_notified t)" "distinct (t_disconnectHandlers t)"
    and "\<And>h caller. (h, caller) \<in> set (t_notified t)
           \<Longrightarrow> \<exists>cid < t_nextConnId t. caller = callerOf cid \<and> sm_find (t_connections t) cid = None"
  shows "notifiedOk t"
  using assms by (auto simp: notifiedOk_def)

lemma transportOk_conn:
  "transportOk t \<Longrightarrow> sm_find (t_connections t) cid = Some c \<Longrightarrow> connOk cid c \<and> cid < t_nextConnId t"
  by (simp add: transportOk_def)

lemma callerOf_inj [simp]: "callerOf a = callerOf b \<longleftrightarrow> a = b"
  by (simp add: callerOf_def)

lemma setConn_simps [simp]:
  "sm_find (t_connections (setConn cid c t)) k = (if k = cid then Some c else sm_find (t_connections t) k)"
  "t_nextConnId (setConn cid c t) = t_nextConnId t"
  "t_notified (setConn cid c t) = t_notified t"
  "t_disconnectHandlers (setConn cid c t) = t_disconnectHandlers t"
  "t_wire (setConn cid c t) = t_wire t" "t_script (setConn cid c t) = t_script t"
  "setConn cid c (setConn cid c' t) = setConn cid c t"
  by (simp_all add: setConn_def)

lemma setConn_io [simp]:
  "(setConn cid c t)\<lparr>t_script := s, t_wire := w\<rparr> = setConn cid c (t\<lparr>t_script := s, t_wire := w\<rparr>)"
  by (simp add: setConn_def)

lemma transportOk_io [simp]: "transportOk (t\<lparr>t_script := s, t_wire := w\<rparr>) = transportOk t"
  by (simp add: transportOk_def notifiedOk_def)

lemma notifiedOk_setConn:
  assumes "notifiedOk t" "sm_find (t_connections t) cid = Some c0"
  shows "notifiedOk (setConn cid c t)"
proof -
  have "\<exists>k < t_nextConnId t. caller = callerOf k \<and> sm_find (t_connections (setConn cid c t)) k = None"
    if "(h, caller) \<in> set (t_notified t)" for h caller
  proof -
    from that assms(1) obtain k where
      "k < t_nextConnId t" "caller = callerOf k" "sm_find (t_connections t) k = None"
      by (auto simp: notifiedOk_def)
    moreover have "k \<noteq> cid" using calculation assms(2) by auto
    ultimately show ?thesis by auto
  qed
  with assms(1) show ?thesis unfolding notifiedOk_def setConn_simps by blast
qed

lemma setConn_ok [inv_intros]:
  assumes "transportOk t" "sm_find (t_connections t) cid = Some c0" "connOk cid c"
  shows "transportOk (setConn cid c t)"
proof -
  have "sm_ok (t_connections (setConn cid c t))" "length (t_connections (setConn cid c t)) \<le> kMaxConnections"
    using assms by (simp_all add: transportOk_def setConn_def length_sm_put)
  moreover have "notifiedOk (setConn cid c t)"
    using assms notifiedOk_setConn unfolding transportOk_def by blast
  ultimately show ?thesis using assms by (auto simp: transportOk_def)
qed

lemma closeConnection_ok [inv_intros]:
  assumes "transportOk t" shows "transportOk (closeConnection cid t)"
proof (cases "sm_find (t_connections t) cid")
  case (Some c)
  then have c: "co_caller c = callerOf cid" "cid < t_nextConnId t"
    using assms by (auto simp: transportOk_def connOk_def connBounds_def)
  have fresh: "(h, callerOf cid) \<notin> set (t_notified t)" for h
    using assms Some by (fastforce simp: transportOk_def notifiedOk_def)
  have "notifiedOk (closeConnection cid t)"
    using assms Some c fresh
    by (auto simp: transportOk_def notifiedOk_def closeConnection_def distinct_map inj_on_def) fastforce
  then show ?thesis
    using assms Some
    by (auto simp: transportOk_def closeConnection_def intro: order_trans [OF length_sm_erase])
qed (simp add: assms closeConnection_def)

lemma closeConnection_set:
  assumes "sm_find (t_connections t) cid = Some c0" "co_caller c = co_caller c0"
  shows "closeConnection cid (setConn cid c t) = closeConnection cid t"
  using assms by (simp add: closeConnection_def setConn_def)

lemma flushWrites_set_ok:
  assumes "transportOk t" "sm_find (t_connections t) cid = Some c0" "connBounds cid c"
  shows "transportOk (flushWrites env cid (setConn cid c t))"
proof -
  obtain st q queued script chs
    where fl: "flushQueue env cid (t_script t) (co_outQueue c) (co_queuedBytes c) = (st, q, queued, script, chs)"
    by (metis prod_cases5)
  note spec = flushQueue_spec [OF fl]
  let ?t = "t\<lparr>t_script := script, t_wire := t_wire t @ chs\<rparr>"
  have caller: "co_caller c = co_caller c0"
    using assms by (auto simp: transportOk_def connOk_def connBounds_def)
  have b: "connBounds cid (c\<lparr>co_outQueue := q, co_queuedBytes := queued\<rparr>)"
    using spec assms(3) by (auto simp: connBounds_def)
  have ok: "transportOk ?t" "sm_find (t_connections ?t) cid = Some c0" using assms by simp_all
  show ?thesis
  proof (cases st)
    case WouldBlock
    then have "connOk cid (c\<lparr>co_outQueue := q, co_queuedBytes := queued, co_writeSource := True\<rparr>)"
      using b spec assms(3) by (auto simp: connOk_def connBounds_def)
    with setConn_ok [OF ok this] fl WouldBlock show ?thesis by (simp add: flushWrites_def Let_def)
  next
    case SendError
    with fl closeConnection_ok [OF ok(1), of cid] caller assms(2) show ?thesis
      by (simp add: flushWrites_def Let_def closeConnection_set)
  next
    case Sent
    show ?thesis
    proof (cases "co_closeWhenDrained c")
      case True
      with fl Sent closeConnection_ok [OF ok(1), of cid] caller assms(2) show ?thesis
        by (simp add: flushWrites_def Let_def closeConnection_set)
    next
      case False
      then have "connOk cid (c\<lparr>co_outQueue := q, co_queuedBytes := queued, co_writeSource := False\<rparr>)"
        using b spec assms(3) Sent by (auto simp: connOk_def connBounds_def)
      with setConn_ok [OF ok this] fl Sent False show ?thesis by (simp add: flushWrites_def Let_def)
    qed
  qed
qed

lemma setConn_same: "sm_ok (t_connections t) \<Longrightarrow> sm_find (t_connections t) cid = Some c \<Longrightarrow> setConn cid c t = t"
  by (simp add: setConn_def sm_put_same)

lemma flushWrites_ok [inv_intros]:
  assumes "transportOk t" shows "transportOk (flushWrites env cid t)"
proof (cases "sm_find (t_connections t) cid")
  case None
  with assms show ?thesis by (simp add: flushWrites_def)
next
  case (Some c)
  then have "connBounds cid c" "setConn cid c t = t"
    using assms by (auto simp: transportOk_def connOk_def setConn_same)
  with flushWrites_set_ok [OF assms Some] show ?thesis by metis
qed

lemma enqueueSend_set_ok:
  assumes "transportOk t" "sm_find (t_connections t) cid = Some c0" "connBounds cid c"
  shows "transportOk (enqueueSend env cid framed fds (setConn cid c t))"
proof -
  let ?f = "\<lparr>of_bytes = framed, of_fds = fds, of_sent = 0, of_ancillarySent = False\<rparr>"
  let ?c = "c\<lparr>co_outQueue := co_outQueue c @ [?f], co_queuedBytes := co_queuedBytes c + length framed\<rparr>"
  have caller: "co_caller c = co_caller c0"
    using assms by (auto simp: transportOk_def connOk_def connBounds_def)
  show ?thesis
  proof (cases "co_queuedBytes ?c > kMaxQueuedBytesPerConnection \<or> length (co_outQueue ?c) > kMaxQueuedFrames")
    case True
    then show ?thesis
      using closeConnection_ok [OF assms(1)] assms(2) caller
      by (auto simp: enqueueSend_def Let_def closeConnection_set)
  next
    case False
    then have "connBounds cid ?c" using assms(3) by (auto simp: connBounds_def)
    from flushWrites_set_ok [OF assms(1,2) this] False show ?thesis by (auto simp: enqueueSend_def Let_def)
  qed
qed

lemma enqueueSend_ok [inv_intros]:
  assumes "transportOk t" shows "transportOk (enqueueSend env cid framed fds t)"
proof (cases "sm_find (t_connections t) cid")
  case None
  with assms show ?thesis by (simp add: enqueueSend_def)
next
  case (Some c)
  then have "connBounds cid c" "setConn cid c t = t"
    using assms by (auto simp: transportOk_def connOk_def setConn_same)
  with enqueueSend_set_ok [OF assms Some] show ?thesis by metis
qed

lemma sendTo_ok [inv_intros]: "transportOk t \<Longrightarrow> transportOk (sendTo env cid message fds t)"
  by (simp add: sendTo_def enqueueSend_ok)

lemma sendThenClose_ok [inv_intros]:
  assumes "transportOk t" shows "transportOk (sendThenClose env cid message t)"
proof (cases "sm_find (t_connections t) cid")
  case None
  with assms show ?thesis by (simp add: sendThenClose_def)
next
  case (Some c)
  then have "connBounds cid (c\<lparr>co_readSource := False, co_closeWhenDrained := True\<rparr>)"
    using transportOk_conn [OF assms, of cid c] by (simp add: connOk_def connBounds_def)
  from enqueueSend_set_ok [OF assms Some this] Some show ?thesis
    by (simp add: sendThenClose_def sendTo_def)
qed

lemma setWants_ok [inv_intros]:
  assumes "transportOk t" shows "transportOk (setWantsPresenceEvents cid wants t)"
proof (cases "sm_find (t_connections t) cid")
  case (Some c)
  then have "connOk cid (c\<lparr>co_wantsPresenceEvents := wants\<rparr>)"
    using transportOk_conn [OF assms, of cid c] by (simp add: connOk_def connBounds_def)
  from setConn_ok [OF assms Some this] Some show ?thesis by (simp add: setWantsPresenceEvents_def)
qed (simp add: setWantsPresenceEvents_def assms)

lemma fold_enqueue_ok: "transportOk t \<Longrightarrow> transportOk (fold (\<lambda>cid t. enqueueSend env cid b [] t) ids t)"
  by (induction ids arbitrary: t) (auto intro: enqueueSend_ok)

lemma broadcast_ok [inv_intros]: "transportOk t \<Longrightarrow> transportOk (broadcast env event kind t)"
  by (simp add: broadcast_def fold_enqueue_ok)

lemma notified_next:
  assumes "notifiedOk t"
  shows "notifiedOk (setConn (t_nextConnId t) c (t\<lparr>t_nextConnId := t_nextConnId t + 1\<rparr>))" (is "notifiedOk ?t")
proof -
  have "\<exists>k < t_nextConnId ?t. caller = callerOf k \<and> sm_find (t_connections ?t) k = None"
    if "(h, caller) \<in> set (t_notified t)" for h caller
  proof -
    from that assms obtain k where
      "k < t_nextConnId t" "caller = callerOf k" "sm_find (t_connections t) k = None"
      by (auto simp: notifiedOk_def)
    then show ?thesis by (intro exI [of _ k]) simp
  qed
  then show ?thesis by (rule notifiedOkI [rotated 2]) (use assms in \<open>simp_all add: notifiedOk_def\<close>)
qed

lemma acceptOne_ok [inv_intros]:
  assumes "transportOk t" shows "transportOk (acceptOne creds t)"
proof (cases "length (t_connections t) \<ge> kMaxConnections \<or> creds = None")
  case True
  then show ?thesis using assms by (cases creds) (simp_all add: acceptOne_def)
next
  case False
  then obtain cr where cr: "creds = Some cr" and room: "length (t_connections t) < kMaxConnections" by auto
  let ?n = "t_nextConnId t"
  let ?c = "\<lparr>co_caller = callerOf ?n, co_creds = cr, co_readSource = True,
     co_writeSource = False, co_firstFrameTimer = True, co_sawFirstFrame = False,
     co_wantsPresenceEvents = True, co_closeWhenDrained = False, co_outQueue = [], co_queuedBytes = 0\<rparr>"
  let ?t = "setConn ?n ?c (t\<lparr>t_nextConnId := ?n + 1\<rparr>)"
  have "sm_find (t_connections t) ?n = None"
    using assms unfolding transportOk_def by (metis less_irrefl not_None_eq)
  then have "sm_ok (t_connections ?t)" "length (t_connections ?t) \<le> kMaxConnections"
    using assms room by (simp_all add: transportOk_def setConn_def length_sm_put)
  moreover have "notifiedOk ?t" using assms by (intro notified_next) (simp add: transportOk_def)
  moreover have "connOk k c \<and> k < ?n + 1" if "sm_find (t_connections ?t) k = Some c" for k c
    using that transportOk_conn [OF assms, of k c]
    by (cases "k = ?n") (auto simp: connOk_def connBounds_def)
  ultimately have "transportOk ?t" unfolding transportOk_def by simp
  with cr room show ?thesis by (simp add: acceptOne_def Let_def)
qed

lemma timeout_ok [inv_intros]: "transportOk t \<Longrightarrow> transportOk (onFirstFrameTimeout cid t)"
  by (simp add: onFirstFrameTimeout_def closeConnection_ok split: option.split)

lemma register_ok [inv_intros]:
  "transportOk t \<Longrightarrow> h \<notin> set (t_disconnectHandlers t) \<Longrightarrow> transportOk (onClientDisconnect h t)"
  by (simp add: transportOk_def notifiedOk_def onClientDisconnect_def)

lemma quiesce_ok [inv_intros]: "transportOk t \<Longrightarrow> transportOk (quiesceLoop t)"
  by (simp add: transportOk_def notifiedOk_def quiesceLoop_def)

lemma setRequestSink_ok [inv_intros]: "transportOk t \<Longrightarrow> transportOk (setRequestSink t)"
  by (simp add: transportOk_def notifiedOk_def setRequestSink_def)

text \<open>The read path keeps what the sink keeps.\<close>

lemma dispatchFrames_ok:
  assumes sink: "\<And>i s t. transportOk t \<Longrightarrow> transportOk (snd (sink i (s, t)))"
  shows "transportOk t \<Longrightarrow> transportOk (snd (dispatchFrames parse sink caller cid frames ok (s, t)))"
proof (induction frames arbitrary: s t)
  case (Cons fr frames)
  obtain body fds where fr: "fr = (body, fds)" by force
  let ?st = "\<lambda>req. if t_sink t
      then sink \<lparr>in_caller = caller, in_connId = cid, in_request = req, in_fds = fds\<rparr> (s, t) else (s, t)"
  have "transportOk (snd (?st req))" for req using Cons.prems sink by simp
  then have "transportOk (snd (dispatchFrames parse sink caller cid frames ok (?st req)))" for req
    using Cons.IH [of "snd (?st req)" "fst (?st req)"] by simp
  then show ?case
    unfolding fr using Cons.prems
    by (cases "parse body"; cases "sm_find (t_connections t) cid") (simp_all add: closeConnection_ok)
qed (simp add: closeConnection_ok)

lemma onReadReady_ok:
  assumes "\<And>i s t. transportOk t \<Longrightarrow> transportOk (snd (sink i (s, t)))" "transportOk t"
  shows "transportOk (snd (onReadReady parse sink cid pumped (s, t)))"
proof (cases "sm_find (t_connections t) cid")
  case (Some c)
  have "connOk cid (c\<lparr>co_sawFirstFrame := True, co_firstFrameTimer := False\<rparr>)"
    using transportOk_conn [OF assms(2) Some] by (simp add: connOk_def connBounds_def)
  note marked = setConn_ok [OF assms(2) Some this]
  show ?thesis
    using Some dispatchFrames_ok [of sink, OF assms(1) marked] dispatchFrames_ok [of sink, OF assms]
    by (simp add: onReadReady_def Let_def)
qed (simp add: onReadReady_def assms)

section \<open>The transport as a transition system\<close>

text \<open>What the frontend may ask of the transport, and a sink that asks it.\<close>

datatype command =
    DoSend nat cbor "nat list"
  | DoSendThenClose nat cbor
  | DoSetWants nat bool
  | DoBroadcast cbor EventKind

fun runCommand :: "wire_env \<Rightarrow> command \<Rightarrow> 'cred transport \<Rightarrow> 'cred transport" where
  "runCommand env (DoSend cid m fds) t = sendTo env cid m fds t"
| "runCommand env (DoSendThenClose cid m) t = sendThenClose env cid m t"
| "runCommand env (DoSetWants cid w) t = setWantsPresenceEvents cid w t"
| "runCommand env (DoBroadcast m k) t = broadcast env m k t"

fun commandSink ::
    "wire_env \<Rightarrow> 'req inbound \<Rightarrow> command list list \<times> 'cred transport
      \<Rightarrow> command list list \<times> 'cred transport" where
  "commandSink env i (s, t) =
     (case s of [] \<Rightarrow> ([], t) | cs # rest \<Rightarrow> (rest, fold (runCommand env) cs t))"

inductive transportStep ::
    "wire_env \<Rightarrow> (bytes \<Rightarrow> 'req option) \<Rightarrow> 'cred transport \<Rightarrow> 'cred transport \<Rightarrow> bool"
  for env parse where
  step_accept: "transportStep env parse t (acceptOne creds t)"
| step_command: "transportStep env parse t (runCommand env c t)"
| step_writable: "transportStep env parse t (flushWrites env cid t)"
| step_timeout: "transportStep env parse t (onFirstFrameTimeout cid t)"
| step_read: "sm_find (t_connections t) cid = Some c \<Longrightarrow> co_readSource c \<Longrightarrow>
    transportStep env parse t (snd (onReadReady parse (commandSink env) cid pumped (s, t)))"
| step_register: "h \<notin> set (t_disconnectHandlers t) \<Longrightarrow> transportStep env parse t (onClientDisconnect h t)"
| step_sink: "transportStep env parse t (setRequestSink t)"
| step_quiesce: "transportStep env parse t (quiesceLoop t)"

definition transportInit :: "'cred transport \<Rightarrow> bool" where
  "transportInit t \<longleftrightarrow> t_nextConnId t = 1 \<and> t_connections t = [] \<and> t_notified t = []
     \<and> t_disconnectHandlers t = [] \<and> t_wire t = []"

lemma runCommand_ok [inv_intros]: "transportOk t \<Longrightarrow> transportOk (runCommand env c t)"
  by (cases c) (simp_all add: inv_intros)

lemma fold_runCommand_ok: "transportOk t \<Longrightarrow> transportOk (fold (runCommand env) cs t)"
  by (induction cs arbitrary: t) (auto intro: runCommand_ok)

lemma commandSink_ok: "transportOk t \<Longrightarrow> transportOk (snd (commandSink env i (s, t)))"
  by (cases s) (simp_all add: fold_runCommand_ok)

interpretation transport_system: invariant_system transportInit "transportStep env parse" transportOk
  for env parse
proof
  show "transportOk s" if "transportInit s" for s :: "'a transport"
    using that by (simp add: transportInit_def transportOk_def notifiedOk_def)
  show "transportOk t" if "transportOk s" "transportStep env parse s t" for s t :: "'a transport"
    using that(2,1)
    by (induction rule: transportStep.induct)
      (auto intro: inv_intros onReadReady_ok commandSink_ok)
qed

section \<open>The byte stream of a connection\<close>

definition wireBytes :: "nat \<Rightarrow> 'cred transport \<Rightarrow> bytes" where
  "wireBytes cid t = chunkBytes (filter (\<lambda>c. ch_conn c = cid) (t_wire t))"

definition stream :: "nat \<Rightarrow> 'cred transport \<Rightarrow> bytes" where
  "stream cid t =
     wireBytes cid t @ (case sm_find (t_connections t) cid of None \<Rightarrow> [] | Some c \<Rightarrow> pendingBytes (co_outQueue c))"

text \<open>What a flush of one connection leaves of the others, and of its own bytes.\<close>

lemma sendLoop_conn:
  "sendLoop cid script f = (st, f', script', chs) \<Longrightarrow> list_all (\<lambda>c. ch_conn c = cid) chs"
  by (induction script arbitrary: f st f' script' chs)
    (auto simp: Let_def split: prod.splits if_splits wres.splits)

lemma flushQueue_conn:
  "flushQueue env cid script q queued = (st, q', queued', script', chs)
     \<Longrightarrow> list_all (\<lambda>c. ch_conn c = cid) chs"
proof (induction env cid script q queued arbitrary: st q' queued' script' chs rule: flushQueue.induct)
  case (2 env cid script f fs queued)
  obtain st1 f1 script1 chs1 where one: "trySendFrame env cid script f = (st1, f1, script1, chs1)"
    by (metis prod_cases4)
  have chs1: "list_all (\<lambda>c. ch_conn c = cid) chs1"
    using one sendLoop_conn [of cid script f] by (auto simp: trySendFrame_def split: if_splits)
  show ?case
  proof (cases "st1 = Sent")
    case False
    then show ?thesis using "2.prems" one chs1 by (cases st1) auto
  next
    case True
    then show ?thesis
      using "2.prems" one chs1 "2.IH" [OF one [symmetric]] by (auto split: prod.splits)
  qed
qed auto

lemma wireBytes_append:
  "list_all (\<lambda>c. ch_conn c = cid) chs \<Longrightarrow>
     chunkBytes (filter (\<lambda>c. ch_conn c = k) (w @ chs))
       = chunkBytes (filter (\<lambda>c. ch_conn c = k) w) @ (if k = cid then chunkBytes chs else [])"
  by (induction chs) auto

lemma wireBytes_simps [simp]:
  "wireBytes k (setConn cid c t) = wireBytes k t" "wireBytes k (closeConnection cid t) = wireBytes k t"
  by (simp_all add: wireBytes_def closeConnection_def split: option.split)

lemma closeConnection_find [simp]:
  "sm_find (t_connections (closeConnection cid t)) k
     = (if k = cid then None else sm_find (t_connections t) k)"
  by (auto simp: closeConnection_def split: option.split)

lemma closeConnection_wire [simp]: "t_wire (closeConnection cid t) = t_wire t"
  by (simp add: closeConnection_def split: option.split)

lemma flushWrites_cases:
  assumes "sm_find (t_connections t) cid = Some c"
  obtains q queued script chs where
    "list_all (\<lambda>x. ch_conn x = cid) chs"
    "framesOk (co_outQueue c) \<Longrightarrow> co_queuedBytes c = queueBytes (co_outQueue c)
       \<Longrightarrow> pendingBytes (co_outQueue c) = chunkBytes chs @ pendingBytes q"
    "t_wire (flushWrites env cid t) = t_wire t @ chs"
    "\<And>k. k \<noteq> cid \<Longrightarrow> sm_find (t_connections (flushWrites env cid t)) k = sm_find (t_connections t) k"
    "sm_find (t_connections (flushWrites env cid t)) cid = None
     \<or> (\<exists>ws. sm_find (t_connections (flushWrites env cid t)) cid
              = Some (c\<lparr>co_outQueue := q, co_queuedBytes := queued, co_writeSource := ws\<rparr>))"
proof -
  obtain st q queued script chs
    where fl: "flushQueue env cid (t_script t) (co_outQueue c) (co_queuedBytes c) = (st, q, queued, script, chs)"
    by (metis prod_cases5)
  show thesis
    by (rule that [OF flushQueue_conn [OF fl], of q queued])
      (use fl assms flushQueue_spec [OF fl] in
        \<open>auto simp: flushWrites_def Let_def split: SendState.split\<close>)
qed

lemma flush_stream:
  assumes "sm_find (t_connections t) cid = Some c" "framesOk (co_outQueue c)"
    and "co_queuedBytes c = queueBytes (co_outQueue c)"
  shows "prefix (wireBytes cid (flushWrites env cid t)) (stream cid t)"
    and "sm_find (t_connections (flushWrites env cid t)) cid \<noteq> None
           \<Longrightarrow> stream cid (flushWrites env cid t) = stream cid t"
    and "k \<noteq> cid \<Longrightarrow> wireBytes k (flushWrites env cid t) = wireBytes k t"
    and "k \<noteq> cid \<Longrightarrow> sm_find (t_connections (flushWrites env cid t)) k = sm_find (t_connections t) k"
proof -
  obtain q queued chs where fw:
    "list_all (\<lambda>x. ch_conn x = cid) chs" "pendingBytes (co_outQueue c) = chunkBytes chs @ pendingBytes q"
    "t_wire (flushWrites env cid t) = t_wire t @ chs"
    "\<And>k. k \<noteq> cid \<Longrightarrow> sm_find (t_connections (flushWrites env cid t)) k = sm_find (t_connections t) k"
    "sm_find (t_connections (flushWrites env cid t)) cid = None
     \<or> (\<exists>ws. sm_find (t_connections (flushWrites env cid t)) cid
              = Some (c\<lparr>co_outQueue := q, co_queuedBytes := queued, co_writeSource := ws\<rparr>))"
    using flushWrites_cases [OF assms(1), of env] assms(2,3) by metis
  have wire: "wireBytes k (flushWrites env cid t) = wireBytes k t @ (if k = cid then chunkBytes chs else [])" for k
    unfolding wireBytes_def fw(3) by (rule wireBytes_append [OF fw(1)])
  show "prefix (wireBytes cid (flushWrites env cid t)) (stream cid t)"
    using wire [of cid] fw(2) assms(1) by (simp add: stream_def)
  show "stream cid (flushWrites env cid t) = stream cid t"
    if "sm_find (t_connections (flushWrites env cid t)) cid \<noteq> None"
    using that wire [of cid] fw(2,5) assms(1) by (auto simp: stream_def)
  show "k \<noteq> cid \<Longrightarrow> wireBytes k (flushWrites env cid t) = wireBytes k t" using wire by simp
  show "k \<noteq> cid \<Longrightarrow> sm_find (t_connections (flushWrites env cid t)) k = sm_find (t_connections t) k"
    by (rule fw(4))
qed

lemma enqueueSend_other:
  "k \<noteq> cid \<Longrightarrow> sm_find (t_connections (enqueueSend env cid framed fds t)) k = sm_find (t_connections t) k
     \<and> wireBytes k (enqueueSend env cid framed fds t) = wireBytes k t"
proof (cases "sm_find (t_connections t) cid")
  case (Some c)
  assume k: "k \<noteq> cid"
  let ?f = "\<lparr>of_bytes = framed, of_fds = fds, of_sent = 0, of_ancillarySent = False\<rparr>"
  let ?c = "c\<lparr>co_outQueue := co_outQueue c @ [?f], co_queuedBytes := co_queuedBytes c + length framed\<rparr>"
  have at: "sm_find (t_connections (setConn cid ?c t)) cid = Some ?c" by simp
  obtain chs where "list_all (\<lambda>x. ch_conn x = cid) chs"
    "t_wire (flushWrites env cid (setConn cid ?c t)) = t_wire t @ chs"
    "sm_find (t_connections (flushWrites env cid (setConn cid ?c t))) k = sm_find (t_connections t) k"
    using flushWrites_cases [OF at, of env] k by (metis setConn_simps(1,5))
  then show ?thesis
    using Some k wireBytes_append [of cid chs k "t_wire t"]
    by (simp add: enqueueSend_def Let_def wireBytes_def)
qed (simp add: enqueueSend_def)

lemma fold_enqueue_other:
  "k \<notin> set ids \<Longrightarrow>
     sm_find (t_connections (fold (\<lambda>cid t. enqueueSend env cid b [] t) ids t)) k = sm_find (t_connections t) k
     \<and> wireBytes k (fold (\<lambda>cid t. enqueueSend env cid b [] t) ids t) = wireBytes k t"
  by (induction ids arbitrary: t) (auto simp: enqueueSend_other)

lemma enqueueSend_stream_at:
  assumes "sm_find (t_connections t) cid = Some c" and "framesOk (co_outQueue c)"
    and "co_queuedBytes c = queueBytes (co_outQueue c)"
  shows "prefix (wireBytes cid (enqueueSend env cid framed fds t)) (stream cid t @ framed)"
    and "sm_find (t_connections (enqueueSend env cid framed fds t)) cid \<noteq> None
           \<Longrightarrow> stream cid (enqueueSend env cid framed fds t) = stream cid t @ framed"
proof -
  let ?f = "\<lparr>of_bytes = framed, of_fds = fds, of_sent = 0, of_ancillarySent = False\<rparr>"
  let ?c = "c\<lparr>co_outQueue := co_outQueue c @ [?f], co_queuedBytes := co_queuedBytes c + length framed\<rparr>"
  have c: "framesOk (co_outQueue ?c)" "co_queuedBytes ?c = queueBytes (co_outQueue ?c)"
    using assms by simp_all
  have str: "stream cid (setConn cid ?c t) = stream cid t @ framed"
    using assms(1) by (simp add: stream_def framePending_def)
  have at: "sm_find (t_connections (setConn cid ?c t)) cid = Some ?c" by simp
  note fl = flush_stream [OF at c, where env = env, unfolded str]
  have "prefix (wireBytes cid t) (stream cid t @ framed)" by (simp add: stream_def)
  then show "prefix (wireBytes cid (enqueueSend env cid framed fds t)) (stream cid t @ framed)"
    using fl(1) assms(1) by (simp add: enqueueSend_def Let_def)
  show "sm_find (t_connections (enqueueSend env cid framed fds t)) cid \<noteq> None
           \<Longrightarrow> stream cid (enqueueSend env cid framed fds t) = stream cid t @ framed"
    using fl(2) assms(1) by (simp add: enqueueSend_def Let_def split: if_splits)
qed

lemma transportOk_queue:
  assumes "transportOk t" and "sm_find (t_connections t) cid = Some c"
  shows "framesOk (co_outQueue c)" and "co_queuedBytes c = queueBytes (co_outQueue c)"
  using transportOk_conn [OF assms] by (simp_all add: connOk_def connBounds_def)

lemma enqueueSend_stream:
  assumes "transportOk t" "sm_find (t_connections t) cid = Some c"
  shows "prefix (wireBytes cid (enqueueSend env cid framed fds t)) (stream cid t @ framed)"
    and "sm_find (t_connections (enqueueSend env cid framed fds t)) cid \<noteq> None
           \<Longrightarrow> stream cid (enqueueSend env cid framed fds t) = stream cid t @ framed"
  using enqueueSend_stream_at [OF assms(2) transportOk_queue [OF assms]] by auto

section \<open>Properties\<close>

text \<open>A transport that accepted one client, to evaluate the properties at.\<close>

definition demoEnv :: wire_env where
  "demoEnv = \<lparr>maxFrameFds = 4, frameOf = (\<lambda>m n. case m of CBytes b \<Rightarrow> b | _ \<Rightarrow> [0, 1, 2, 3])\<rparr>"

definition demoStart :: "nat transport" where
  "demoStart = \<lparr>t_nextConnId = 1, t_connections = [], t_sink = True, t_loopQuiesced = False,
     t_disconnectHandlers = [], t_notified = [], t_script = [Wrote 2, EAgain], t_wire = []\<rparr>"

definition demoConn :: "nat connection" where
  "demoConn = \<lparr>co_caller = ''conn:1'', co_creds = 501, co_readSource = True, co_writeSource = False,
     co_firstFrameTimer = True, co_sawFirstFrame = False, co_wantsPresenceEvents = True,
     co_closeWhenDrained = False, co_outQueue = [], co_queuedBytes = 0\<rparr>"

definition demoTransport :: "nat transport" where
  "demoTransport = demoStart\<lparr>t_nextConnId := 2, t_connections := [(1, demoConn)]\<rparr>"

lemma caller_one: "showNat (Suc 0) = ''1''"
  by code_simp

lemma demo_accept: "acceptOne (Some 501) demoStart = demoTransport"
  by (simp add: acceptOne_def demoStart_def demoTransport_def demoConn_def kMaxConnections_def setConn_def
      callerOf_def caller_one)

lemma demo_reach: "reach transportInit (transportStep demoEnv parse) demoTransport"
proof -
  have "reach transportInit (transportStep demoEnv parse) demoStart"
    by (rule reach_init) (simp add: transportInit_def demoStart_def)
  from reach_step [OF this step_accept [where creds = "Some 501"]] show ?thesis by (simp add: demo_accept)
qed

lemma demo_ok: "transportOk demoTransport"
  using transport_system.reach_inv [OF demo_reach] .

text \<open>
  C16: in every state the transport reaches, whatever its peers do and however slowly they
  read, at most 32 connections are open, no connection queues more than 4 MiB or 4096
  frames, a queued frame always has a write source waiting for it, and a connection on its
  way out no longer reads and still has its last frame to write.
\<close>
theorem transport_bounded:
  assumes "reach transportInit (transportStep env parse) t" and "sm_find (t_connections t) cid = Some c"
  shows "length (t_connections t) \<le> 32 \<and> queueBytes (co_outQueue c) \<le> 4194304
       \<and> length (co_outQueue c) \<le> 4096 \<and> (co_outQueue c \<noteq> [] \<longleftrightarrow> co_writeSource c)
       \<and> (co_closeWhenDrained c \<longrightarrow> \<not> co_readSource c \<and> co_outQueue c \<noteq> [])"
proof -
  have ok: "transportOk t" using assms(1) by (rule transport_system.reach_inv)
  then have "length (t_connections t) \<le> 32" by (simp add: transportOk_def kMaxConnections_def)
  with transportOk_conn [OF ok assms(2)] show ?thesis
    by (auto simp: connOk_def connBounds_def kMaxQueuedBytesPerConnection_def kMaxQueuedFrames_def)
qed

theorem transport_bounded_witness:
  "length (t_connections demoTransport) \<le> 32 \<and> (co_outQueue demoConn \<noteq> [] \<longleftrightarrow> co_writeSource demoConn)"
  using transport_bounded [OF demo_reach [of "\<lambda>_. None :: bytes option"], of 1 demoConn] by (simp add: demoTransport_def)

text \<open>
  No disconnect handler is ever told twice about the same caller, and none is told
  about a caller whose connection is still in the table.
\<close>
lemma disconnect_notified_once:
  assumes "reach transportInit (transportStep env parse) t"
  shows "distinct (t_notified t)
       \<and> list_all (\<lambda>(h, caller). find (\<lambda>(cid, c). co_caller c = caller) (t_connections t) = None) (t_notified t)"
proof -
  have ok: "transportOk t" using assms by (rule transport_system.reach_inv)
  have "co_caller c \<noteq> caller" if "(h, caller) \<in> set (t_notified t)" "(cid, c) \<in> set (t_connections t)"
    for h caller cid c
  proof -
    from that(1) ok obtain k where k: "caller = callerOf k" "sm_find (t_connections t) k = None"
      by (auto simp: transportOk_def notifiedOk_def)
    from that(2) ok have at: "sm_find (t_connections t) cid = Some c"
      by (simp add: transportOk_def sm_find_iff)
    with transportOk_conn [OF ok this] k show ?thesis by (auto simp: connOk_def connBounds_def)
  qed
  with ok show ?thesis
    by (auto simp: transportOk_def notifiedOk_def list_all_iff find_None_iff)
qed

text \<open>
  Closing a connection tells every registered handler about its caller, in registration
  order, and closing it again tells nobody.
\<close>
lemma close_fan_out:
  assumes "sm_find (t_connections t) cid = Some c"
  shows "t_notified (closeConnection cid t)
           = t_notified t @ map (\<lambda>h. (h, co_caller c)) (t_disconnectHandlers t)
       \<and> closeConnection cid (closeConnection cid t) = closeConnection cid t"
  using assms by (simp add: closeConnection_def)

text \<open>
  A message sent to a connection is appended to its byte stream: while the connection
  lives, what the peer has received followed by what is queued is exactly what it was
  before followed by the new frame, partial writes included; if the send closes the
  connection, the peer has received a prefix of that; and no other connection and no byte
  of another peer changes.
\<close>
lemma send_appends_to_stream:
  assumes "transportOk t" and "sm_find (t_connections t) cid = Some c"
    and "t' = sendTo env cid message fds t"
  shows "prefix (wireBytes cid t') (stream cid t @ frameOf env message (length fds))
       \<and> (sm_find (t_connections t') cid \<noteq> None
            \<longrightarrow> stream cid t' = stream cid t @ frameOf env message (length fds))
       \<and> (\<forall>k. k \<noteq> cid \<longrightarrow> sm_find (t_connections t') k = sm_find (t_connections t) k
                        \<and> wireBytes k t' = wireBytes k t)"
  using assms enqueueSend_stream [OF assms(1,2), of env "frameOf env message (length fds)" fds]
  by (simp add: sendTo_def enqueueSend_other)



text \<open>
  A broadcast leaves a connection that is on its way out untouched, and likewise, for a
  presence event, one that declined presence events: nothing is queued behind a final
  frame.
\<close>
lemma broadcast_skips:
  assumes "transportOk t" and "sm_find (t_connections t) cid = Some c"
    and "co_closeWhenDrained c \<or> (kind = Presence \<and> \<not> co_wantsPresenceEvents c)"
  shows "sm_find (t_connections (broadcast env event kind t)) cid = Some c
       \<and> wireBytes cid (broadcast env event kind t) = wireBytes cid t"
proof -
  have "c' = c" if "(cid, c') \<in> set (t_connections t)" for c'
    using that assms(1,2) by (simp add: transportOk_def sm_find_iff [symmetric])
  then have "cid \<notin> set (broadcastIds kind t)" using assms(3) by (auto simp: broadcastIds_def)
  from fold_enqueue_other [OF this, of env "frameOf env event 0" t] show ?thesis
    using assms(2) by (simp add: broadcast_def)
qed

lemma broadcastIds_member:
  assumes "sm_find (t_connections t) cid = Some c" "\<not> co_closeWhenDrained c"
    and "kind = AgentWide \<or> co_wantsPresenceEvents c"
  shows "cid \<in> set (broadcastIds kind t)"
  using sm_find_in [OF assms(1)] assms(2,3) by (force simp: broadcastIds_def)

lemma broadcastIds_distinct: "transportOk t \<Longrightarrow> distinct (broadcastIds kind t)"
  using sm_ok_distinct [of "t_connections t"]
  by (auto simp: transportOk_def broadcastIds_def distinct_map intro: inj_on_subset)

lemma fold_enqueue_stream:
  "transportOk t \<Longrightarrow> distinct ids \<Longrightarrow> cid \<in> set ids \<Longrightarrow> sm_find (t_connections t) cid = Some c \<Longrightarrow>
     t' = fold (\<lambda>cid t. enqueueSend env cid b [] t) ids t \<Longrightarrow>
     prefix (wireBytes cid t') (stream cid t @ b)
     \<and> (sm_find (t_connections t') cid \<noteq> None \<longrightarrow> stream cid t' = stream cid t @ b)"
proof (induction ids arbitrary: t)
  case (Cons i ids)
  let ?t = "enqueueSend env i b [] t"
  have t': "t' = fold (\<lambda>cid t. enqueueSend env cid b [] t) ids ?t" using Cons.prems(5) by simp
  show ?case
  proof (cases "cid = i")
    case True
    then have "cid \<notin> set ids" using Cons.prems(2) by simp
    from fold_enqueue_other [OF this, of env b ?t]
    have "sm_find (t_connections t') cid = sm_find (t_connections ?t) cid"
      "wireBytes cid t' = wireBytes cid ?t" using t' by simp_all
    then have "stream cid t' = stream cid ?t" by (simp add: stream_def)
    with enqueueSend_stream [OF Cons.prems(1,4), of env b "[]"] True
      \<open>sm_find (t_connections t') cid = _\<close> \<open>wireBytes cid t' = _\<close> show ?thesis by simp
  next
    case False
    have same: "sm_find (t_connections ?t) cid = Some c" "wireBytes cid ?t = wireBytes cid t"
      using enqueueSend_other [OF False, of env b "[]" t] Cons.prems(4) by simp_all
    then have "stream cid ?t = stream cid t" using Cons.prems(4) by (simp add: stream_def)
    with Cons.IH [OF enqueueSend_ok [OF Cons.prems(1)] _ _ same(1) t'] Cons.prems(2,3) False
    show ?thesis by simp
  qed
qed simp

text \<open>
  A broadcast reaches every other connection exactly once: the event frame is appended
  to the byte stream of each connection that is not on its way out and takes this kind of
  event, even when sending to one of them closes it.
\<close>
lemma broadcast_reaches:
  assumes "transportOk t" and "sm_find (t_connections t) cid = Some c" and "\<not> co_closeWhenDrained c"
    and "kind = AgentWide \<or> co_wantsPresenceEvents c" and "t' = broadcast env event kind t"
  shows "prefix (wireBytes cid t') (stream cid t @ frameOf env event 0)
       \<and> (sm_find (t_connections t') cid \<noteq> None \<longrightarrow> stream cid t' = stream cid t @ frameOf env event 0)"
proof -
  have "cid \<in> set (broadcastIds kind t)" using assms(2,3,4) by (rule broadcastIds_member)
  from fold_enqueue_stream [OF assms(1) broadcastIds_distinct [OF assms(1)] this assms(2)
      assms(5) [unfolded broadcast_def]]
  show ?thesis .
qed


definition demoTalking :: "nat transport" where
  "demoTalking = demoTransport\<lparr>t_connections :=
     [(1, demoConn\<lparr>co_sawFirstFrame := True, co_firstFrameTimer := False\<rparr>)]\<rparr>"


end
