(* ===== verification/Presence.thy ===== *)
theory Presence
  imports Connections
begin

text \<open>
  The presence registry of \<^verbatim>\<open>agent/src/backend/SocketTransport.cpp\<close>: the opaque wire
  handles, the published readers and cards, the routing facts behind a card handle and the
  roster snapshot. An operation answers the new registry and the events it broadcasts;
  \<open>announce\<close> hands them to the connections. A core \<^verbatim>\<open>ObjectId\<close> is its number, an invalid one
  \<open>None\<close>; the reader-interface and pre-read-auth enumerators are their numbers, and the
  words and the CBOR forms of the events are the agent library's, parameters here.
\<close>

section \<open>State\<close>

text \<open>What the agent library publishes, and the wire records built from it.\<close>

record AgentReaderState =
  ar_id :: nat
  ar_name :: string
  ar_hasCard :: bool
  ar_card :: "nat option"
  ar_model :: string
  ar_iface :: nat

record AgentCardState =
  ac_id :: nat
  ac_reader :: nat
  ac_capabilities :: u32
  ac_preReadAuth :: nat
  ac_cardType :: string
  ac_atrHex :: string

record PropertyDelta =
  pd_hasCard :: bool
  pd_card :: "nat option"

record WireReader =
  wr_handle :: string
  wr_name :: string
  wr_hasCard :: bool
  wr_card :: "string option"
  wr_model :: string
  wr_iface :: nat

record WireCard =
  wc_handle :: string
  wc_reader :: string
  wc_caps :: u32
  wc_preAuth :: nat
  wc_cardType :: "string option"
  wc_atr :: "string option"

record CardRouting =
  ro_cardId :: nat
  ro_readerId :: nat
  ro_readerName :: string
  ro_cardKey :: string
  ro_caps :: u32
  ro_preAuth :: nat

record ReaderCardInfo =
  ri_readerId :: nat
  ri_readerName :: string
  ri_cardKey :: string

record PresenceRoster =
  pr_readerNames :: "string list"
  pr_cardKeys :: "string list"

record presence =
  p_nextHandle :: nat
  p_readers :: "(string, WireReader) smap"
  p_cards :: "(string, WireCard) smap"
  p_cardRouting :: "(string, CardRouting) smap"
  p_roster :: PresenceRoster
  p_idToHandle :: "(nat, string) smap"
  p_handleToId :: "(string, nat) smap"

datatype event =
    ReaderAdded WireReader
  | ReaderRemoved string
  | CardAdded WireCard
  | CardRemoved string
  | PropertyChanged string string "(string, cbor) smap"
  | ConfigChanged string
  | AgentQuiesced nat

section \<open>Operations\<close>

definition objHandle :: "nat \<Rightarrow> string" where
  "objHandle n = ''obj/'' @ showNat n"

definition handleFor :: "nat \<Rightarrow> presence \<Rightarrow> string \<times> presence" where
  "handleFor oid p =
     (case sm_find (p_idToHandle p) oid of
        Some h \<Rightarrow> (h, p)
      | None \<Rightarrow>
          let h = objHandle (p_nextHandle p)
          in (h, p\<lparr>p_nextHandle := p_nextHandle p + 1,
                   p_idToHandle := sm_emplace oid h (p_idToHandle p),
                   p_handleToId := sm_emplace h oid (p_handleToId p)\<rparr>))"

definition handleForOpt :: "nat option \<Rightarrow> presence \<Rightarrow> string option \<times> presence" where
  "handleForOpt oid p =
     (case oid of None \<Rightarrow> (None, p)
      | Some i \<Rightarrow> (case handleFor i p of (h, p') \<Rightarrow> (Some h, p')))"

definition rosterKey :: "presence \<Rightarrow> string \<Rightarrow> string" where
  "rosterKey p readerHandle =
     (case find (\<lambda>(h, c). wc_reader c = readerHandle) (p_cards p) of
        None \<Rightarrow> []
      | Some (cardHandle, c) \<Rightarrow>
          (case sm_find (p_cardRouting p) cardHandle of None \<Rightarrow> [] | Some r \<Rightarrow> ro_cardKey r))"

definition rosterOf :: "presence \<Rightarrow> PresenceRoster" where
  "rosterOf p =
     \<lparr>pr_readerNames = map (wr_name \<circ> snd) (p_readers p),
      pr_cardKeys = map (rosterKey p \<circ> fst) (p_readers p)\<rparr>"

definition rebuildRoster :: "presence \<Rightarrow> presence" where
  "rebuildRoster p = p\<lparr>p_roster := rosterOf p\<rparr>"

definition publishReader :: "AgentReaderState \<Rightarrow> presence \<Rightarrow> presence \<times> event list" where
  "publishReader reader p =
     (case handleFor (ar_id reader) p of (h, p1) \<Rightarrow>
      case handleForOpt (ar_card reader) p1 of (ch, p2) \<Rightarrow>
        let r = \<lparr>wr_handle = h, wr_name = ar_name reader, wr_hasCard = ar_hasCard reader, wr_card = ch,
                 wr_model = ar_model reader, wr_iface = ar_iface reader\<rparr>
        in (rebuildRoster (p2\<lparr>p_readers := sm_put h r (p_readers p2)\<rparr>), [ReaderAdded r]))"

definition kReaderIface :: string where
  "kReaderIface = ''org.librescrs.Agent.Reader1''"

definition kCardIface :: string where
  "kCardIface = ''org.librescrs.Agent.Card1''"

definition relabelReader :: "(nat \<Rightarrow> string) \<Rightarrow> AgentReaderState \<Rightarrow> presence \<Rightarrow> presence \<times> event list" where
  "relabelReader ifaceToken reader p =
     (case sm_find (p_idToHandle p) (ar_id reader) of None \<Rightarrow> (p, [])
      | Some h \<Rightarrow>
     (case sm_find (p_readers p) h of None \<Rightarrow> (p, [])
      | Some r \<Rightarrow>
          if wr_model r = ar_model reader \<and> wr_iface r = ar_iface reader then (p, [])
          else (p\<lparr>p_readers := sm_put h (r\<lparr>wr_model := ar_model reader, wr_iface := ar_iface reader\<rparr>)
                                 (p_readers p)\<rparr>,
                [PropertyChanged h kReaderIface
                   (sm_emplace ''Interface'' (CText (ifaceToken (ar_iface reader)))
                     (sm_emplace ''Model'' (CText (ar_model reader)) []))])))"

definition publishCard :: "AgentCardState \<Rightarrow> presence \<Rightarrow> presence \<times> event list" where
  "publishCard cs p =
     (case handleFor (ac_id cs) p of (h, p1) \<Rightarrow>
      case handleFor (ac_reader cs) p1 of (rh, p2) \<Rightarrow>
        let c = \<lparr>wc_handle = h, wc_reader = rh, wc_caps = ac_capabilities cs,
                 wc_preAuth = ac_preReadAuth cs,
                 wc_cardType = (if ac_cardType cs \<noteq> [] then Some (ac_cardType cs) else None),
                 wc_atr = (if ac_atrHex cs \<noteq> [] then Some (ac_atrHex cs) else None)\<rparr>;
            routing = \<lparr>ro_cardId = ac_id cs, ro_readerId = ac_reader cs,
                       ro_readerName = (case sm_find (p_readers p2) rh of None \<Rightarrow> [] | Some r \<Rightarrow> wr_name r),
                       ro_cardKey = showNat (ac_id cs), ro_caps = ac_capabilities cs,
                       ro_preAuth = ac_preReadAuth cs\<rparr>
        in (rebuildRoster (p2\<lparr>p_cards := sm_put h c (p_cards p2),
                              p_cardRouting := sm_put h routing (p_cardRouting p2)\<rparr>),
            [CardAdded c]))"

definition withdraw :: "nat \<Rightarrow> presence \<Rightarrow> presence \<times> event list" where
  "withdraw object p =
     (case sm_find (p_idToHandle p) object of None \<Rightarrow> (p, [])
      | Some h \<Rightarrow>
          (case (if sm_find (p_readers p) h \<noteq> None
                 then (p\<lparr>p_readers := sm_erase h (p_readers p)\<rparr>, [ReaderRemoved h])
                 else if sm_find (p_cards p) h \<noteq> None
                 then (p\<lparr>p_cards := sm_erase h (p_cards p),
                         p_cardRouting := sm_erase h (p_cardRouting p)\<rparr>, [CardRemoved h])
                 else (p, [])) of
             (p1, evs) \<Rightarrow>
               (rebuildRoster (p1\<lparr>p_idToHandle := sm_erase object (p_idToHandle p1),
                                  p_handleToId := sm_erase h (p_handleToId p1)\<rparr>), evs)))"

definition updateProperties :: "nat \<Rightarrow> PropertyDelta \<Rightarrow> presence \<Rightarrow> presence \<times> event list" where
  "updateProperties reader delta p =
     (case sm_find (p_idToHandle p) reader of None \<Rightarrow> (p, [])
      | Some h \<Rightarrow>
     (case sm_find (p_readers p) h of None \<Rightarrow> (p, [])
      | Some r \<Rightarrow>
     (case (if pd_hasCard delta then handleForOpt (pd_card delta) p else (None, p)) of
        (ch, p1) \<Rightarrow>
          (p1\<lparr>p_readers := sm_put h (r\<lparr>wr_hasCard := pd_hasCard delta, wr_card := ch\<rparr>) (p_readers p1)\<rparr>,
           [PropertyChanged h kReaderIface
              (case ch of
                 None \<Rightarrow> sm_emplace ''HasCard'' (CBool (pd_hasCard delta)) []
               | Some c \<Rightarrow> sm_emplace ''Card'' (CText c)
                             (sm_emplace ''HasCard'' (CBool (pd_hasCard delta)) []))]))))"

definition updateCardType :: "string \<Rightarrow> string \<Rightarrow> presence \<Rightarrow> presence \<times> event list" where
  "updateCardType cardHandle cardType p =
     (case sm_find (p_cards p) cardHandle of None \<Rightarrow> (p, [])
      | Some c \<Rightarrow>
          if wc_cardType c = Some cardType then (p, [])
          else (p\<lparr>p_cards := sm_put cardHandle (c\<lparr>wc_cardType := Some cardType\<rparr>) (p_cards p)\<rparr>,
                [PropertyChanged cardHandle kCardIface (sm_emplace ''CardType'' (CText cardType) [])]))"

section \<open>Queries\<close>

record StateReply =
  sr_readers :: "WireReader list"
  sr_cards :: "WireCard list"

definition currentState :: "presence \<Rightarrow> StateReply" where
  "currentState p = \<lparr>sr_readers = map snd (p_readers p), sr_cards = map snd (p_cards p)\<rparr>"

definition cardRouting :: "string \<Rightarrow> presence \<Rightarrow> CardRouting option" where
  "cardRouting cardHandle p = sm_find (p_cardRouting p) cardHandle"

definition readerCard :: "string \<Rightarrow> presence \<Rightarrow> ReaderCardInfo option" where
  "readerCard readerHandle p =
     (case sm_find (p_readers p) readerHandle of None \<Rightarrow> None
      | Some r \<Rightarrow>
     (case sm_find (p_handleToId p) readerHandle of None \<Rightarrow> None
      | Some oid \<Rightarrow>
          Some \<lparr>ri_readerId = oid, ri_readerName = wr_name r,
                ri_cardKey = (case wr_card r of None \<Rightarrow> []
                   | Some ch \<Rightarrow> (case sm_find (p_handleToId p) ch of None \<Rightarrow> [] | Some cid \<Rightarrow> showNat cid))\<rparr>))"

definition presenceRoster :: "presence \<Rightarrow> PresenceRoster" where
  "presenceRoster p = p_roster p"

text \<open>The events of an operation, broadcast to the presence subscribers.\<close>

definition announce ::
    "wire_env \<Rightarrow> (event \<Rightarrow> cbor) \<Rightarrow> event list \<Rightarrow> EventKind \<Rightarrow> 'cred transport \<Rightarrow> 'cred transport" where
  "announce env toCbor evs kind t = fold (\<lambda>e. broadcast env (toCbor e) kind) evs t"

definition broadcastConfigChanged ::
    "wire_env \<Rightarrow> (event \<Rightarrow> cbor) \<Rightarrow> string \<Rightarrow> 'cred transport \<Rightarrow> 'cred transport" where
  "broadcastConfigChanged env toCbor key t = announce env toCbor [ConfigChanged key] AgentWide t"

definition broadcastQuiesced ::
    "wire_env \<Rightarrow> (event \<Rightarrow> cbor) \<Rightarrow> nat \<Rightarrow> 'cred transport \<Rightarrow> 'cred transport" where
  "broadcastQuiesced env toCbor reason t = announce env toCbor [AgentQuiesced reason] AgentWide t"

section \<open>Handles\<close>

definition handlesOk :: "presence \<Rightarrow> bool" where
  "handlesOk p \<longleftrightarrow>
     sm_ok (p_idToHandle p) \<and> sm_ok (p_handleToId p)
     \<and> (\<forall>i h. sm_find (p_idToHandle p) i = Some h \<longleftrightarrow> sm_find (p_handleToId p) h = Some i)
     \<and> (\<forall>h i. sm_find (p_handleToId p) h = Some i \<longrightarrow> (\<exists>n < p_nextHandle p. h = objHandle n))"

lemma objHandle_inj [simp]: "objHandle a = objHandle b \<longleftrightarrow> a = b"
  by (simp add: objHandle_def)

lemma next_handle_fresh: "handlesOk p \<Longrightarrow> sm_find (p_handleToId p) (objHandle (p_nextHandle p)) = None"
  unfolding handlesOk_def by (metis not_None_eq objHandle_inj less_irrefl)

text \<open>The registry after a lookup that may have made a handle: only the handle maps grew.\<close>

definition grew :: "presence \<Rightarrow> presence \<Rightarrow> bool" where
  "grew p p' \<longleftrightarrow>
     handlesOk p' \<and> p_readers p' = p_readers p \<and> p_cards p' = p_cards p
     \<and> p_cardRouting p' = p_cardRouting p \<and> p_roster p' = p_roster p
     \<and> p_nextHandle p \<le> p_nextHandle p'
     \<and> (\<forall>h i. sm_find (p_handleToId p) h = Some i \<longrightarrow> sm_find (p_handleToId p') h = Some i)"

lemma grew_refl [simp]: "handlesOk p \<Longrightarrow> grew p p"
  by (simp add: grew_def)

lemma grew_trans: "grew p p' \<Longrightarrow> grew p' p'' \<Longrightarrow> grew p p''"
  by (auto simp: grew_def)

lemma handleFor_grew:
  assumes "handlesOk p" "handleFor oid p = (h, p')"
  shows "grew p p' \<and> sm_find (p_handleToId p') h = Some oid
       \<and> (sm_find (p_idToHandle p) oid = None \<longrightarrow> h = objHandle (p_nextHandle p))"
proof (cases "sm_find (p_idToHandle p) oid")
  case None
  let ?h = "objHandle (p_nextHandle p)"
  have inv: "\<And>i h. sm_find (p_idToHandle p) i = Some h \<longleftrightarrow> sm_find (p_handleToId p) h = Some i"
    using assms(1) by (simp add: handlesOk_def)
  note fresh = next_handle_fresh [OF assms(1)]
  from assms(2) None have h: "h = ?h" and p': "p' = p\<lparr>p_nextHandle := p_nextHandle p + 1,
      p_idToHandle := sm_put oid ?h (p_idToHandle p), p_handleToId := sm_put ?h oid (p_handleToId p)\<rparr>"
    using fresh by (auto simp: handleFor_def Let_def sm_emplace_def)
  have "handlesOk p'"
    unfolding handlesOk_def
  proof (intro conjI allI impI)
    show "sm_ok (p_idToHandle p')" "sm_ok (p_handleToId p')"
      using assms(1) by (simp_all add: p' handlesOk_def)
    show "sm_find (p_idToHandle p') i = Some g \<longleftrightarrow> sm_find (p_handleToId p') g = Some i" for i g
      using sm2.inverse_insert [OF inv None fresh] by (simp add: p')
    show "\<exists>n < p_nextHandle p'. g = objHandle n" if "sm_find (p_handleToId p') g = Some i" for g i
      using that assms(1) by (auto simp: p' handlesOk_def split: if_splits)
  qed
  with fresh show ?thesis by (auto simp: grew_def p' h)
next
  case (Some g)
  then have "sm_find (p_handleToId p) g = Some oid" using assms(1) by (simp add: handlesOk_def)
  with Some assms show ?thesis by (simp add: handleFor_def)
qed

lemma handleForOpt_grew: "handlesOk p \<Longrightarrow> handleForOpt oid p = (ch, p') \<Longrightarrow> grew p p'"
  using handleFor_grew by (auto simp: handleForOpt_def split: option.splits prod.splits)

section \<open>The registry invariant\<close>

definition readersOk :: "presence \<Rightarrow> bool" where
  "readersOk p \<longleftrightarrow> sm_ok (p_readers p)
     \<and> (\<forall>h r. sm_find (p_readers p) h = Some r \<longrightarrow>
          wr_handle r = h \<and> sm_find (p_handleToId p) h \<noteq> None \<and> sm_find (p_cards p) h = None)"

definition routed :: "presence \<Rightarrow> string \<Rightarrow> WireCard \<Rightarrow> CardRouting \<Rightarrow> bool" where
  "routed p h c r \<longleftrightarrow>
     wc_handle c = h \<and> sm_find (p_handleToId p) h = Some (ro_cardId r)
     \<and> ro_cardKey r = showNat (ro_cardId r) \<and> ro_caps r = wc_caps c \<and> ro_preAuth r = wc_preAuth c"

definition cardsOk :: "presence \<Rightarrow> bool" where
  "cardsOk p \<longleftrightarrow> sm_ok (p_cards p) \<and> sm_ok (p_cardRouting p)
     \<and> (\<forall>h. sm_find (p_cards p) h = None \<longleftrightarrow> sm_find (p_cardRouting p) h = None)
     \<and> (\<forall>h c r. sm_find (p_cards p) h = Some c \<longrightarrow> sm_find (p_cardRouting p) h = Some r \<longrightarrow> routed p h c r)"

definition presenceOk :: "presence \<Rightarrow> bool" where
  "presenceOk p \<longleftrightarrow> handlesOk p \<and> readersOk p \<and> cardsOk p \<and> p_roster p = rosterOf p"

lemma presenceOk_reader: "presenceOk p \<Longrightarrow> sm_find (p_readers p) h = Some r \<Longrightarrow> wr_handle r = h"
  by (simp add: presenceOk_def readersOk_def)

lemma card_routed:
  "presenceOk p \<Longrightarrow> sm_find (p_cards p) h = Some c
     \<Longrightarrow> \<exists>r. sm_find (p_cardRouting p) h = Some r \<and> routed p h c r"
  unfolding presenceOk_def cardsOk_def by (metis option.distinct(1) not_None_eq)

lemma rosterKey_cong:
  assumes "p_cards p' = p_cards p" "p_cardRouting p' = p_cardRouting p"
  shows "rosterKey p' = rosterKey p"
  by (rule ext) (simp only: rosterKey_def assms)

lemma rosterOf_cong:
  assumes "p_readers p' = p_readers p" "p_cards p' = p_cards p" "p_cardRouting p' = p_cardRouting p"
  shows "rosterOf p' = rosterOf p"
  by (simp only: rosterOf_def rosterKey_def comp_def assms)

lemma grew_presenceOk:
  assumes "grew p p'" "presenceOk p" shows "presenceOk p'"
proof -
  have "readersOk p'" "cardsOk p'"
    using assms by (fastforce simp: presenceOk_def grew_def readersOk_def cardsOk_def routed_def)+
  with assms show ?thesis
    by (simp add: presenceOk_def grew_def rosterOf_cong [of p' p])
qed

lemma rebuild_presenceOk:
  "handlesOk p \<Longrightarrow> readersOk p \<Longrightarrow> cardsOk p \<Longrightarrow> presenceOk (rebuildRoster p)"
  using rosterOf_cong [of "rebuildRoster p" p]
  by (simp add: presenceOk_def rebuildRoster_def handlesOk_def readersOk_def cardsOk_def routed_def)

lemma put_reader_ok:
  assumes "presenceOk p" "sm_find (p_handleToId p) h \<noteq> None" "sm_find (p_cards p) h = None" "wr_handle r = h"
  shows "presenceOk (rebuildRoster (p\<lparr>p_readers := sm_put h r (p_readers p)\<rparr>))"
proof (rule rebuild_presenceOk)
  show "handlesOk (p\<lparr>p_readers := sm_put h r (p_readers p)\<rparr>)"
    "cardsOk (p\<lparr>p_readers := sm_put h r (p_readers p)\<rparr>)"
    using assms(1) by (simp_all add: presenceOk_def handlesOk_def cardsOk_def routed_def)
  show "readersOk (p\<lparr>p_readers := sm_put h r (p_readers p)\<rparr>)"
    using assms by (simp add: presenceOk_def readersOk_def)
qed

lemma put_card_ok:
  assumes "presenceOk p" "sm_find (p_readers p) h = None" "routed p h c r"
  shows "presenceOk (rebuildRoster (p\<lparr>p_cards := sm_put h c (p_cards p),
           p_cardRouting := sm_put h r (p_cardRouting p)\<rparr>))" (is "presenceOk (rebuildRoster ?p)")
proof (rule rebuild_presenceOk)
  show "handlesOk ?p" using assms(1) by (simp add: presenceOk_def handlesOk_def)
  show "readersOk ?p" using assms(1,2) by (auto simp: presenceOk_def readersOk_def)
  show "cardsOk ?p" using assms(1,3) by (simp add: presenceOk_def cardsOk_def routed_def)
qed

lemma handle_unused:
  assumes "presenceOk p" "handleFor oid p = (h, p')"
    and "\<And>g. sm_find (p_idToHandle p) oid = Some g \<Longrightarrow> Q g"
    and "\<And>g. sm_find (p_handleToId p) g = None \<Longrightarrow> Q g"
  shows "Q h"
proof (cases "sm_find (p_idToHandle p) oid")
  case None
  have ok: "handlesOk p" using assms(1) by (simp add: presenceOk_def)
  with None have "h = objHandle (p_nextHandle p)" using handleFor_grew [OF ok assms(2)] by simp
  with next_handle_fresh [OF ok] assms(4) show ?thesis by simp
next
  case (Some g)
  with assms(2,3) show ?thesis by (simp add: handleFor_def)
qed

lemma unknown_handle_unused:
  assumes "presenceOk p" "sm_find (p_handleToId p) g = None"
  shows "sm_find (p_readers p) g = None" "sm_find (p_cards p) g = None"
proof -
  show "sm_find (p_readers p) g = None"
    using assms unfolding presenceOk_def readersOk_def by (metis not_None_eq)
  show "sm_find (p_cards p) g = None"
  proof (cases "sm_find (p_cards p) g")
    case (Some c)
    with card_routed [OF assms(1) this] assms(2) show ?thesis by (auto simp: routed_def)
  qed
qed

lemma publishReader_ok [inv_intros]:
  assumes "presenceOk p" "\<And>h. sm_find (p_idToHandle p) (ar_id r) = Some h \<Longrightarrow> sm_find (p_cards p) h = None"
  shows "presenceOk (fst (publishReader r p))"
proof -
  obtain h p1 where h: "handleFor (ar_id r) p = (h, p1)" by force
  obtain ch p2 where ch: "handleForOpt (ar_card r) p1 = (ch, p2)" by force
  have ok: "handlesOk p" using assms(1) by (simp add: presenceOk_def)
  have g1: "grew p p1" and at: "sm_find (p_handleToId p1) h = Some (ar_id r)"
    using handleFor_grew [OF ok h] by simp_all
  then have g2: "grew p1 p2" using handleForOpt_grew [OF _ ch] by (simp add: grew_def)
  have "sm_find (p_cards p) h = None"
    using handle_unused [OF assms(1) h, of "\<lambda>g. sm_find (p_cards p) g = None"] assms(2)
      unknown_handle_unused [OF assms(1)] by blast
  then have "sm_find (p_cards p2) h = None" using g1 g2 by (simp add: grew_def)
  moreover have "sm_find (p_handleToId p2) h \<noteq> None" using g2 at by (simp add: grew_def)
  moreover have "presenceOk p2" using grew_presenceOk [OF grew_trans [OF g1 g2] assms(1)] .
  ultimately show ?thesis using put_reader_ok by (simp add: publishReader_def h ch Let_def)
qed

lemma publishCard_ok [inv_intros]:
  assumes "presenceOk p" "\<And>h. sm_find (p_idToHandle p) (ac_id c) = Some h \<Longrightarrow> sm_find (p_readers p) h = None"
  shows "presenceOk (fst (publishCard c p))"
proof -
  obtain h p1 where h: "handleFor (ac_id c) p = (h, p1)" by force
  obtain rh p2 where rh: "handleFor (ac_reader c) p1 = (rh, p2)" by force
  have ok: "handlesOk p" using assms(1) by (simp add: presenceOk_def)
  have g1: "grew p p1" and at: "sm_find (p_handleToId p1) h = Some (ac_id c)"
    using handleFor_grew [OF ok h] by simp_all
  then have g2: "grew p1 p2" using handleFor_grew [OF _ rh] by (simp add: grew_def)
  have "sm_find (p_readers p) h = None"
    using handle_unused [OF assms(1) h, of "\<lambda>g. sm_find (p_readers p) g = None"] assms(2)
      unknown_handle_unused [OF assms(1)] by blast
  then have "sm_find (p_readers p2) h = None" using g1 g2 by (simp add: grew_def)
  moreover have "sm_find (p_handleToId p2) h = Some (ac_id c)" using g2 at by (simp add: grew_def)
  moreover have "presenceOk p2" using grew_presenceOk [OF grew_trans [OF g1 g2] assms(1)] .
  ultimately show ?thesis
    unfolding publishCard_def h rh Let_def prod.case fst_conv
    by (intro put_card_ok) (simp_all add: routed_def)
qed

lemma withdraw_ok [inv_intros]:
  assumes "presenceOk p" shows "presenceOk (fst (withdraw oid p))"
proof (cases "sm_find (p_idToHandle p) oid")
  case (Some h)
  define p1 where "p1 =
    (if sm_find (p_readers p) h \<noteq> None then p\<lparr>p_readers := sm_erase h (p_readers p)\<rparr>
     else if sm_find (p_cards p) h \<noteq> None
     then p\<lparr>p_cards := sm_erase h (p_cards p), p_cardRouting := sm_erase h (p_cardRouting p)\<rparr>
     else p)"
  let ?p = "p1\<lparr>p_idToHandle := sm_erase oid (p_idToHandle p1), p_handleToId := sm_erase h (p_handleToId p1)\<rparr>"
  have same: "p_idToHandle p1 = p_idToHandle p" "p_handleToId p1 = p_handleToId p"
    "p_nextHandle p1 = p_nextHandle p" by (simp_all add: p1_def)
  have inv: "\<And>i g. sm_find (p_idToHandle p) i = Some g \<longleftrightarrow> sm_find (p_handleToId p) g = Some i"
    using assms by (simp add: presenceOk_def handlesOk_def)
  have "handlesOk ?p"
    using assms sm2.inverse_erase [OF inv Some]
    by (simp add: handlesOk_def presenceOk_def same)
  moreover have gone: "sm_find (p_readers p1) h = None \<and> sm_find (p_cards p1) h = None"
    using assms unfolding p1_def presenceOk_def readersOk_def by (auto split: option.splits)
  have r1: "readersOk p1" "cardsOk p1"
    using assms by (auto simp: p1_def presenceOk_def readersOk_def cardsOk_def routed_def)
  have "readersOk ?p" using r1(1) gone by (auto simp: readersOk_def)
  moreover have "cardsOk ?p" using r1(2) gone by (auto simp: cardsOk_def routed_def)
  ultimately have "presenceOk (rebuildRoster ?p)" by (intro rebuild_presenceOk)
  moreover have "fst (withdraw oid p) = rebuildRoster ?p" by (simp add: withdraw_def Some p1_def)
  ultimately show ?thesis by simp
qed (simp add: withdraw_def assms)

text \<open>A change of a reader or a card in place keeps the roster: it moves no name and no key.\<close>

lemma sm_put_map:
  assumes "sm_ok m" "sm_find m k = Some w" "f (k, v) = f (k, w)"
  shows "map f (sm_put k v m) = map f m"
  using assms
proof (induction k v m rule: sm_put.induct)
  case (2 k v k' v' m)
  then have "\<not> k < k'"
    by (auto simp: sm_ok_Cons dest!: sm_find_in split: if_splits)
  with 2 show ?case by (auto simp: sm_ok_Cons)
qed simp

lemma set_reader_ok:
  assumes "presenceOk p" "sm_find (p_readers p) h = Some r" "wr_handle r' = h" "wr_name r' = wr_name r"
  shows "presenceOk (p\<lparr>p_readers := sm_put h r' (p_readers p)\<rparr>)" (is "presenceOk ?p")
proof -
  have "sm_ok (p_readers p)" using assms(1) by (simp add: presenceOk_def readersOk_def)
  note upd = sm_put_map [OF this assms(2)]
  have "rosterKey ?p = rosterKey p" by (rule rosterKey_cong) simp_all
  then have "rosterOf ?p = rosterOf p"
    using upd [of "wr_name \<circ> snd" r'] upd [of "rosterKey p \<circ> fst" r'] assms(4) by (simp add: rosterOf_def)
  moreover have "readersOk ?p" using assms by (auto simp: presenceOk_def readersOk_def)
  ultimately show ?thesis
    using assms(1) by (simp add: presenceOk_def handlesOk_def cardsOk_def routed_def)
qed

lemma relabel_ok [inv_intros]: "presenceOk p \<Longrightarrow> presenceOk (fst (relabelReader tok r p))"
  by (simp add: relabelReader_def set_reader_ok presenceOk_reader split: option.split)

lemma updateProperties_ok [inv_intros]:
  assumes "presenceOk p" shows "presenceOk (fst (updateProperties oid delta p))"
proof (cases "sm_find (p_idToHandle p) oid")
  case (Some h)
  show ?thesis
  proof (cases "sm_find (p_readers p) h")
    case (Some r)
    obtain ch p1 where p1: "(if pd_hasCard delta then handleForOpt (pd_card delta) p else (None, p)) = (ch, p1)"
      by force
    have "grew p p1"
      using p1 handleForOpt_grew [of p "pd_card delta" ch p1] assms
      by (auto simp: presenceOk_def split: if_splits)
    then have "presenceOk p1" "sm_find (p_readers p1) h = Some r" "wr_handle r = h"
      using grew_presenceOk [of p p1] presenceOk_reader [OF assms Some] assms Some by (simp_all add: grew_def)
    then have "presenceOk (p1\<lparr>p_readers := sm_put h (r\<lparr>wr_hasCard := pd_hasCard delta, wr_card := ch\<rparr>)
                 (p_readers p1)\<rparr>)"
      by (intro set_reader_ok) simp_all
    then show ?thesis
      using Some \<open>sm_find (p_idToHandle p) oid = Some h\<close> by (simp add: updateProperties_def p1)
  qed (simp add: updateProperties_def assms Some)
qed (simp add: updateProperties_def assms)

lemma find_fst_map:
  "map_option fst (find (\<lambda>(g, d). f d = x) m) = map_option fst (find (\<lambda>(g, y). y = x) (map (\<lambda>(g, d). (g, f d)) m))"
  by (induction m) auto

lemma updateCardType_ok [inv_intros]:
  assumes "presenceOk p" shows "presenceOk (fst (updateCardType h ty p))"
proof (cases "sm_find (p_cards p) h")
  case (Some c)
  let ?c = "c\<lparr>wc_cardType := Some ty\<rparr>"
  let ?p = "p\<lparr>p_cards := sm_put h ?c (p_cards p)\<rparr>"
  have ok: "sm_ok (p_cards p)" using assms by (simp add: presenceOk_def cardsOk_def)
  have "rosterKey ?p rh = rosterKey p rh" for rh
  proof -
    have "map (\<lambda>(g, d). (g, wc_reader d)) (sm_put h ?c (p_cards p)) = map (\<lambda>(g, d). (g, wc_reader d)) (p_cards p)"
      by (rule sm_put_map [OF ok Some]) simp
    then have "map_option fst (find (\<lambda>(g, d). wc_reader d = rh) (p_cards ?p))
             = map_option fst (find (\<lambda>(g, d). wc_reader d = rh) (p_cards p))"
      using find_fst_map [of wc_reader rh "sm_put h ?c (p_cards p)"] find_fst_map [of wc_reader rh "p_cards p"]
      by simp
    then show ?thesis
      by (auto simp: rosterKey_def split: option.splits)
  qed
  then have "rosterOf ?p = rosterOf p" by (simp add: rosterOf_def comp_def)
  moreover have "cardsOk ?p"
    using assms Some card_routed [OF assms Some] by (auto simp: presenceOk_def cardsOk_def routed_def)
  moreover have "sm_find (p_readers p) h = None"
    using assms Some unfolding presenceOk_def readersOk_def by (metis not_None_eq option.distinct(1))
  then have "readersOk ?p" using assms by (auto simp: presenceOk_def readersOk_def)
  ultimately have "presenceOk ?p" using assms by (simp add: presenceOk_def handlesOk_def)
  with Some assms show ?thesis by (simp add: updateCardType_def)
qed (simp add: updateCardType_def assms)

section \<open>The registry as a transition system\<close>

text \<open>
  The calls the object registry of the agent library makes. Readers and cards are distinct
  objects: one that is published as a card is not also published as a reader.
\<close>

inductive presenceStep :: "(nat \<Rightarrow> string) \<Rightarrow> presence \<Rightarrow> presence \<Rightarrow> bool" for tok where
  step_publishReader:
    "(\<And>h. sm_find (p_idToHandle p) (ar_id r) = Some h \<Longrightarrow> sm_find (p_cards p) h = None)
      \<Longrightarrow> presenceStep tok p (fst (publishReader r p))"
| step_publishCard:
    "(\<And>h. sm_find (p_idToHandle p) (ac_id c) = Some h \<Longrightarrow> sm_find (p_readers p) h = None)
      \<Longrightarrow> presenceStep tok p (fst (publishCard c p))"
| step_withdraw: "presenceStep tok p (fst (withdraw oid p))"
| step_updateProperties: "presenceStep tok p (fst (updateProperties oid delta p))"
| step_relabel: "presenceStep tok p (fst (relabelReader tok r p))"
| step_cardType: "presenceStep tok p (fst (updateCardType h ty p))"

inductive_cases presenceStepE: "presenceStep tok p q"

definition presenceInit :: presence where
  "presenceInit = \<lparr>p_nextHandle = 1, p_readers = [], p_cards = [], p_cardRouting = [],
     p_roster = \<lparr>pr_readerNames = [], pr_cardKeys = []\<rparr>, p_idToHandle = [], p_handleToId = []\<rparr>"

interpretation presence_system: invariant_system "\<lambda>p. p = presenceInit" "presenceStep tok" presenceOk for tok
proof
  show "presenceOk p" if "p = presenceInit" for p
    using that by (simp add: presenceInit_def presenceOk_def handlesOk_def readersOk_def cardsOk_def rosterOf_def)
  show "presenceOk q" if "presenceOk p" "presenceStep tok p q" for p q
    using that(2,1) by (elim presenceStepE) (auto intro: inv_intros)
qed

section \<open>Properties\<close>

definition demoReader :: AgentReaderState where
  "demoReader = \<lparr>ar_id = 7, ar_name = ''R'', ar_hasCard = False, ar_card = None, ar_model = ''M'', ar_iface = 0\<rparr>"

definition demoCard :: AgentCardState where
  "demoCard = \<lparr>ac_id = 9, ac_reader = 7, ac_capabilities = 3, ac_preReadAuth = 0, ac_cardType = [],
     ac_atrHex = ''3B''\<rparr>"

definition demoPresence :: presence where
  "demoPresence = fst (publishCard demoCard (fst (publishReader demoReader presenceInit)))"

lemma demoPresence_reach: "reach (\<lambda>p. p = presenceInit) (presenceStep tok) demoPresence"
proof -
  let ?p = "fst (publishReader demoReader presenceInit)"
  have "reach (\<lambda>p. p = presenceInit) (presenceStep tok) presenceInit" by (rule reach_init) simp
  moreover have "presenceStep tok presenceInit ?p"
    by (rule step_publishReader) (simp add: presenceInit_def)
  ultimately have "reach (\<lambda>p. p = presenceInit) (presenceStep tok) ?p" by (rule reach_step)
  moreover have "sm_find (p_idToHandle ?p) (ac_id demoCard) = None"
    by (simp add: publishReader_def handleFor_def handleForOpt_def rebuildRoster_def Let_def
        presenceInit_def demoReader_def demoCard_def sm_emplace_def)
  then have "presenceStep tok ?p demoPresence"
    unfolding demoPresence_def by (intro step_publishCard) simp
  ultimately show ?thesis by (rule reach_step)
qed



text \<open>
  A handle is never handed out twice: the handle made for an object that has none is
  none of the handles made before, so a card taken out and put back is another object to
  every client.
\<close>
lemma handle_never_reused:
  assumes "reach (\<lambda>p. p = presenceInit) (presenceStep tok) p" and "sm_find (p_idToHandle p) oid = None"
  shows "fst (handleFor oid p) \<notin> objHandle ` {..<p_nextHandle p}
       \<and> p_nextHandle (snd (handleFor oid p)) = p_nextHandle p + 1
       \<and> sm_find (p_handleToId (snd (handleFor oid p))) (fst (handleFor oid p)) = Some oid"
proof -
  have "handlesOk p" using presence_system.reach_inv [OF assms(1)] by (simp add: presenceOk_def)
  with handleFor_grew [of p oid] assms(2) show ?thesis
    by (auto simp: handleFor_def Let_def)
qed

text \<open>
  Once a card is published in a reader, its routing facts lead to the card and the
  reader, the key every cache uses is the decimal card id, and that key is not the wire
  handle.
\<close>
lemma published_card_routes:
  assumes "presenceOk p" and "publishCard c p = (p', [CardAdded w])"
  shows "\<exists>r. cardRouting (wc_handle w) p' = Some r \<and> ro_cardId r = ac_id c \<and> ro_readerId r = ac_reader c
       \<and> ro_cardKey r = showNat (ac_id c) \<and> ro_caps r = ac_capabilities c
       \<and> sm_find (p_handleToId p') (wc_handle w) = Some (ac_id c)
       \<and> sm_find (p_handleToId p') (wc_reader w) = Some (ac_reader c) \<and> ro_cardKey r \<noteq> wc_handle w"
proof -
  obtain h p1 where h: "handleFor (ac_id c) p = (h, p1)" by force
  obtain rh p2 where rh: "handleFor (ac_reader c) p1 = (rh, p2)" by force
  have g1: "grew p p1" "sm_find (p_handleToId p1) h = Some (ac_id c)"
    using handleFor_grew [OF _ h] assms(1) by (auto simp: presenceOk_def)
  have g2: "grew p1 p2" "sm_find (p_handleToId p2) rh = Some (ac_reader c)"
    using handleFor_grew [OF _ rh] g1 by (auto simp: grew_def)
  have at: "sm_find (p_handleToId p2) h = Some (ac_id c)" using g1 g2 by (simp add: grew_def)
  with g2 obtain n where "h = objHandle n" by (auto simp: grew_def handlesOk_def)
  then have "showNat k \<noteq> h" for k using showNat_hd [of k] by (metis append_Cons list.sel(1) objHandle_def)
  with assms(2) at g2(2) show ?thesis
    by (auto simp: publishCard_def h rh Let_def rebuildRoster_def cardRouting_def)
qed

text \<open>
  Withdrawing a card takes effect at once and everywhere: its removal is announced, its
  routing facts and its handle are gone, and a reader that still names it, because the
  property change follows later, answers no card key for it.
\<close>
lemma withdrawn_card_gone:
  assumes "presenceOk p" and "sm_find (p_idToHandle p) oid = Some h" and "sm_find (p_cards p) h = Some c"
    and "withdraw oid p = (p', evs)"
  shows "evs = [CardRemoved h] \<and> cardRouting h p' = None \<and> sm_find (p_handleToId p') h = None
       \<and> (\<forall>rh r. sm_find (p_readers p) rh = Some r \<longrightarrow> wr_card r = Some h
             \<longrightarrow> map_option ri_cardKey (readerCard rh p') = Some [])"
proof -
  have nr: "sm_find (p_readers p) h = None"
    using assms(1,3) unfolding presenceOk_def readersOk_def by (metis not_None_eq option.distinct(1))
  have evs: "evs = [CardRemoved h]" and p': "p' = rebuildRoster (p\<lparr>p_cards := sm_erase h (p_cards p),
      p_cardRouting := sm_erase h (p_cardRouting p), p_idToHandle := sm_erase oid (p_idToHandle p),
      p_handleToId := sm_erase h (p_handleToId p)\<rparr>)"
    using assms(2-4) nr by (auto simp: withdraw_def)
  have "map_option ri_cardKey (readerCard rh p') = Some []"
    if r: "sm_find (p_readers p) rh = Some r" "wr_card r = Some h" for rh r
  proof -
    have "rh \<noteq> h" using r nr by auto
    moreover obtain i where "sm_find (p_handleToId p) rh = Some i"
      using unknown_handle_unused(1) [OF assms(1), of rh] r(1)
      by (cases "sm_find (p_handleToId p) rh") auto
    ultimately show ?thesis using r by (simp add: p' readerCard_def rebuildRoster_def)
  qed
  then show ?thesis using evs by (auto simp: p' cardRouting_def rebuildRoster_def)
qed

end
