(* ===== verification/Sign_Options.thy ===== *)
theory Sign_Options
  imports Cbor_Value
begin

text \<open>
  The signature options of a Sign or SignBatch request resolved to concrete values,
  \<^verbatim>\<open>resolveSignOptions\<close> of \<^verbatim>\<open>agent/src/backend/SocketFrontend.cpp\<close>. The signature vocabulary
  (which formats, levels and packagings exist, how a level is defaulted, what a valid
  timestamping address and geometry are) is the agent library's and an argument, as are the
  configured defaults; the doubles of a visible signature's box are a type variable.
\<close>

section \<open>Errors and options\<close>

text \<open>The synchronous errors this host answers with; \<open>CoreError\<close> is one it only passes on.\<close>

datatype SyncError =
    UnknownCard | UnsupportedOnThisCard | UnsupportedSignatureParameter | NotAuthorized
  | CommunicationError | RateLimited | InputTooLarge | InvalidRequest | NoResult | UnknownConfigKey
  | ReadOnlyConfig | InvalidConfigValue | MasterListReplayed | UnsupportedProtocol | CoreError nat

record 'box visual_opts =
  vo_page :: u64
  vo_box :: 'box
  vo_text :: string

record 'box SignOpts =
  so_format :: "string option"
  so_level :: "string option"
  so_packaging :: "string option"
  so_allowExpired :: "bool option"
  so_displayName :: "string option"
  so_reason :: "string option"
  so_location :: "string option"
  so_tsaUrl :: "string option"
  so_visualSignature :: "'box visual_opts option"

record 'box sign_lib =
  requestedFormatFrom :: "string option \<Rightarrow> string option"
  sniffFormat :: "bytes \<Rightarrow> string option"
  isKnownFormat :: "string \<Rightarrow> bool"
  requestedLevelFrom :: "string option \<Rightarrow> string option"
  resolveSignLevel :: "string option \<Rightarrow> string \<Rightarrow> bool \<Rightarrow> string"
  isKnownLevel :: "string \<Rightarrow> bool"
  isImplementedSignLevel :: "string \<Rightarrow> bool"
  requestedPackagingFrom :: "string option \<Rightarrow> string option"
  defaultPackagingFor :: "string \<Rightarrow> string"
  isKnownPackaging :: "string \<Rightarrow> bool"
  isValidTsaUrl :: "string \<Rightarrow> bool"
  isValidVisualGeometry :: "int \<Rightarrow> 'box \<Rightarrow> bool"
  toFloatBox :: "'box \<Rightarrow> 'box"

record sign_config =
  sc_tsaUrls :: "string list"
  sc_defaultLevel :: string
  sc_defaultReason :: string
  sc_defaultLocation :: string

record 'box VisualParams =
  vp_page :: int
  vp_box :: 'box
  vp_text :: string

record 'box ResolvedSignOptions =
  ro_format :: string
  ro_level :: string
  ro_packaging :: string
  ro_allowExpired :: bool
  ro_reason :: string
  ro_location :: string
  ro_tsaUrl :: "string option"
  ro_visual :: "'box VisualParams option"

section \<open>Resolution\<close>

definition valueOr :: "'a option \<Rightarrow> 'a \<Rightarrow> 'a" where
  "valueOr x d = (case x of None \<Rightarrow> d | Some v \<Rightarrow> v)"

definition resolveFormat :: "'box sign_lib \<Rightarrow> 'box SignOpts \<Rightarrow> bytes \<Rightarrow> string option" where
  "resolveFormat lib opts sniffSource =
     (case requestedFormatFrom lib (so_format opts) of
        Some f \<Rightarrow> Some f
      | None \<Rightarrow> sniffFormat lib sniffSource)"

text \<open>\<^verbatim>\<open>static_cast<std::int64_t>\<close> for the check, \<^verbatim>\<open>static_cast<int>\<close> for the parameter.\<close>

definition resolveVisual ::
    "'box sign_lib \<Rightarrow> string \<Rightarrow> 'box visual_opts option \<Rightarrow> 'box VisualParams option option" where
  "resolveVisual lib format vis =
     (case vis of
        None \<Rightarrow> Some None
      | Some v \<Rightarrow>
          if format \<noteq> ''pades'' \<or> \<not> isValidVisualGeometry lib (sint (vo_page v)) (vo_box v) then None
          else Some (Some \<lparr>vp_page = sint (ucast (vo_page v) :: 32 word), vp_box = toFloatBox lib (vo_box v),
                           vp_text = vo_text v\<rparr>))"

definition resolveSignOptions ::
    "'box sign_lib \<Rightarrow> 'box SignOpts \<Rightarrow> bytes \<Rightarrow> sign_config
       \<Rightarrow> (SyncError, 'box ResolvedSignOptions) expected" where
  "resolveSignOptions lib opts sniffSource config =
     (case resolveFormat lib opts sniffSource of
        None \<Rightarrow> Inl UnsupportedSignatureParameter
      | Some format \<Rightarrow>
     if \<not> isKnownFormat lib format then Inl UnsupportedSignatureParameter
     else
       let requestedLevel = requestedLevelFrom lib (so_level opts);
           hasTsa = (sc_tsaUrls config \<noteq> [] \<or> so_tsaUrl opts \<noteq> None);
           level = resolveSignLevel lib requestedLevel (sc_defaultLevel config) hasTsa
       in if \<not> isKnownLevel lib level \<or> \<not> isImplementedSignLevel lib level
          then Inl UnsupportedSignatureParameter
          else
            let packaging = valueOr (requestedPackagingFrom lib (so_packaging opts)) (defaultPackagingFor lib format)
            in if \<not> isKnownPackaging lib packaging then Inl UnsupportedSignatureParameter
               else if (case so_tsaUrl opts of None \<Rightarrow> False | Some u \<Rightarrow> \<not> isValidTsaUrl lib u \<or> level = ''b-b'')
               then Inl UnsupportedSignatureParameter
               else case resolveVisual lib format (so_visualSignature opts) of
                 None \<Rightarrow> Inl UnsupportedSignatureParameter
               | Some visual \<Rightarrow>
                   Inr \<lparr>ro_format = format, ro_level = level, ro_packaging = packaging,
                        ro_allowExpired = valueOr (so_allowExpired opts) False,
                        ro_reason = valueOr (so_reason opts) (sc_defaultReason config),
                        ro_location = valueOr (so_location opts) (sc_defaultLocation config),
                        ro_tsaUrl = so_tsaUrl opts, ro_visual = visual\<rparr>)"

section \<open>What a resolution guarantees\<close>

text \<open>The vocabulary an operation may be started with.\<close>

definition inVocabulary :: "'box sign_lib \<Rightarrow> 'box ResolvedSignOptions \<Rightarrow> bool" where
  "inVocabulary lib r \<longleftrightarrow>
     isKnownFormat lib (ro_format r) \<and> isKnownLevel lib (ro_level r) \<and> isImplementedSignLevel lib (ro_level r)
     \<and> isKnownPackaging lib (ro_packaging r)
     \<and> (case ro_tsaUrl r of None \<Rightarrow> True | Some u \<Rightarrow> isValidTsaUrl lib u \<and> ro_level r \<noteq> ''b-b'')
     \<and> (ro_visual r = None \<or> ro_format r = ''pades'')"

lemma resolveVisual_pades:
  "resolveVisual lib format vis = Some (Some p) \<Longrightarrow> format = ''pades''"
  by (auto simp: resolveVisual_def split: option.splits if_splits)

lemma resolveSignOptions_vocabulary:
  "resolveSignOptions lib opts src config = Inr r \<Longrightarrow> inVocabulary lib r"
  by (cases "ro_visual r")
    (auto simp: resolveSignOptions_def Let_def inVocabulary_def dest: resolveVisual_pades
      split: option.splits if_splits)

lemma resolveSignOptions_error:
  "resolveSignOptions lib opts src config = Inl e \<Longrightarrow> e = UnsupportedSignatureParameter"
  by (auto simp: resolveSignOptions_def Let_def split: option.splits if_splits)

section \<open>Properties\<close>

text \<open>
  C37: options that resolve are within the signature vocabulary: format, level and packaging are
  known ones, the level is implemented, a request's own timestamping address is valid and never
  paired with the baseline level, and a visible signature is only ever put on a PDF; what does not
  resolve is refused with the one parameter error.
\<close>
theorem sign_options_in_vocabulary:
  "case resolveSignOptions lib opts src config of
     Inl e \<Rightarrow> e = UnsupportedSignatureParameter
   | Inr r \<Rightarrow> inVocabulary lib r \<and> ro_tsaUrl r = so_tsaUrl opts"
proof (cases "resolveSignOptions lib opts src config")
  case (Inl e)
  then show ?thesis by (simp add: resolveSignOptions_error)
next
  case (Inr r)
  then have "ro_tsaUrl r = so_tsaUrl opts"
    by (auto simp: resolveSignOptions_def Let_def split: option.splits if_splits)
  with Inr show ?thesis by (simp add: resolveSignOptions_vocabulary)
qed

text \<open>
  Naming a timestamping authority lifts a defaulted level: where the vocabulary defaults to a
  timestamped level for a request with an authority, a request that names one and no level is
  accepted even though none is configured, while an explicit baseline level with one is refused.
\<close>
lemma tsa_lifts_default_level:
  assumes "\<And>d t. resolveSignLevel lib None d t = (if t then ''b-t'' else d)"
    and "\<And>l d t. resolveSignLevel lib (Some l) d t = l"
    and "so_tsaUrl opts = Some u" and "isValidTsaUrl lib u"
    and "isKnownLevel lib ''b-t''" and "isImplementedSignLevel lib ''b-t''"
    and "resolveFormat lib opts src = Some f" and "isKnownFormat lib f"
    and "isKnownPackaging lib (valueOr (requestedPackagingFrom lib (so_packaging opts)) (defaultPackagingFor lib f))"
    and "so_visualSignature opts = None"
  shows "(requestedLevelFrom lib (so_level opts) = None \<longrightarrow>
            (\<exists>r. resolveSignOptions lib opts src config = Inr r \<and> ro_level r = ''b-t''))
       \<and> (requestedLevelFrom lib (so_level opts) = Some ''b-b'' \<longrightarrow>
            resolveSignOptions lib opts src config = Inl UnsupportedSignatureParameter)"
  using assms(3-) by (auto simp: resolveSignOptions_def assms(1,2) Let_def resolveVisual_def)

definition demoSignLib :: "nat sign_lib" where
  "demoSignLib = \<lparr>requestedFormatFrom = (\<lambda>f. f), sniffFormat = (\<lambda>b. if b = [] then None else Some ''pades''),
     isKnownFormat = (\<lambda>f. f \<in> {''pades'', ''cades''}), requestedLevelFrom = (\<lambda>l. l),
     resolveSignLevel = (\<lambda>r d t. case r of Some l \<Rightarrow> l | None \<Rightarrow> if t then ''b-t'' else d),
     isKnownLevel = (\<lambda>l. l \<in> {''b-b'', ''b-t''}), isImplementedSignLevel = (\<lambda>l. l \<in> {''b-b'', ''b-t''}),
     requestedPackagingFrom = (\<lambda>p. p), defaultPackagingFor = (\<lambda>_. ''enveloped''),
     isKnownPackaging = (\<lambda>p. p = ''enveloped''), isValidTsaUrl = (\<lambda>u. u \<noteq> []),
     isValidVisualGeometry = (\<lambda>_ _. True), toFloatBox = (\<lambda>b. b)\<rparr>"

definition demoSignOpts :: "nat SignOpts" where
  "demoSignOpts = \<lparr>so_format = None, so_level = None, so_packaging = None, so_allowExpired = None,
     so_displayName = None, so_reason = None, so_location = None, so_tsaUrl = Some ''https://tsa'',
     so_visualSignature = None\<rparr>"

definition demoSignConfig :: sign_config where
  "demoSignConfig = \<lparr>sc_tsaUrls = [], sc_defaultLevel = ''b-b'', sc_defaultReason = [], sc_defaultLocation = []\<rparr>"

end
