(* ===== verification/Authorizer.thy ===== *)
theory Authorizer
  imports Connections
begin

text \<open>
  The client-authorization gate of \<^verbatim>\<open>agent/src/backend/SecCodeAuthorizer.cpp\<close>: which caller may
  ask for which action. The action identifiers, the peer's code-signing facts and the
  credentials type belong to the agent library and are arguments; the credentials resolver is
  the transport's \<open>credentialsFor\<close> in the daemon. The resolver of the code-signing facts is
  costly, so the model answers the calls it made beside the decision.
\<close>

section \<open>Model\<close>

record action_ids =
  kActionConfigure :: string
  kActionSign :: string
  kActionPkcs11Login :: string
  kActionCredentialsManage :: string
  kActionConfigureTrust :: string

record PeerAuth =
  pa_signingId :: "string option"
  pa_appGroups :: "string list"
  pa_designatedRequirementValid :: "bool option"

datatype AuthorizationOutcome = Granted | Denied | Undecided

record Policy =
  trustTierSigningIds :: "string list"
  allowedSigningIds :: "string list"
  requiredAppGroup :: "string option"
  teamId :: "string option"

definition contains :: "string list \<Rightarrow> string \<Rightarrow> bool" where
  "contains xs v = (find (\<lambda>x. x = v) xs \<noteq> None)"

definition isDefaultAction :: "action_ids \<Rightarrow> string \<Rightarrow> bool" where
  "isDefaultAction ids act \<longleftrightarrow>
     act = kActionConfigure ids \<or> act = kActionSign ids \<or> act = kActionPkcs11Login ids
       \<or> act = kActionCredentialsManage ids"

text \<open>The \<^verbatim>\<open>signingIdAllowed\<close> closure: its verdict and the resolver calls it made.\<close>

definition signingIdAllowed ::
    "('cred \<Rightarrow> PeerAuth) \<Rightarrow> Policy \<Rightarrow> 'cred \<Rightarrow> string list \<Rightarrow> bool \<times> 'cred list" where
  "signingIdAllowed resolve pol creds ids =
     (case requiredAppGroup pol of
        None \<Rightarrow> (False, [])
      | Some grp \<Rightarrow>
          (let peer = resolve creds
           in if teamId pol \<noteq> None \<and> pa_designatedRequirementValid peer \<noteq> Some True then (False, [creds])
              else (case pa_signingId peer of
                      None \<Rightarrow> (False, [creds])
                    | Some sid \<Rightarrow> (contains ids sid \<and> contains (pa_appGroups peer) grp, [creds]))))"

definition verdict :: "bool \<times> 'cred list \<Rightarrow> AuthorizationOutcome \<times> 'cred list" where
  "verdict r = (if fst r then Granted else Denied, snd r)"

definition authorize ::
    "action_ids \<Rightarrow> ('tok \<Rightarrow> 'cred option) \<Rightarrow> ('cred \<Rightarrow> PeerAuth) \<Rightarrow> Policy \<Rightarrow> string \<Rightarrow> 'tok
       \<Rightarrow> AuthorizationOutcome \<times> 'cred list" where
  "authorize ids credentials resolve pol act caller =
     (if \<not> isDefaultAction ids act \<and> act \<noteq> kActionConfigureTrust ids then (Denied, [])
      else case credentials caller of
        None \<Rightarrow> (Denied, [])
      | Some creds \<Rightarrow>
          if act = kActionConfigureTrust ids then
            (if trustTierSigningIds pol = [] then (Granted, [])
             else verdict (signingIdAllowed resolve pol creds (trustTierSigningIds pol)))
          else if allowedSigningIds pol = [] then (Granted, [])
          else verdict (signingIdAllowed resolve pol creds (allowedSigningIds pol)))"

text \<open>The daemon's gate: the resolver is the transport's own registry of live peers.\<close>

definition authorizeCaller ::
    "action_ids \<Rightarrow> ('cred \<Rightarrow> PeerAuth) \<Rightarrow> Policy \<Rightarrow> string \<Rightarrow> string \<Rightarrow> 'cred transport
       \<Rightarrow> AuthorizationOutcome \<times> 'cred list" where
  "authorizeCaller ids resolve pol act caller t =
     authorize ids (\<lambda>c. credentialsFor c t) resolve pol act caller"

definition daemonPolicy :: "string \<Rightarrow> string option \<Rightarrow> Policy" where
  "daemonPolicy grp team =
     \<lparr>trustTierSigningIds = [], allowedSigningIds = [], requiredAppGroup = Some grp, teamId = team\<rparr>"

section \<open>The policy as a specification\<close>

text \<open>The list that governs an action, and what it asks of a peer.\<close>

definition governingList :: "action_ids \<Rightarrow> Policy \<Rightarrow> string \<Rightarrow> string list" where
  "governingList ids pol act =
     (if act = kActionConfigureTrust ids then trustTierSigningIds pol else allowedSigningIds pol)"

definition meetsPolicy :: "Policy \<Rightarrow> string list \<Rightarrow> PeerAuth \<Rightarrow> bool" where
  "meetsPolicy pol ids peer \<longleftrightarrow>
     (\<exists>grp. requiredAppGroup pol = Some grp \<and> grp \<in> set (pa_appGroups peer))
     \<and> (\<exists>sid. pa_signingId peer = Some sid \<and> sid \<in> set ids)
     \<and> (teamId pol = None \<or> pa_designatedRequirementValid peer = Some True)"

lemma contains_iff [simp]: "contains xs v \<longleftrightarrow> v \<in> set xs"
  by (induction xs) (auto simp: contains_def)

lemma signingIdAllowed_iff: "fst (signingIdAllowed resolve pol creds ids) \<longleftrightarrow> meetsPolicy pol ids (resolve creds)"
  by (auto simp: signingIdAllowed_def meetsPolicy_def Let_def split: option.splits)

lemma signingIdAllowed_calls:
  "snd (signingIdAllowed resolve pol creds ids) = (if requiredAppGroup pol = None then [] else [creds])"
  by (auto simp: signingIdAllowed_def Let_def split: option.splits)

lemma verdict_simps [simp]:
  "fst (verdict r) = Granted \<longleftrightarrow> fst r" "snd (verdict r) = snd r"
  by (simp_all add: verdict_def)

lemma authorize_granted:
  "fst (authorize ids credentials resolve pol act caller) = Granted \<longleftrightarrow>
     (isDefaultAction ids act \<or> act = kActionConfigureTrust ids)
     \<and> (\<exists>creds. credentials caller = Some creds
          \<and> (governingList ids pol act = [] \<or> meetsPolicy pol (governingList ids pol act) (resolve creds)))"
  by (auto simp: authorize_def governingList_def signingIdAllowed_iff split: option.splits)

lemma credentialsFor_live:
  assumes "transportOk t" and "sm_find (t_connections t) cid = Some c"
  shows "credentialsFor (callerOf cid) t = Some (co_creds c)"
proof -
  have mem: "(cid, c) \<in> set (t_connections t)" using assms(2) by (rule sm_find_in)
  have only: "k = cid \<and> d = c" if "(k, d) \<in> set (t_connections t)" "co_caller d = callerOf cid" for k d
  proof -
    have "sm_find (t_connections t) k = Some d"
      using assms(1) that(1) by (simp add: transportOk_def sm_find_iff)
    with transportOk_conn [OF assms(1) this] that(2) assms(2) show ?thesis
      by (auto simp: connOk_def connBounds_def)
  qed
  have "co_caller c = callerOf cid"
    using transportOk_conn [OF assms] by (simp add: connOk_def connBounds_def)
  with mem have "find (\<lambda>(k, d). co_caller d = callerOf cid) (t_connections t) \<noteq> None"
    by (auto simp: find_None_iff)
  then obtain k d where "find (\<lambda>(k, d). co_caller d = callerOf cid) (t_connections t) = Some (k, d)"
    by auto
  moreover from this have "(k, d) \<in> set (t_connections t)" "co_caller d = callerOf cid"
    by (auto simp: find_Some_iff) (metis nth_mem)
  ultimately show ?thesis using only by (simp add: credentialsFor_def)
qed

lemma credentialsFor_gone:
  assumes "transportOk t" and "sm_find (t_connections t) cid = None"
  shows "credentialsFor (callerOf cid) t = None"
proof -
  have "co_caller d \<noteq> callerOf cid" if "(k, d) \<in> set (t_connections t)" for k d
  proof -
    have at: "sm_find (t_connections t) k = Some d" using assms(1) that by (simp add: transportOk_def sm_find_iff)
    with transportOk_conn [OF assms(1) at] assms(2) show ?thesis by (auto simp: connOk_def connBounds_def)
  qed
  then show ?thesis by (auto simp: credentialsFor_def find_None_iff)
qed

text \<open>
  The peer's code is resolved at most once and only where an allow-list decides: never for an
  unknown action, an unidentified peer, an empty list, or a list without an app group.
\<close>

lemma authorize_calls:
  "snd (authorize ids credentials resolve pol act caller)
     = (case credentials caller of
          None \<Rightarrow> []
        | Some creds \<Rightarrow>
            if (isDefaultAction ids act \<or> act = kActionConfigureTrust ids) \<and> governingList ids pol act \<noteq> []
               \<and> requiredAppGroup pol \<noteq> None
            then [creds] else [])"
  by (auto simp: authorize_def governingList_def signingIdAllowed_calls split: option.splits)

lemma authorizeCaller_live:
  assumes "transportOk t"
  shows "authorizeCaller ids resolve pol act (callerOf cid) t
           = (case sm_find (t_connections t) cid of
                None \<Rightarrow> (Denied, [])
              | Some c \<Rightarrow> authorize ids (\<lambda>_. Some (co_creds c)) resolve pol act (callerOf cid))"
  using credentialsFor_gone [OF assms] credentialsFor_live [OF assms]
  by (auto simp: authorizeCaller_def authorize_def split: option.split)

section \<open>Properties\<close>

text \<open>
  C15: the gate's decision is the documented policy: an action is granted exactly when it is one
  of the five known actions, its caller is an identified peer, and, where the list that governs
  the action is not empty, the peer's signing identifier is on it, the required app group is
  configured and claimed by the peer, and a configured team id is proved by a designated
  requirement that held.
\<close>
theorem authorize_decision:
  "fst (authorize ids credentials resolve pol act caller) = Granted \<longleftrightarrow>
     (act \<in> {kActionConfigure ids, kActionSign ids, kActionPkcs11Login ids, kActionCredentialsManage ids,
             kActionConfigureTrust ids})
     \<and> (\<exists>creds. credentials caller = Some creds
          \<and> (governingList ids pol act = [] \<or> meetsPolicy pol (governingList ids pol act) (resolve creds)))"
  by (auto simp: authorize_granted isDefaultAction_def)

text \<open>
  Over the running transport the gate judges a caller by the credentials captured when
  that very connection was accepted, never by another peer's, and a caller whose connection
  has left the table is denied every action.
\<close>
lemma authorizer_judges_own_peer:
  assumes "reach transportInit (transportStep env parse) t"
  shows "authorizeCaller ids resolve pol act (callerOf cid) t
           = (case sm_find (t_connections t) cid of
                None \<Rightarrow> (Denied, [])
              | Some c \<Rightarrow> authorize ids (\<lambda>_. Some (co_creds c)) resolve pol act (callerOf cid))"
  using transport_system.reach_inv [OF assms] by (rule authorizeCaller_live)

definition demoActions :: action_ids where
  "demoActions = \<lparr>kActionConfigure = ''configure'', kActionSign = ''sign'', kActionPkcs11Login = ''pkcs11.login'',
     kActionCredentialsManage = ''credentials.manage'', kActionConfigureTrust = ''configure.trust''\<rparr>"

definition sitePolicy :: Policy where
  "sitePolicy = \<lparr>trustTierSigningIds = [], allowedSigningIds = [''org.librescrs.LibreMac''],
     requiredAppGroup = Some ''group.org.librescrs.LibreMac'', teamId = Some ''TEAM''\<rparr>"

definition demoPeer :: "nat \<Rightarrow> PeerAuth" where
  "demoPeer uid = \<lparr>pa_signingId = Some ''org.librescrs.LibreMac'', pa_appGroups = [''group.org.librescrs.LibreMac''],
     pa_designatedRequirementValid = Some (uid = 501)\<rparr>"

text \<open>
  As the daemon configures it, with empty allow-lists, the gate grants every known action to
  every caller with a live connection and nothing to anyone else, and never looks at a peer's code.
\<close>
lemma daemon_posture:
  assumes "reach transportInit (transportStep env parse) t"
  shows "authorizeCaller ids resolve (daemonPolicy grp team) act (callerOf cid) t
           = (if (isDefaultAction ids act \<or> act = kActionConfigureTrust ids) \<and> sm_find (t_connections t) cid \<noteq> None
              then Granted else Denied, [])"
  using authorizeCaller_live [OF transport_system.reach_inv [OF assms], of ids resolve "daemonPolicy grp team" act cid]
  by (auto simp: authorize_def daemonPolicy_def split: option.splits)

end
