(* ===== verification/Prompter_Protocol.thy ===== *)
theory Prompter_Protocol
  imports Cbor_Value
begin

text \<open>
  The private agent to prompter protocol of
  \<^verbatim>\<open>agent/src/backend/wire/PrompterProtocol.cpp\<close> and its header: the five requests, the
  four replies, the encoders \<^verbatim>\<open>toCbor\<close>, the strict decoders, and what is left in the
  secret-bearing buffers of the reply decoders and of the reply send path. The kind and
  status words, the interface token and the secret bound are the agent library's prompter
  vocabulary, an argument (\<open>prompter_vocab\<close>) of every definition that uses them.
\<close>

section \<open>Messages\<close>

datatype PromptKind = Pin | Can | Mrz | ChangePin

datatype PromptReplyStatus = StOk | StOkMrz | StCancelled | StTimeout | StError | StUnauthorized

datatype PrompterParseError =
    NotDecodable | NotAMap | MissingField | WrongType | UnknownMessage | BadEnum
  | SecretTooLarge | UnsupportedVersion

record prompter_vocab =
  kindToken :: "PromptKind \<Rightarrow> string"
  kindFromToken :: "string \<Rightarrow> PromptKind option"
  replyStatusToken :: "PromptReplyStatus \<Rightarrow> string"
  replyStatusFromToken :: "string \<Rightarrow> PromptReplyStatus option"
  unknownInterface :: string
  kMaxSecretBytes :: nat

definition kPrompterProtocolVersion :: u32 where
  "kPrompterProtocolVersion = 2"

record PromptRequest =
  pr_kind :: PromptKind
  pr_title :: string
  pr_description :: string
  pr_requester :: string
  pr_artifact :: string
  pr_minLength :: u32
  pr_maxLength :: u32
  pr_artifacts :: "string list"
  pr_attempt :: u32
  pr_lastError :: string
  pr_promptId :: string
  pr_deadlineMs :: u32
  pr_altDeadlineMs :: u32
  pr_readerModel :: string
  pr_readerInterface :: string
  pr_readerFull :: string

record PromptCancel =
  pc_promptId :: string

record RequestSecrets =
  rs_kind :: string
  rs_title :: string
  rs_description :: string
  rs_requester :: string
  rs_artifact :: string
  rs_primaryMinLength :: u32
  rs_primaryMaxLength :: u32
  rs_newMinLength :: u32
  rs_newMaxLength :: u32
  rs_promptId :: string
  rs_deadlineMs :: u32

record ConfirmAction =
  ca_kind :: string
  ca_title :: string
  ca_description :: string
  ca_descriptionKey :: string
  ca_requester :: string
  ca_artifact :: string

datatype PrompterRequest =
    ReqPrompt PromptRequest
  | ReqCancel PromptCancel
  | ReqSecrets RequestSecrets
  | ReqConfirm ConfirmAction
  | ReqReset

record PromptReply =
  re_status :: PromptReplyStatus
  re_secret :: bytes
  re_userMessage :: string
  re_protocolVersion :: "u32 option"

record MultiPromptReply =
  mr_status :: PromptReplyStatus
  mr_primary :: bytes
  mr_secondary :: bytes
  mr_userMessage :: string
  mr_protocolVersion :: "u32 option"

record ConfirmReply =
  cr_status :: PromptReplyStatus
  cr_userMessage :: string
  cr_protocolVersion :: "u32 option"

record ResetDone =
  rd_closed :: u32

section \<open>Field readers\<close>

definition optText :: "cbor_map \<Rightarrow> string \<Rightarrow> string option" where
  "optText m k = (case sm_find m k of None \<Rightarrow> Some '''' | Some v \<Rightarrow> asText v)"

definition optUint :: "cbor_map \<Rightarrow> string \<Rightarrow> u64 option" where
  "optUint m k = (case sm_find m k of None \<Rightarrow> Some 0 | Some v \<Rightarrow> asUInt v)"

fun collectTexts :: "cbor list \<Rightarrow> string list option" where
  "collectTexts [] = Some []"
| "collectTexts (item # rest) =
     (case asText item of None \<Rightarrow> None
      | Some s \<Rightarrow> (case collectTexts rest of None \<Rightarrow> None | Some out \<Rightarrow> Some (s # out)))"

definition optStringArray :: "cbor_map \<Rightarrow> string \<Rightarrow> string list option" where
  "optStringArray m k =
     (case sm_find m k of None \<Rightarrow> Some []
      | Some v \<Rightarrow> (case asArray v of None \<Rightarrow> None | Some arr \<Rightarrow> collectTexts arr))"

definition emplaceVersion :: "cbor_map \<Rightarrow> cbor_map" where
  "emplaceVersion m = sm_emplace ''v'' (CUInt (widen64 kPrompterProtocolVersion)) m"

definition optAnnouncedVersion :: "cbor_map \<Rightarrow> (PrompterParseError, u64 option) expected" where
  "optAnnouncedVersion m =
     (case sm_find m ''v'' of None \<Rightarrow> Inr None
      | Some v \<Rightarrow> (case asUInt v of None \<Rightarrow> Inl WrongType | Some n \<Rightarrow> Inr (Some n)))"

definition optReplyVersion :: "cbor_map \<Rightarrow> (PrompterParseError, u32 option) expected" where
  "optReplyVersion m =
     (case optAnnouncedVersion m of
        Inl e \<Rightarrow> Inl e
      | Inr None \<Rightarrow> Inr None
      | Inr (Some n) \<Rightarrow> if n > 0xFFFFFFFF then Inl WrongType else Inr (Some (narrow32 n)))"

record DisplayFields =
  df_title :: string
  df_description :: string
  df_requester :: string
  df_artifact :: string

definition optDisplayFields :: "cbor_map \<Rightarrow> DisplayFields option" where
  "optDisplayFields m =
     (case (optText m ''title'', optText m ''description'', optText m ''requester'',
            optText m ''artifact'') of
        (Some t, Some d, Some r, Some a) \<Rightarrow>
          Some \<lparr>df_title = t, df_description = d, df_requester = r, df_artifact = a\<rparr>
      | _ \<Rightarrow> None)"

definition requiredSecret ::
    "prompter_vocab \<Rightarrow> cbor_map \<Rightarrow> string \<Rightarrow> (PrompterParseError, bytes) expected" where
  "requiredSecret voc m key =
     (case sm_find m key of None \<Rightarrow> Inl MissingField
      | Some v \<Rightarrow> (case asBytes v of None \<Rightarrow> Inl MissingField
         | Some b \<Rightarrow> if length b > kMaxSecretBytes voc then Inl SecretTooLarge else Inr b))"

text \<open>\<^verbatim>\<open>topMap\<close> answers the map and leaves the decoded tree in the caller's \<^verbatim>\<open>hold\<close>.\<close>

definition topMap ::
    "codec \<Rightarrow> bytes \<Rightarrow> (PrompterParseError, cbor_map) expected \<times> cbor option" where
  "topMap cd body =
     (case decode cd body of
        None \<Rightarrow> (Inl NotDecodable, None)
      | Some v \<Rightarrow> (case asMap v of None \<Rightarrow> (Inl NotAMap, Some v) | Some m \<Rightarrow> (Inr m, Some v)))"

section \<open>Encoders\<close>

text \<open>
  The recurring statement \<^verbatim>\<open>if (!x.empty()) m.emplace(key, CborValue(x))\<close>, and its
  counterpart for the 32-bit fields whose zero is spelled as absence.
\<close>

definition emplaceText :: "string \<Rightarrow> string \<Rightarrow> cbor_map \<Rightarrow> cbor_map" where
  "emplaceText k s m = (if s \<noteq> [] then sm_emplace k (CText s) m else m)"

definition emplaceUint :: "string \<Rightarrow> u32 \<Rightarrow> cbor_map \<Rightarrow> cbor_map" where
  "emplaceUint k n m = (if n \<noteq> 0 then sm_emplace k (CUInt (widen64 n)) m else m)"

definition emplaceTexts :: "string \<Rightarrow> string list \<Rightarrow> cbor_map \<Rightarrow> cbor_map" where
  "emplaceTexts k xs m = (if xs \<noteq> [] then sm_emplace k (CArray (map CText xs)) m else m)"

definition toCborPromptRequest :: "prompter_vocab \<Rightarrow> PromptRequest \<Rightarrow> cbor" where
  "toCborPromptRequest voc r =
     (let m = sm_emplace ''t'' (CText ''RequestSecret'') [];
          m = emplaceVersion m;
          m = sm_emplace ''kind'' (CText (kindToken voc (pr_kind r))) m;
          m = emplaceText ''title'' (pr_title r) m;
          m = emplaceText ''description'' (pr_description r) m;
          m = emplaceText ''requester'' (pr_requester r) m;
          m = emplaceText ''artifact'' (pr_artifact r) m;
          m = emplaceUint ''minLength'' (pr_minLength r) m;
          m = emplaceUint ''maxLength'' (pr_maxLength r) m;
          m = emplaceTexts ''artifacts'' (pr_artifacts r) m;
          m = emplaceUint ''attempt'' (pr_attempt r) m;
          m = emplaceText ''lastError'' (pr_lastError r) m;
          m = emplaceText ''promptId'' (pr_promptId r) m;
          m = emplaceUint ''deadlineMs'' (pr_deadlineMs r) m;
          m = emplaceUint ''altDeadlineMs'' (pr_altDeadlineMs r) m;
          m = emplaceText ''readerModel'' (pr_readerModel r) m;
          m = (if pr_readerInterface r \<noteq> [] \<and> pr_readerInterface r \<noteq> unknownInterface voc
               then sm_emplace ''readerInterface'' (CText (pr_readerInterface r)) m else m);
          m = emplaceText ''readerFull'' (pr_readerFull r) m
      in CMap m)"

definition toCborPromptCancel :: "PromptCancel \<Rightarrow> cbor" where
  "toCborPromptCancel r =
     (let m = sm_emplace ''t'' (CText ''CancelCurrent'') [];
          m = emplaceVersion m;
          m = emplaceText ''promptId'' (pc_promptId r) m
      in CMap m)"

definition toCborRequestSecrets :: "RequestSecrets \<Rightarrow> cbor" where
  "toCborRequestSecrets r =
     (let m = sm_emplace ''t'' (CText ''RequestSecrets'') [];
          m = emplaceVersion m;
          m = sm_emplace ''kind'' (CText (rs_kind r)) m;
          m = emplaceText ''title'' (rs_title r) m;
          m = emplaceText ''description'' (rs_description r) m;
          m = emplaceText ''requester'' (rs_requester r) m;
          m = emplaceText ''artifact'' (rs_artifact r) m;
          m = emplaceUint ''primaryMinLength'' (rs_primaryMinLength r) m;
          m = emplaceUint ''primaryMaxLength'' (rs_primaryMaxLength r) m;
          m = emplaceUint ''newMinLength'' (rs_newMinLength r) m;
          m = emplaceUint ''newMaxLength'' (rs_newMaxLength r) m;
          m = emplaceText ''promptId'' (rs_promptId r) m;
          m = emplaceUint ''deadlineMs'' (rs_deadlineMs r) m
      in CMap m)"

definition toCborConfirmAction :: "ConfirmAction \<Rightarrow> cbor" where
  "toCborConfirmAction r =
     (let m = sm_emplace ''t'' (CText ''ConfirmAction'') [];
          m = emplaceVersion m;
          m = sm_emplace ''kind'' (CText (ca_kind r)) m;
          m = emplaceText ''title'' (ca_title r) m;
          m = emplaceText ''description'' (ca_description r) m;
          m = emplaceText ''descriptionKey'' (ca_descriptionKey r) m;
          m = emplaceText ''requester'' (ca_requester r) m;
          m = emplaceText ''artifact'' (ca_artifact r) m
      in CMap m)"

definition toCborConfirmReply :: "prompter_vocab \<Rightarrow> ConfirmReply \<Rightarrow> cbor" where
  "toCborConfirmReply voc r =
     (let m = sm_emplace ''t'' (CText ''Confirm'') [];
          m = emplaceVersion m;
          m = sm_emplace ''status'' (CText (replyStatusToken voc (cr_status r))) m;
          m = emplaceText ''userMessage'' (cr_userMessage r) m
      in CMap m)"

definition toCborPromptReply :: "prompter_vocab \<Rightarrow> PromptReply \<Rightarrow> cbor" where
  "toCborPromptReply voc r =
     (let m = sm_emplace ''t'' (CText ''Secret'') [];
          m = emplaceVersion m;
          m = sm_emplace ''status'' (CText (replyStatusToken voc (re_status r))) m;
          m = (if re_status r = StOk then sm_emplace ''secret'' (CBytes (re_secret r)) m else m);
          m = emplaceText ''userMessage'' (re_userMessage r) m
      in CMap m)"

definition toCborPromptReset :: cbor where
  "toCborPromptReset =
     (let m = sm_emplace ''t'' (CText ''Reset'') [];
          m = emplaceVersion m
      in CMap m)"

definition toCborResetDone :: "ResetDone \<Rightarrow> cbor" where
  "toCborResetDone r =
     (let m = sm_emplace ''t'' (CText ''ResetDone'') [];
          m = emplaceVersion m;
          m = emplaceUint ''closed'' (rd_closed r) m
      in CMap m)"

definition toCborMultiPromptReply :: "prompter_vocab \<Rightarrow> MultiPromptReply \<Rightarrow> cbor" where
  "toCborMultiPromptReply voc r =
     (let m = sm_emplace ''t'' (CText ''Secrets'') [];
          m = emplaceVersion m;
          m = sm_emplace ''status'' (CText (replyStatusToken voc (mr_status r))) m;
          m = (if mr_status r = StOk
               then sm_emplace ''secondary'' (CBytes (mr_secondary r))
                      (sm_emplace ''primary'' (CBytes (mr_primary r)) m)
               else m);
          m = emplaceText ''userMessage'' (mr_userMessage r) m
      in CMap m)"

fun toCborRequest :: "prompter_vocab \<Rightarrow> PrompterRequest \<Rightarrow> cbor" where
  "toCborRequest voc (ReqPrompt r) = toCborPromptRequest voc r"
| "toCborRequest voc (ReqCancel r) = toCborPromptCancel r"
| "toCborRequest voc (ReqSecrets r) = toCborRequestSecrets r"
| "toCborRequest voc (ReqConfirm r) = toCborConfirmAction r"
| "toCborRequest voc ReqReset = toCborPromptReset"

section \<open>Request decoder\<close>

definition parseRequestSecrets :: "cbor_map \<Rightarrow> (PrompterParseError, PrompterRequest) expected" where
  "parseRequestSecrets m =
     try_bind (need MissingField (textAt m ''kind'')) (\<lambda>kind.
       (case (optDisplayFields m, optUint m ''primaryMinLength'', optUint m ''primaryMaxLength'',
              optUint m ''newMinLength'', optUint m ''newMaxLength'', optText m ''promptId'',
              optUint m ''deadlineMs'') of
          (Some display, Some priMin, Some priMax, Some newMin, Some newMax, Some promptId,
           Some deadline) \<Rightarrow>
            Inr (ReqSecrets
              \<lparr>rs_kind = kind, rs_title = df_title display, rs_description = df_description display,
               rs_requester = df_requester display, rs_artifact = df_artifact display,
               rs_primaryMinLength = narrow32 priMin, rs_primaryMaxLength = narrow32 priMax,
               rs_newMinLength = narrow32 newMin, rs_newMaxLength = narrow32 newMax,
               rs_promptId = promptId, rs_deadlineMs = narrow32 deadline\<rparr>)
        | _ \<Rightarrow> Inl WrongType))"

definition parseConfirmAction :: "cbor_map \<Rightarrow> (PrompterParseError, PrompterRequest) expected" where
  "parseConfirmAction m =
     try_bind (need MissingField (textAt m ''kind'')) (\<lambda>kind.
       (case (optDisplayFields m, optText m ''descriptionKey'') of
          (Some display, Some key) \<Rightarrow>
            Inr (ReqConfirm
              \<lparr>ca_kind = kind, ca_title = df_title display, ca_description = df_description display,
               ca_descriptionKey = key, ca_requester = df_requester display,
               ca_artifact = df_artifact display\<rparr>)
        | _ \<Rightarrow> Inl WrongType))"

definition parseRequestSecret ::
    "prompter_vocab \<Rightarrow> cbor_map \<Rightarrow> (PrompterParseError, PrompterRequest) expected" where
  "parseRequestSecret voc m =
     try_bind (need MissingField (textAt m ''kind'')) (\<lambda>kindStr.
     try_bind (need BadEnum (kindFromToken voc kindStr)) (\<lambda>kind.
       if kind = ChangePin then Inl BadEnum
       else
       (case (optDisplayFields m, optUint m ''minLength'', optUint m ''maxLength'',
              optStringArray m ''artifacts'', optUint m ''attempt'', optText m ''lastError'',
              optText m ''promptId'', optUint m ''deadlineMs'', optUint m ''altDeadlineMs'',
              optText m ''readerModel'', optText m ''readerInterface'', optText m ''readerFull'') of
          (Some display, Some minLen, Some maxLen, Some artifacts, Some attempt, Some lastError,
           Some promptId, Some deadline, Some altDeadline, Some readerModel, Some readerInterface,
           Some readerFull) \<Rightarrow>
            Inr (ReqPrompt
              \<lparr>pr_kind = kind, pr_title = df_title display, pr_description = df_description display,
               pr_requester = df_requester display, pr_artifact = df_artifact display,
               pr_minLength = narrow32 minLen, pr_maxLength = narrow32 maxLen,
               pr_artifacts = artifacts, pr_attempt = narrow32 attempt,
               pr_lastError = lastError, pr_promptId = promptId,
               pr_deadlineMs = narrow32 deadline, pr_altDeadlineMs = narrow32 altDeadline,
               pr_readerModel = readerModel, pr_readerInterface = readerInterface,
               pr_readerFull = readerFull\<rparr>)
        | _ \<Rightarrow> Inl WrongType)))"

definition parsePrompterRequest ::
    "prompter_vocab \<Rightarrow> codec \<Rightarrow> bytes \<Rightarrow> (PrompterParseError, PrompterRequest) expected" where
  "parsePrompterRequest voc cd body =
     try_bind (fst (topMap cd body)) (\<lambda>m.
     try_bind (optAnnouncedVersion m) (\<lambda>announced.
       if (case announced of None \<Rightarrow> 0 | Some n \<Rightarrow> n) > widen64 kPrompterProtocolVersion
       then Inl UnsupportedVersion
       else
     try_bind (need MissingField (textAt m ''t'')) (\<lambda>t.
       if t = ''Reset'' then Inr ReqReset
       else if t = ''CancelCurrent'' then
         (case optText m ''promptId'' of
            None \<Rightarrow> Inl WrongType
          | Some i \<Rightarrow> Inr (ReqCancel \<lparr>pc_promptId = i\<rparr>))
       else if t = ''RequestSecrets'' then parseRequestSecrets m
       else if t = ''ConfirmAction'' then parseConfirmAction m
       else if t \<noteq> ''RequestSecret'' then Inl UnknownMessage
       else parseRequestSecret voc m)))"

section \<open>Reply decoders\<close>

text \<open>
  A reply decoder also says what the secret-bearing objects it made hold when they die:
  the decoded tree, and each secret it copied out and did not hand to the caller.
\<close>

datatype residue = DeadTree cbor | DeadCopy bytes

text \<open>\<^verbatim>\<open>HoldScrub\<close>: constructed once the top-level map is in hand, it scrubs the tree on exit.\<close>

definition withHoldScrub ::
    "codec \<Rightarrow> bytes \<Rightarrow> (cbor_map \<Rightarrow> (PrompterParseError, 'r) expected \<times> residue list)
      \<Rightarrow> (PrompterParseError, 'r) expected \<times> residue list" where
  "withHoldScrub cd body f =
     (case topMap cd body of
        (Inl e, hold) \<Rightarrow> (Inl e, (case hold of None \<Rightarrow> [] | Some v \<Rightarrow> [DeadTree v]))
      | (Inr m, hold) \<Rightarrow>
          (fst (f m), snd (f m) @ (case hold of None \<Rightarrow> [] | Some v \<Rightarrow> [DeadTree (scrub cd v)])))"

definition replyStatusOf ::
    "prompter_vocab \<Rightarrow> cbor_map \<Rightarrow> (PrompterParseError, PromptReplyStatus) expected" where
  "replyStatusOf voc m =
     try_bind (need MissingField (textAt m ''status'')) (\<lambda>tok.
       need BadEnum (replyStatusFromToken voc tok))"

definition promptReplyOf ::
    "prompter_vocab \<Rightarrow> cbor_map \<Rightarrow> (PrompterParseError, PromptReply) expected \<times> residue list" where
  "promptReplyOf voc m =
     (case replyStatusOf voc m of Inl e \<Rightarrow> (Inl e, [])
      | Inr status \<Rightarrow>
     (case optReplyVersion m of Inl e \<Rightarrow> (Inl e, [])
      | Inr announced \<Rightarrow>
     (case (if status = StOk then requiredSecret voc m ''secret'' else Inr []) of Inl e \<Rightarrow> (Inl e, [])
      | Inr secret \<Rightarrow>
     (case optText m ''userMessage'' of
        None \<Rightarrow> (Inl WrongType, [DeadCopy (zeroed secret)])
      | Some msg \<Rightarrow>
          (Inr \<lparr>re_status = status, re_secret = secret, re_userMessage = msg,
                re_protocolVersion = announced\<rparr>, [])))))"

definition parsePromptReply ::
    "prompter_vocab \<Rightarrow> codec \<Rightarrow> bytes \<Rightarrow> (PrompterParseError, PromptReply) expected \<times> residue list" where
  "parsePromptReply voc cd body = withHoldScrub cd body (promptReplyOf voc)"

definition confirmReplyOf ::
    "prompter_vocab \<Rightarrow> cbor_map \<Rightarrow> (PrompterParseError, ConfirmReply) expected \<times> residue list" where
  "confirmReplyOf voc m =
     (if sm_find m ''secret'' \<noteq> None \<or> sm_find m ''primary'' \<noteq> None \<or> sm_find m ''secondary'' \<noteq> None
      then (Inl UnknownMessage, [])
      else
     (case replyStatusOf voc m of Inl e \<Rightarrow> (Inl e, [])
      | Inr status \<Rightarrow>
     (case optText m ''userMessage'' of None \<Rightarrow> (Inl WrongType, [])
      | Some msg \<Rightarrow>
     (case optReplyVersion m of Inl e \<Rightarrow> (Inl e, [])
      | Inr announced \<Rightarrow>
          (Inr \<lparr>cr_status = status, cr_userMessage = msg, cr_protocolVersion = announced\<rparr>, [])))))"

definition parseConfirmReply ::
    "prompter_vocab \<Rightarrow> codec \<Rightarrow> bytes \<Rightarrow> (PrompterParseError, ConfirmReply) expected \<times> residue list" where
  "parseConfirmReply voc cd body = withHoldScrub cd body (confirmReplyOf voc)"

definition resetDoneOf :: "cbor_map \<Rightarrow> (PrompterParseError, ResetDone) expected \<times> residue list" where
  "resetDoneOf m =
     (case textAt m ''t'' of None \<Rightarrow> (Inl MissingField, [])
      | Some t \<Rightarrow>
          if t \<noteq> ''ResetDone'' then (Inl UnknownMessage, [])
          else (case optUint m ''closed'' of None \<Rightarrow> (Inl WrongType, [])
                | Some n \<Rightarrow> (Inr \<lparr>rd_closed = narrow32 n\<rparr>, [])))"

definition parseResetDone ::
    "codec \<Rightarrow> bytes \<Rightarrow> (PrompterParseError, ResetDone) expected \<times> residue list" where
  "parseResetDone cd body = withHoldScrub cd body resetDoneOf"

definition multiPromptReplyOf ::
    "prompter_vocab \<Rightarrow> cbor_map \<Rightarrow> (PrompterParseError, MultiPromptReply) expected \<times> residue list" where
  "multiPromptReplyOf voc m =
     (case replyStatusOf voc m of Inl e \<Rightarrow> (Inl e, [])
      | Inr status \<Rightarrow>
     (case optReplyVersion m of Inl e \<Rightarrow> (Inl e, [])
      | Inr announced \<Rightarrow>
     (case (if status = StOk then requiredSecret voc m ''primary'' else Inr []) of Inl e \<Rightarrow> (Inl e, [])
      | Inr primary \<Rightarrow>
     (case (if status = StOk then requiredSecret voc m ''secondary'' else Inr []) of
        Inl e \<Rightarrow> (Inl e, [DeadCopy (zeroed primary)])
      | Inr secondary \<Rightarrow>
     (case optText m ''userMessage'' of
        None \<Rightarrow> (Inl WrongType, [DeadCopy (zeroed primary), DeadCopy (zeroed secondary)])
      | Some msg \<Rightarrow>
          (Inr \<lparr>mr_status = status, mr_primary = primary, mr_secondary = secondary,
                mr_userMessage = msg, mr_protocolVersion = announced\<rparr>, []))))))"

definition parseMultiPromptReply ::
    "prompter_vocab \<Rightarrow> codec \<Rightarrow> bytes
      \<Rightarrow> (PrompterParseError, MultiPromptReply) expected \<times> residue list" where
  "parseMultiPromptReply voc cd body = withHoldScrub cd body (multiPromptReplyOf voc)"

section \<open>Sending a reply\<close>

text \<open>
  What the environment does to one send: \<^verbatim>\<open>encode\<close> may throw (\<open>None\<close>), \<^verbatim>\<open>sendFrame\<close>
  may throw (\<open>None\<close>) or answer whether the frame went out. The outcome names the frame
  that was sent and the residue of the buffers this side created.
\<close>

record send_env =
  se_encode :: "cbor \<Rightarrow> bytes option"
  se_sendFrame :: "bytes \<Rightarrow> bool option"
  se_scrub :: "cbor \<Rightarrow> cbor"

definition sendReplyAndZeroWire :: "send_env \<Rightarrow> cbor \<Rightarrow> bytes option \<times> residue list" where
  "sendReplyAndZeroWire env msg =
     (case se_encode env msg of
        None \<Rightarrow> (None, [DeadTree msg])
      | Some body \<Rightarrow>
          (case se_sendFrame env body of
             None \<Rightarrow> (None, [DeadCopy body, DeadTree msg])
           | Some ok \<Rightarrow>
               ((if ok then Some body else None),
                [DeadCopy (zeroed body), DeadTree (se_scrub env msg)])))"

definition sendPromptReplyScrubbed ::
    "prompter_vocab \<Rightarrow> send_env \<Rightarrow> PromptReply \<Rightarrow> (bytes option \<times> residue list) \<times> PromptReply" where
  "sendPromptReplyScrubbed voc env reply =
     (sendReplyAndZeroWire env (toCborPromptReply voc reply),
      reply\<lparr>re_secret := zeroed (re_secret reply)\<rparr>)"

definition sendMultiPromptReplyScrubbed ::
    "prompter_vocab \<Rightarrow> send_env \<Rightarrow> MultiPromptReply
      \<Rightarrow> (bytes option \<times> residue list) \<times> MultiPromptReply" where
  "sendMultiPromptReplyScrubbed voc env reply =
     (sendReplyAndZeroWire env (toCborMultiPromptReply voc reply),
      reply\<lparr>mr_primary := zeroed (mr_primary reply), mr_secondary := zeroed (mr_secondary reply)\<rparr>)"

definition sendConfirmReply ::
    "prompter_vocab \<Rightarrow> send_env \<Rightarrow> ConfirmReply \<Rightarrow> bytes option \<times> residue list" where
  "sendConfirmReply voc env reply = sendReplyAndZeroWire env (toCborConfirmReply voc reply)"

definition sendResetDone :: "send_env \<Rightarrow> ResetDone \<Rightarrow> bytes option \<times> residue list" where
  "sendResetDone env reply = sendReplyAndZeroWire env (toCborResetDone reply)"

section \<open>Field lookups\<close>

lemma find_skip [simp]:
  "k' \<noteq> k \<Longrightarrow> sm_find (emplaceText k s m) k' = sm_find m k'"
  "k' \<noteq> k \<Longrightarrow> sm_find (emplaceUint k n m) k' = sm_find m k'"
  "k' \<noteq> k \<Longrightarrow> sm_find (emplaceTexts k xs m) k' = sm_find m k'"
  "k' \<noteq> k \<Longrightarrow> sm_find (sm_emplace k v m) k' = sm_find m k'"
  "k' \<noteq> ''v'' \<Longrightarrow> sm_find (emplaceVersion m) k' = sm_find m k'"
  by (simp_all add: emplaceText_def emplaceUint_def emplaceTexts_def emplaceVersion_def sm_find_emplace)

lemma find_same [simp]:
  "sm_find m k = None \<Longrightarrow> sm_find (sm_emplace k v m) k = Some v"
  "sm_find m ''v'' = None
    \<Longrightarrow> sm_find (emplaceVersion m) ''v'' = Some (CUInt (widen64 kPrompterProtocolVersion))"
  by (simp_all add: emplaceVersion_def sm_find_emplace)

lemma reader_cong:
  "sm_find m k = sm_find m' k \<Longrightarrow> textAt m k = textAt m' k"
  "sm_find m k = sm_find m' k \<Longrightarrow> optText m k = optText m' k"
  "sm_find m k = sm_find m' k \<Longrightarrow> optUint m k = optUint m' k"
  "sm_find m k = sm_find m' k \<Longrightarrow> optStringArray m k = optStringArray m' k"
  by (simp_all add: textAt_def optText_def optUint_def optStringArray_def)

lemma collectTexts_map [simp]: "collectTexts (map CText xs) = Some xs"
  by (induction xs) auto

text \<open>What a reader gets back of the field an encoder put, whether or not it was spelled out.\<close>

lemma optText_emplaceText [simp]: "sm_find m k = None \<Longrightarrow> optText (emplaceText k s m) k = Some s"
  by (simp add: optText_def emplaceText_def)

lemma optUint_emplaceUint [simp]:
  "sm_find m k = None \<Longrightarrow> optUint (emplaceUint k n m) k = Some (widen64 n)"
  by (simp add: optUint_def emplaceUint_def) (simp add: widen64_def)

lemma optStringArray_emplaceTexts [simp]:
  "sm_find m k = None \<Longrightarrow> optStringArray (emplaceTexts k xs m) k = Some xs"
  by (simp add: optStringArray_def emplaceTexts_def)

lemma optText_absent [simp]: "sm_find m k = None \<Longrightarrow> optText m k = Some []"
  by (simp add: optText_def)

lemma optText_skip [simp]:
  "k' \<noteq> k \<Longrightarrow> optText (emplaceText k s m) k' = optText m k'"
  "k' \<noteq> k \<Longrightarrow> optText (emplaceUint k n m) k' = optText m k'"
  "k' \<noteq> k \<Longrightarrow> optText (emplaceTexts k xs m) k' = optText m k'"
  "k' \<noteq> k \<Longrightarrow> optText (sm_emplace k v m) k' = optText m k'"
  by (auto intro: reader_cong)

lemma optUint_skip [simp]:
  "k' \<noteq> k \<Longrightarrow> optUint (emplaceText k s m) k' = optUint m k'"
  "k' \<noteq> k \<Longrightarrow> optUint (emplaceUint k n m) k' = optUint m k'"
  "k' \<noteq> k \<Longrightarrow> optUint (emplaceTexts k xs m) k' = optUint m k'"
  "k' \<noteq> k \<Longrightarrow> optUint (sm_emplace k v m) k' = optUint m k'"
  by (auto intro: reader_cong)

lemma optStringArray_skip [simp]:
  "k' \<noteq> k \<Longrightarrow> optStringArray (emplaceText k s m) k' = optStringArray m k'"
  "k' \<noteq> k \<Longrightarrow> optStringArray (emplaceUint k n m) k' = optStringArray m k'"
  "k' \<noteq> k \<Longrightarrow> optStringArray (sm_emplace k v m) k' = optStringArray m k'"
  by (auto intro: reader_cong)

lemma textAt_skip [simp]:
  "k' \<noteq> k \<Longrightarrow> textAt (emplaceText k s m) k' = textAt m k'"
  "k' \<noteq> k \<Longrightarrow> textAt (emplaceUint k n m) k' = textAt m k'"
  "k' \<noteq> k \<Longrightarrow> textAt (emplaceTexts k xs m) k' = textAt m k'"
  "k' \<noteq> ''v'' \<Longrightarrow> textAt (emplaceVersion m) k' = textAt m k'"
  by (auto intro: reader_cong)

section \<open>Round trips\<close>

text \<open>
  The prompter vocabulary's words are read back as what they spell. \<open>wireForm\<close> is the one
  thing a request loses on the wire: an interface the agent could not determine is spelled
  as absence.
\<close>

definition vocab_ok :: "prompter_vocab \<Rightarrow> bool" where
  "vocab_ok voc \<longleftrightarrow>
     list_all (\<lambda>k. kindFromToken voc (kindToken voc k) = Some k) [Pin, Can, Mrz, ChangePin] \<and>
     list_all (\<lambda>s. replyStatusFromToken voc (replyStatusToken voc s) = Some s)
       [StOk, StOkMrz, StCancelled, StTimeout, StError, StUnauthorized]"

fun wireForm :: "prompter_vocab \<Rightarrow> PrompterRequest \<Rightarrow> PrompterRequest" where
  "wireForm voc (ReqPrompt r) =
     ReqPrompt (if pr_readerInterface r = unknownInterface voc then r\<lparr>pr_readerInterface := []\<rparr> else r)"
| "wireForm voc q = q"

fun singleSecret :: "PrompterRequest \<Rightarrow> bool" where
  "singleSecret (ReqPrompt r) = (pr_kind r \<noteq> ChangePin)"
| "singleSecret q = True"

lemma vocab_kind: "vocab_ok voc \<Longrightarrow> kindFromToken voc (kindToken voc k) = Some k"
  by (cases k) (auto simp: vocab_ok_def)

lemma vocab_status: "vocab_ok voc \<Longrightarrow> replyStatusFromToken voc (replyStatusToken voc s) = Some s"
  by (cases s) (auto simp: vocab_ok_def)

lemma announced_own [simp]:
  "sm_find m ''v'' = Some (CUInt (widen64 kPrompterProtocolVersion))
    \<Longrightarrow> optAnnouncedVersion m = Inr (Some (widen64 kPrompterProtocolVersion))"
  by (simp add: optAnnouncedVersion_def)

lemma replyVersion_own [simp]:
  "sm_find m ''v'' = Some (CUInt (widen64 kPrompterProtocolVersion))
    \<Longrightarrow> optReplyVersion m = Inr (Some kPrompterProtocolVersion)"
  by (simp add: optReplyVersion_def) (simp add: widen64_def kPrompterProtocolVersion_def)

lemmas request_parse = parsePrompterRequest_def topMap_def parseRequestSecret_def
  parseRequestSecrets_def parseConfirmAction_def optDisplayFields_def

lemma emplace_interface:
  "(if s \<noteq> [] \<and> s \<noteq> u then sm_emplace k (CText s) m else m)
     = emplaceText k (if s = u then [] else s) m"
  by (simp add: emplaceText_def)

lemma roundtrip_prompt:
  assumes "decode cd body = Some (toCborPromptRequest voc r)" "vocab_ok voc" "pr_kind r \<noteq> ChangePin"
  shows "parsePrompterRequest voc cd body = Inr (wireForm voc (ReqPrompt r))"
  using assms
  by (simp add: request_parse toCborPromptRequest_def Let_def vocab_kind emplace_interface
        del: fun_upd_apply)

lemma roundtrip_cancel:
  assumes "decode cd body = Some (toCborPromptCancel r)"
  shows "parsePrompterRequest voc cd body = Inr (ReqCancel r)"
  using assms by (simp add: request_parse toCborPromptCancel_def Let_def)

lemma roundtrip_secrets:
  assumes "decode cd body = Some (toCborRequestSecrets r)"
  shows "parsePrompterRequest voc cd body = Inr (ReqSecrets r)"
  using assms by (simp add: request_parse toCborRequestSecrets_def Let_def)

lemma roundtrip_confirm:
  assumes "decode cd body = Some (toCborConfirmAction r)"
  shows "parsePrompterRequest voc cd body = Inr (ReqConfirm r)"
  using assms by (simp add: request_parse toCborConfirmAction_def Let_def)

lemma roundtrip_reset:
  assumes "decode cd body = Some toCborPromptReset"
  shows "parsePrompterRequest voc cd body = Inr ReqReset"
  using assms by (simp add: request_parse toCborPromptReset_def Let_def)

text \<open>The replies. A status other than Ok spells no secret, so the struct's own is not read back.\<close>

definition replyWire :: "PromptReply \<Rightarrow> PromptReply" where
  "replyWire r = r\<lparr>re_secret := (if re_status r = StOk then re_secret r else []),
                  re_protocolVersion := Some kPrompterProtocolVersion\<rparr>"

definition multiWire :: "MultiPromptReply \<Rightarrow> MultiPromptReply" where
  "multiWire r = r\<lparr>mr_primary := (if mr_status r = StOk then mr_primary r else []),
                  mr_secondary := (if mr_status r = StOk then mr_secondary r else []),
                  mr_protocolVersion := Some kPrompterProtocolVersion\<rparr>"

lemmas reply_parse = withHoldScrub_def topMap_def replyStatusOf_def requiredSecret_def

lemma roundtrip_reply:
  assumes "decode cd body = Some (toCborPromptReply voc r)" "vocab_ok voc"
    and "length (re_secret r) \<le> kMaxSecretBytes voc"
  shows "fst (parsePromptReply voc cd body) = Inr (replyWire r)"
  using assms
  by (simp add: parsePromptReply_def promptReplyOf_def reply_parse toCborPromptReply_def Let_def
        vocab_status replyWire_def)

lemma roundtrip_multi:
  assumes "decode cd body = Some (toCborMultiPromptReply voc r)" "vocab_ok voc"
    and "length (mr_primary r) \<le> kMaxSecretBytes voc" "length (mr_secondary r) \<le> kMaxSecretBytes voc"
  shows "fst (parseMultiPromptReply voc cd body) = Inr (multiWire r)"
  using assms
  by (simp add: parseMultiPromptReply_def multiPromptReplyOf_def reply_parse toCborMultiPromptReply_def
        Let_def vocab_status multiWire_def)

lemma roundtrip_confirmReply:
  assumes "decode cd body = Some (toCborConfirmReply voc r)" "vocab_ok voc"
  shows "fst (parseConfirmReply voc cd body)
           = Inr (r\<lparr>cr_protocolVersion := Some kPrompterProtocolVersion\<rparr>)"
  using assms
  by (simp add: parseConfirmReply_def confirmReplyOf_def reply_parse toCborConfirmReply_def
        Let_def vocab_status)

lemma roundtrip_resetDone:
  assumes "decode cd body = Some (toCborResetDone r)"
  shows "fst (parseResetDone cd body) = Inr r"
  using assms by (simp add: parseResetDone_def resetDoneOf_def reply_parse toCborResetDone_def Let_def)

section \<open>The codec interface\<close>

text \<open>
  What each message of the protocol promises its two ends: a body that decodes to the
  encoder's tree is parsed as the message, up to what the wire form drops. Hence two
  messages the wire does not tell apart are the same message.
\<close>

locale message_codec =
  fixes toC :: "'m \<Rightarrow> cbor"
    and parse :: "codec \<Rightarrow> bytes \<Rightarrow> (PrompterParseError, 'm) expected"
    and wire :: "'m \<Rightarrow> 'm"
    and wf :: "'m \<Rightarrow> bool"
  assumes parse_toC: "decode cd body = Some (toC r) \<Longrightarrow> wf r \<Longrightarrow> parse cd body = Inr (wire r)"
begin

lemma toC_inj: "wf r \<Longrightarrow> wf r' \<Longrightarrow> toC r = toC r' \<Longrightarrow> wire r = wire r'"
  using parse_toC [of "\<lparr>decode = \<lambda>_. Some (toC r), scrub = id\<rparr>" "[]" r]
    parse_toC [of "\<lparr>decode = \<lambda>_. Some (toC r), scrub = id\<rparr>" "[]" r'] by simp

end

lemma roundtrip_request:
  assumes "decode cd body = Some (toCborRequest voc q)" "vocab_ok voc" "singleSecret q"
  shows "parsePrompterRequest voc cd body = Inr (wireForm voc q)"
  using assms
  by (cases q) (simp_all add: roundtrip_prompt roundtrip_cancel roundtrip_secrets
      roundtrip_confirm roundtrip_reset)

interpretation request_codec:
  message_codec "toCborRequest voc" "parsePrompterRequest voc" "wireForm voc"
    "\<lambda>q. vocab_ok voc \<and> singleSecret q" for voc
  by unfold_locales (simp add: roundtrip_request)

interpretation reply_codec:
  message_codec "toCborPromptReply voc" "\<lambda>cd body. fst (parsePromptReply voc cd body)" replyWire
    "\<lambda>r. vocab_ok voc \<and> length (re_secret r) \<le> kMaxSecretBytes voc" for voc
  by unfold_locales (simp add: roundtrip_reply)

interpretation multi_codec:
  message_codec "toCborMultiPromptReply voc" "\<lambda>cd body. fst (parseMultiPromptReply voc cd body)" multiWire
    "\<lambda>r. vocab_ok voc \<and> length (mr_primary r) \<le> kMaxSecretBytes voc
          \<and> length (mr_secondary r) \<le> kMaxSecretBytes voc" for voc
  by unfold_locales (simp add: roundtrip_multi)

interpretation confirm_codec:
  message_codec "toCborConfirmReply voc" "\<lambda>cd body. fst (parseConfirmReply voc cd body)"
    "\<lambda>r. r\<lparr>cr_protocolVersion := Some kPrompterProtocolVersion\<rparr>" "\<lambda>_. vocab_ok voc" for voc
  by unfold_locales (simp add: roundtrip_confirmReply)

interpretation reset_codec:
  message_codec toCborResetDone "\<lambda>cd body. fst (parseResetDone cd body)" id "\<lambda>_. True"
  by unfold_locales (simp add: roundtrip_resetDone)

section \<open>Properties\<close>

text \<open>A vocabulary and a codec to evaluate the properties at.\<close>

definition demoVocab :: prompter_vocab where
  "demoVocab =
     \<lparr>kindToken = (\<lambda>k. case k of Pin \<Rightarrow> ''pin'' | Can \<Rightarrow> ''can'' | Mrz \<Rightarrow> ''mrz'' | ChangePin \<Rightarrow> ''change_pin''),
      kindFromToken = (\<lambda>s. if s = ''pin'' then Some Pin else if s = ''can'' then Some Can
         else if s = ''mrz'' then Some Mrz else if s = ''change_pin'' then Some ChangePin else None),
      replyStatusToken = (\<lambda>st. case st of StOk \<Rightarrow> ''ok'' | StOkMrz \<Rightarrow> ''ok_mrz'' | StCancelled \<Rightarrow> ''cancelled''
         | StTimeout \<Rightarrow> ''timeout'' | StError \<Rightarrow> ''error'' | StUnauthorized \<Rightarrow> ''unauthorized''),
      replyStatusFromToken = (\<lambda>s. if s = ''ok'' then Some StOk else if s = ''ok_mrz'' then Some StOkMrz
         else if s = ''cancelled'' then Some StCancelled else if s = ''timeout'' then Some StTimeout
         else if s = ''error'' then Some StError else if s = ''unauthorized'' then Some StUnauthorized
         else None),
      unknownInterface = ''unknown'',
      kMaxSecretBytes = 4096\<rparr>"

definition constCodec :: "cbor \<Rightarrow> codec" where
  "constCodec v = \<lparr>decode = (\<lambda>_. Some v), scrub = (\<lambda>_. COther 0)\<rparr>"

lemma demoVocab_ok: "vocab_ok demoVocab"
  by (simp add: vocab_ok_def demoVocab_def)

lemma decode_constCodec [simp]: "decode (constCodec v) body = Some v"
  by (simp add: constCodec_def)

text \<open>
  C30: every request the agent can encode is parsed by the prompter as the same request,
  whichever of the five messages it is, except that an undetermined reader interface is
  read as no interface at all.
\<close>
theorem request_roundtrip:
  assumes "decode cd body = Some (toCborRequest voc q)" and "vocab_ok voc" and "singleSecret q"
  shows "parsePrompterRequest voc cd body = Inr (wireForm voc q)"
  using assms request_codec.parse_toC by blast

definition demoPrompt :: PromptRequest where
  "demoPrompt =
     \<lparr>pr_kind = Can, pr_title = ''Read card'', pr_description = [], pr_requester = ''app'',
      pr_artifact = [], pr_minLength = 6, pr_maxLength = 6, pr_artifacts = [''a.pdf'', ''b.pdf''],
      pr_attempt = 2, pr_lastError = ''pace'', pr_promptId = ''p1'', pr_deadlineMs = 60000,
      pr_altDeadlineMs = 0, pr_readerModel = ''OMNIKEY'', pr_readerInterface = ''unknown'',
      pr_readerFull = ''OMNIKEY 5422''\<rparr>"

theorem request_roundtrip_witness:
  "parsePrompterRequest demoVocab (constCodec (toCborRequest demoVocab (ReqPrompt demoPrompt))) [1]
     = Inr (ReqPrompt (demoPrompt\<lparr>pr_readerInterface := []\<rparr>))"
  using request_roundtrip [OF decode_constCodec demoVocab_ok, of "ReqPrompt demoPrompt" "[1]"]
  by (simp add: demoPrompt_def demoVocab_def)

text \<open>
  A request that announces a protocol newer than this build's is refused by name,
  whatever its tag and its other fields are, and the comparison is made at the full width
  of the announced number.
\<close>
lemma newer_request_refused:
  assumes "decode cd body = Some (CMap m)" and "sm_find m ''v'' = Some (CUInt n)"
    and "unat n > unat kPrompterProtocolVersion"
  shows "parsePrompterRequest voc cd body = Inl UnsupportedVersion"
  using assms
  by (simp add: parsePrompterRequest_def topMap_def optAnnouncedVersion_def word_less_nat_alt)

text \<open>
  A single-secret request the prompter accepts asks for a PIN, a CAN or an MRZ; the
  PIN pair never travels as one secret.
\<close>
lemma accepted_kind_single:
  assumes "parsePrompterRequest voc cd body = Inr (ReqPrompt r)"
  shows "pr_kind r \<in> {Pin, Can, Mrz}"
proof -
  obtain m where "parseRequestSecret voc m = Inr (ReqPrompt r)"
    using assms
    by (auto simp: parsePrompterRequest_def parseRequestSecrets_def parseConfirmAction_def
        try_bind_Inr_iff split: if_splits option.splits)
  then have "pr_kind r \<noteq> ChangePin"
    by (auto simp: parseRequestSecret_def try_bind_Inr_iff split: if_splits option.splits)
  then show ?thesis by (cases "pr_kind r") auto
qed

text \<open>
  C39: the 32-bit fields of an accepted request are the low 32 bits of what the peer sent:
  a deadline of 2^32 milliseconds is accepted and read as no deadline at all.
\<close>
theorem deadline_narrowed:
  assumes "parsePrompterRequest voc cd body = Inr (ReqPrompt r)"
    and "decode cd body = Some (CMap m)" and "sm_find m ''deadlineMs'' = Some (CUInt n)"
  shows "unat (pr_deadlineMs r) = unat n mod 2 ^ 32"
proof -
  have "parseRequestSecret voc m = Inr (ReqPrompt r)"
    using assms(1,2)
    by (auto simp: parsePrompterRequest_def topMap_def parseRequestSecrets_def parseConfirmAction_def
        try_bind_Inr_iff split: if_splits option.splits)
  then show ?thesis
    using assms(3)
    by (auto simp: parseRequestSecret_def try_bind_Inr_iff optUint_def unat_narrow32
        split: if_splits option.splits)
qed

definition wideDeadline :: cbor_map where
  "wideDeadline = [(''deadlineMs'', CUInt 0x100000000), (''kind'', CText ''pin''),
     (''t'', CText ''RequestSecret''), (''v'', CUInt 2)]"

theorem deadline_narrowed_witness:
  "\<exists>r. parsePrompterRequest demoVocab (constCodec (CMap wideDeadline)) [] = Inr (ReqPrompt r)
       \<and> unat (pr_deadlineMs r) = 0"
proof -
  let ?r = "\<lparr>pr_kind = Pin, pr_title = [], pr_description = [], pr_requester = [],
      pr_artifact = [], pr_minLength = 0, pr_maxLength = 0, pr_artifacts = [],
      pr_attempt = 0, pr_lastError = [], pr_promptId = [], pr_deadlineMs = 0,
      pr_altDeadlineMs = 0, pr_readerModel = [], pr_readerInterface = [], pr_readerFull = []\<rparr>"
  have parsed: "parsePrompterRequest demoVocab (constCodec (CMap wideDeadline)) [] = Inr (ReqPrompt ?r)"
    by (simp add: request_parse wideDeadline_def demoVocab_def optAnnouncedVersion_def textAt_def
        optText_def optUint_def optStringArray_def kPrompterProtocolVersion_def widen64_def narrow32_def)
  have "unat (pr_deadlineMs ?r) = unat (0x100000000 :: u64) mod 2 ^ 32" (is "?lhs = _")
    by (rule deadline_narrowed [OF parsed decode_constCodec]) (simp add: wideDeadline_def)
  then have "?lhs = 0" by simp
  with parsed show ?thesis by blast
qed

text \<open>
  A reply the agent accepts carries a secret only under the status Ok, and none longer
  than the prompter vocabulary's bound; a helper's announced version is taken only if it
  fits the 32 bits of the reply.
\<close>
lemma accepted_reply_secret:
  assumes "fst (parsePromptReply voc cd body) = Inr r"
  shows "length (re_secret r) \<le> kMaxSecretBytes voc \<and> (re_status r \<noteq> StOk \<longrightarrow> re_secret r = [])"
  using assms
  by (auto simp: parsePromptReply_def promptReplyOf_def withHoldScrub_def requiredSecret_def
      split: sum.splits option.splits prod.splits if_splits)

definition demoReply :: PromptReply where
  "demoReply = \<lparr>re_status = StOk, re_secret = [0x31, 0x32, 0x33, 0x34], re_userMessage = [],
                re_protocolVersion = Some 2\<rparr>"

text \<open>
  Both secrets of an accepted PIN-change reply are within the bound, and neither is
  taken unless the status is Ok.
\<close>
lemma accepted_multi_secrets:
  assumes "fst (parseMultiPromptReply voc cd body) = Inr r"
  shows "length (mr_primary r) \<le> kMaxSecretBytes voc \<and> length (mr_secondary r) \<le> kMaxSecretBytes voc
       \<and> (mr_status r \<noteq> StOk \<longrightarrow> mr_primary r = [] \<and> mr_secondary r = [])"
  using assms
  by (auto simp: parseMultiPromptReply_def multiPromptReplyOf_def withHoldScrub_def requiredSecret_def
      split: sum.splits option.splits prod.splits if_splits)

definition demoMulti :: MultiPromptReply where
  "demoMulti = \<lparr>mr_status = StOk, mr_primary = [1, 2], mr_secondary = [3, 4, 5],
                mr_userMessage = [], mr_protocolVersion = Some 2\<rparr>"

text \<open>
  A confirmation cannot transport a secret: a decoded message with a secret field is
  refused, whatever its status says, and so never becomes a verdict.
\<close>
lemma confirm_with_secret_refused:
  assumes "decode cd body = Some (CMap m)" and "k \<in> {''secret'', ''primary'', ''secondary''}"
    and "sm_find m k = Some v"
  shows "fst (parseConfirmReply voc cd body) = Inl UnknownMessage"
  using assms by (auto simp: parseConfirmReply_def confirmReplyOf_def withHoldScrub_def topMap_def)

text \<open>A dead buffer is clean when it is the scrubbed tree or a zeroed copy.\<close>

fun cleanResidue :: "codec \<Rightarrow> cbor \<Rightarrow> residue \<Rightarrow> bool" where
  "cleanResidue cd tree (DeadTree v) = (v = scrub cd tree)"
| "cleanResidue cd tree (DeadCopy b) = all_zero b"

lemma withHoldScrub_clean:
  assumes "decode cd body = Some (CMap m)" and "\<And>m. list_all (cleanResidue cd (CMap m)) (snd (f m))"
  shows "list_all (cleanResidue cd (CMap m)) (snd (withHoldScrub cd body f))
       \<and> DeadTree (scrub cd (CMap m)) \<in> set (snd (withHoldScrub cd body f))"
  using assms by (simp add: withHoldScrub_def topMap_def)

lemma reply_residue_clean:
  "list_all (cleanResidue cd t) (snd (promptReplyOf voc m))"
  "list_all (cleanResidue cd t) (snd (multiPromptReplyOf voc m))"
  "list_all (cleanResidue cd t) (snd (confirmReplyOf voc m))"
  "list_all (cleanResidue cd t) (snd (resetDoneOf m))"
  by (simp_all add: promptReplyOf_def multiPromptReplyOf_def confirmReplyOf_def resetDoneOf_def
      split: sum.splits option.splits)

text \<open>
  Once a reply body decoded to a map, every exit of the four reply decoders, refusals
  included, leaves the decoded tree scrubbed and every secret copied out and not returned
  overwritten with zeros.
\<close>
lemma reply_decoders_scrub:
  assumes "decode cd body = Some (CMap m)"
  shows "list_all (cleanResidue cd (CMap m)) (snd (parsePromptReply voc cd body))
       \<and> list_all (cleanResidue cd (CMap m)) (snd (parseMultiPromptReply voc cd body))
       \<and> list_all (cleanResidue cd (CMap m)) (snd (parseConfirmReply voc cd body))
       \<and> list_all (cleanResidue cd (CMap m)) (snd (parseResetDone cd body))"
  using assms
  by (simp add: parsePromptReply_def parseMultiPromptReply_def parseConfirmReply_def parseResetDone_def
      withHoldScrub_clean reply_residue_clean)

text \<open>
  A reply body that decodes to something other than a map is refused with its tree
  left as it was decoded: the guard that scrubs it is set up only after that refusal.
\<close>
lemma non_map_reply_unscrubbed:
  assumes "decode cd body = Some v" and "asMap v = None"
  shows "parsePromptReply voc cd body = (Inl NotAMap, [DeadTree v])
       \<and> parseMultiPromptReply voc cd body = (Inl NotAMap, [DeadTree v])"
  using assms by (simp add: parsePromptReply_def parseMultiPromptReply_def withHoldScrub_def topMap_def)

text \<open>
  Sending a secret-bearing reply always overwrites the secrets of the reply struct, and
  when neither the encoder nor the frame writer throws, it also zeroes the encoded body and
  scrubs the tree, whether or not the frame went out.
\<close>
lemma send_scrubs:
  assumes "se_encode env (toCborPromptReply voc r) = Some body" and "se_sendFrame env body = Some ok"
  shows "sendPromptReplyScrubbed voc env r =
     (((if ok then Some body else None),
       [DeadCopy (zeroed body), DeadTree (se_scrub env (toCborPromptReply voc r))]),
      r\<lparr>re_secret := zeroed (re_secret r)\<rparr>)"
  using assms by (simp add: sendPromptReplyScrubbed_def sendReplyAndZeroWire_def)

text \<open>
  When the frame writer throws after the body was encoded, the handler swallows the
  exception and neither the encoded body nor the tree is overwritten, although both hold
  the secret; only the reply struct is.
\<close>
lemma send_throw_leaves_wire:
  assumes "se_encode env (toCborPromptReply voc r) = Some body" and "se_sendFrame env body = None"
  shows "sendPromptReplyScrubbed voc env r =
     ((None, [DeadCopy body, DeadTree (toCborPromptReply voc r)]), r\<lparr>re_secret := zeroed (re_secret r)\<rparr>)"
  using assms by (simp add: sendPromptReplyScrubbed_def sendReplyAndZeroWire_def)

end
