(* ===== verification/Frontend_World.thy ===== *)
theory Frontend_World
  imports Presence Sign_Options Authorizer Prompter_Protocol
begin

text \<open>
  The vocabulary of the inbound dispatcher, \<^verbatim>\<open>agent/src/backend/SocketFrontend.cpp\<close>: the requests
  and replies of the agent wire, the state a handler works on, and the guards the handlers share.
  A handler is a function on the \<open>world\<close>, which holds the frontend's own maps, the presence registry of the transport, the state of the agent core and
  a trace of the calls made, in order: authorizations, rate-limit charges, file reads, launches,
  configuration writes and replies. The agent core and the signature vocabulary are code of the
  agent library: arguments (\<open>agent_lib\<close>) over an opaque core state. The shared guards of the
  handlers (card and capability, authorization, rate limit, document read) are written once, with
  the rest of the handler as their continuation. Numbers stand for opaque values this host passes on:
  file descriptors, credential snapshots, mechanisms, layouts.
\<close>

section \<open>Messages\<close>

record batch_entry =
  be_fdIndex :: nat
  be_name :: string

datatype 'box request_body =
    Hello nat bool
  | GetState
  | ReadIdentity string
  | GetPhoto string
  | ReadCertificates string
  | ReadTokenInfo string
  | Sign string string nat "'box SignOpts"
  | SignBatch string string "batch_entry list" "'box SignOpts"
  | ListCredentials string
  | ManagePin string string string "bool option"
  | ActivateSigningKey string
  | GetCertDer string string
  | GetConfig
  | SetConfig string cbor
  | ResetConfig string
  | CancelOp nat
  | GetSignResult nat
  | PkLogin string
  | PkLogout string
  | PkLoginState string
  | PkPublicKey string string
  | PkSignRaw string string string bytes
  | PkDecrypt string string string bytes
  | PkDerive string string bytes
  | LayoutVisual string 'box
  | GetAppearanceFont
  | ImportCscaMasterList nat

record 'box Inbound =
  in_connId :: nat
  in_req :: nat
  in_caller :: string
  in_fds :: "nat list"
  in_body :: "'box request_body"

record CscaAnchorState =
  an_anchors :: nat
  an_issuers :: nat
  an_replayRefusalActive :: bool
  an_signer :: string
  an_signerPinned :: bool
  an_acceptedAt :: int
  an_signedAt :: "int option"

record CscaAnchorStateReply =
  ar_anchors :: nat
  ar_issuers :: nat
  ar_replayRefusalActive :: bool
  ar_signer :: "string option"
  ar_signerPinned :: bool
  ar_acceptedAt :: int
  ar_signedAt :: "int option"

record AcceptedSigner =
  as_fingerprint :: bytes
  as_signedAt :: "int option"
  as_identityEstablished :: bool

record AnchorState =
  im_anchorCount :: nat
  im_issuerCount :: nat
  im_replayRefusalActive :: bool
  im_signers :: "AcceptedSigner list"
  im_everyPublisherEstablished :: bool
  im_acceptedAt :: int

datatype ImportRefusal =
  Replayed | CacheNotWritable | NotAMasterList | EmptyList | Malformed | BadSignature | SignerChanged

record TslSource =
  ts_url :: string
  ts_isLotl :: bool
  ts_eager :: bool

datatype config_change =
    SetDefaultLevel string
  | SetDefaultReason string
  | SetDefaultLocation string
  | SetTsaUrls "string list"
  | SetTslSources "TslSource list"

record config_view =
  cv_sign :: sign_config
  cv_lastTsaUrl :: string
  cv_tslSources :: "TslSource list"
  cv_tslCacheDir :: string
  cv_cscaAnchorState :: "CscaAnchorState option"

datatype Mutability = FileOnly | ReadOnly | DbusMutable | DbusMutableTrust

datatype read_result = ReadBytes bytes | NotRegular | TooLarge | ReadFailed

record SignMeta =
  sm_format :: string
  sm_level :: string
  sm_tsaUsed :: bool
  sm_chainComplete :: bool

record SignedArtifact =
  sa_bytes :: bytes
  sa_meta :: SignMeta

record SignRecord =
  sg_artifact :: SignedArtifact
  sg_owner :: string

record PinManageRequest =
  pm_cardKey :: string
  pm_pinId :: string
  pm_verb :: string
  pm_activateKey :: bool

record OperationTarget =
  tg_readerId :: nat
  tg_readerName :: string
  tg_cardKey :: string
  tg_caller :: string
  tg_requester :: string

record 'box SignParams =
  sp_certId :: string
  sp_inputDocument :: bytes
  sp_format :: string
  sp_level :: string
  sp_packaging :: string
  sp_allowExpired :: bool
  sp_displayName :: string
  sp_reason :: string
  sp_location :: string
  sp_tsaUrl :: string
  sp_visual :: "'box VisualParams option"

record BatchDocumentInput =
  bd_displayName :: string
  bd_bytes :: bytes

datatype 'box job =
    JobReadIdentity string
  | JobGetPhoto string
  | JobReadCertificates
  | JobReadTokenInfo
  | JobSign "'box SignParams"
  | JobSignBatch "'box SignParams" "BatchDocumentInput list"
  | JobListCredentials
  | JobManagePin PinManageRequest nat
  | JobActivateSigningKey

datatype public_key = RsaPublicKey bytes bytes | EcPublicKey string bytes bytes

record broker_caller =
  bc_caller :: string
  bc_requester :: string

datatype broker_call =
    BkCertDer string string broker_caller
  | BkPublicKey string string broker_caller
  | BkLogin string broker_caller
  | BkSignRaw string string nat bytes broker_caller
  | BkDecrypt string string nat bytes broker_caller
  | BkDerive string string bytes broker_caller

datatype reply =
    HelloAck string "string list"
  | StateOf StateReply
  | LayoutReply nat
  | AppearanceFontReply nat
  | OpStarted nat
  | AckReply
  | SignResult nat SignMeta
  | ConfigReply cbor_map
  | AnchorStateReply CscaAnchorStateReply
  | CertDerReply bytes
  | PublicKeyReply public_key
  | LoginStateReply bool
  | RawSignatureReply bytes
  | DerivedSecretReply bytes
  | ErrReply SyncError

text \<open>What is left to do once a person approved, and the confirmation it waits for.\<close>

datatype pending_apply = ApplyWrite string cbor | ApplyReset string | ApplyImport nat

record ask =
  ak_connId :: nat
  ak_req :: nat
  ak_caller :: string
  ak_action :: ConfirmAction
  ak_apply :: pending_apply

section \<open>World\<close>

datatype 'box fx =
    Send nat nat reply "bytes list"
  | SendThenClose nat nat reply
  | Wants nat bool
  | Authorized string string
  | Charged string
  | ReadFile nat
  | Launched OperationTarget "'box job"
  | CancelledOp nat
  | ConfigSet config_change
  | ConfigResetKey string
  | Imported bytes
  | RecordedAnchors CscaAnchorState
  | BrokerCalled nat nat broker_call
  | LoggedOut string broker_caller
  | Asked ask
  | Answered ask PromptReplyStatus

record ('core, 'box) world =
  w_opOwners :: "(nat, string) smap"
  w_signResults :: "(nat, SignRecord) smap"
  w_confirmsInFlight :: "(string, unit) smap"
  w_alive :: bool
  w_quiesced :: bool
  w_asked :: "ask list"
  w_continuations :: "(ask \<times> PromptReplyStatus) list"
  w_presence :: presence
  w_core :: 'core
  w_trace :: "'box fx list"

record ('core, 'cred, 'box) agent_lib =
  al_sign :: "'box sign_lib"
  al_actions :: action_ids
  al_protocolVersion :: nat
  al_version :: string
  al_features :: "string list"
  al_identityCapBit :: u32
  al_pkiCapBit :: u32
  al_pinManagementCapBit :: u32
  al_authorize :: "string \<Rightarrow> string \<Rightarrow> AuthorizationOutcome"
  al_allow :: "string \<Rightarrow> 'core \<Rightarrow> bool \<times> 'core"
  al_launch :: "OperationTarget \<Rightarrow> 'box job \<Rightarrow> 'core \<Rightarrow> (SyncError + nat) \<times> 'core"
  al_cancelOperation :: "nat \<Rightarrow> 'core \<Rightarrow> 'core"
  al_readBoundedRegularFd :: "nat \<Rightarrow> nat \<Rightarrow> read_result"
  al_maxInputBytes :: nat
  al_maxMasterListBytes :: nat
  al_isValidBatchDocumentCount :: "nat \<Rightarrow> bool"
  al_snapshot :: "string \<Rightarrow> 'core \<Rightarrow> nat option"
  al_validatePinManageRequest :: "PinManageRequest \<Rightarrow> nat option \<Rightarrow> SyncError option"
  al_sanitizeLabel :: "string \<Rightarrow> string"
  al_credentials :: "string \<Rightarrow> 'cred option"
  al_signingId :: "'cred \<Rightarrow> string option"
  al_label :: "'cred \<Rightarrow> string"
  al_isValidLayoutRect :: "'box \<Rightarrow> bool"
  al_layout :: "string \<Rightarrow> 'box \<Rightarrow> nat"
  al_appearanceFontBytes :: bytes
  al_anonFd :: "bytes \<Rightarrow> bool"
  al_mutability :: "string \<Rightarrow> Mutability option"
  al_setConfig :: "config_change \<Rightarrow> 'core \<Rightarrow> bool \<times> 'core"
  al_resetKey :: "string \<Rightarrow> 'core \<Rightarrow> bool \<times> 'core"
  al_config :: "'core \<Rightarrow> config_view"
  al_importMasterList :: "bytes \<Rightarrow> 'core \<Rightarrow> (ImportRefusal + AnchorState) \<times> 'core"
  al_recordAnchors :: "CscaAnchorState \<Rightarrow> 'core \<Rightarrow> 'core"
  al_toHex :: "bytes \<Rightarrow> string"
  al_encodeAnchorState :: "CscaAnchorStateReply \<Rightarrow> cbor"
  al_signMechanism :: "string \<Rightarrow> nat option"
  al_decryptMechanism :: "string \<Rightarrow> nat option"
  al_broker :: "broker_call \<Rightarrow> 'core \<Rightarrow> 'core"
  al_logout :: "string \<Rightarrow> broker_caller \<Rightarrow> 'core \<Rightarrow> 'core"
  al_loginActive :: "string \<Rightarrow> broker_caller \<Rightarrow> 'core \<Rightarrow> bool"

section \<open>Replies and guards\<close>

definition emit :: "'box fx \<Rightarrow> ('core, 'box) world \<Rightarrow> ('core, 'box) world" where
  "emit e w = w\<lparr>w_trace := w_trace w @ [e]\<rparr>"

definition sendReply :: "nat \<Rightarrow> nat \<Rightarrow> reply \<Rightarrow> ('core, 'box) world \<Rightarrow> ('core, 'box) world" where
  "sendReply connId req r w = emit (Send connId req r []) w"

definition replyError :: "nat \<Rightarrow> nat \<Rightarrow> SyncError \<Rightarrow> ('core, 'box) world \<Rightarrow> ('core, 'box) world" where
  "replyError connId req e w = sendReply connId req (ErrReply e) w"

definition requesterLabelFor :: "(string \<Rightarrow> string) \<Rightarrow> string option \<Rightarrow> string \<Rightarrow> string" where
  "requesterLabelFor sanitize signingId fallback =
     (case signingId of
        None \<Rightarrow> sanitize fallback
      | Some s \<Rightarrow> if s = [] then sanitize fallback else sanitize s)"

definition requesterLabel :: "('core, 'cred, 'box) agent_lib \<Rightarrow> string \<Rightarrow> string" where
  "requesterLabel lib caller =
     (case al_credentials lib caller of
        None \<Rightarrow> []
      | Some creds \<Rightarrow> requesterLabelFor (al_sanitizeLabel lib) (al_signingId lib creds) (al_label lib creds))"

text \<open>The card and capability gate of the card operations.\<close>

definition withCard ::
    "nat \<Rightarrow> nat \<Rightarrow> string \<Rightarrow> u32 \<Rightarrow> (CardRouting \<Rightarrow> ('core, 'box) world \<Rightarrow> ('core, 'box) world)
       \<Rightarrow> ('core, 'box) world \<Rightarrow> ('core, 'box) world" where
  "withCard connId req handle capBit k w =
     (case cardRouting handle (w_presence w) of
        None \<Rightarrow> replyError connId req UnknownCard w
      | Some routing \<Rightarrow>
          if and (ro_caps routing) capBit = 0 then replyError connId req UnsupportedOnThisCard w
          else k routing w)"

definition withAuthorization ::
    "('core, 'cred, 'box) agent_lib \<Rightarrow> nat \<Rightarrow> nat \<Rightarrow> string \<Rightarrow> string
       \<Rightarrow> (('core, 'box) world \<Rightarrow> ('core, 'box) world) \<Rightarrow> ('core, 'box) world \<Rightarrow> ('core, 'box) world" where
  "withAuthorization lib connId req act caller k w =
     (let w1 = emit (Authorized act caller) w
      in case al_authorize lib act caller of
           Granted \<Rightarrow> k w1
         | Denied \<Rightarrow> replyError connId req NotAuthorized w1
         | Undecided \<Rightarrow> replyError connId req CommunicationError w1)"

definition withRateLimit ::
    "('core, 'cred, 'box) agent_lib \<Rightarrow> nat \<Rightarrow> nat \<Rightarrow> string
       \<Rightarrow> (('core, 'box) world \<Rightarrow> ('core, 'box) world) \<Rightarrow> ('core, 'box) world \<Rightarrow> ('core, 'box) world" where
  "withRateLimit lib connId req caller k w =
     (case al_allow lib caller (w_core w) of
        (ok, c) \<Rightarrow>
          let w1 = emit (Charged caller) (w\<lparr>w_core := c\<rparr>)
          in if ok then k w1 else replyError connId req RateLimited w1)"

text \<open>The document of a Sign, or of one entry of a batch: bounded, regular and not empty.\<close>

definition withDocument ::
    "('core, 'cred, 'box) agent_lib \<Rightarrow> nat \<Rightarrow> nat \<Rightarrow> nat list \<Rightarrow> nat
       \<Rightarrow> (bytes \<Rightarrow> ('core, 'box) world \<Rightarrow> ('core, 'box) world) \<Rightarrow> ('core, 'box) world \<Rightarrow> ('core, 'box) world" where
  "withDocument lib connId req fds idx k w =
     (if idx \<ge> length fds then replyError connId req UnsupportedSignatureParameter w
      else
        let w1 = emit (ReadFile (fds ! idx)) w
        in case al_readBoundedRegularFd lib (fds ! idx) (al_maxInputBytes lib) of
             NotRegular \<Rightarrow> replyError connId req UnsupportedSignatureParameter w1
           | TooLarge \<Rightarrow> replyError connId req InputTooLarge w1
           | ReadFailed \<Rightarrow> replyError connId req CommunicationError w1
           | ReadBytes b \<Rightarrow>
               if b = [] then replyError connId req UnsupportedSignatureParameter w1 else k b w1)"

definition operationTarget ::
    "('core, 'cred, 'box) agent_lib \<Rightarrow> CardRouting \<Rightarrow> string \<Rightarrow> OperationTarget" where
  "operationTarget lib routing caller =
     \<lparr>tg_readerId = ro_readerId routing, tg_readerName = ro_readerName routing,
      tg_cardKey = ro_cardKey routing, tg_caller = caller, tg_requester = requesterLabel lib caller\<rparr>"

definition replyLaunched ::
    "nat \<Rightarrow> nat \<Rightarrow> string \<Rightarrow> SyncError + nat \<Rightarrow> ('core, 'box) world \<Rightarrow> ('core, 'box) world" where
  "replyLaunched connId req caller launched w =
     (case launched of
        Inl e \<Rightarrow> replyError connId req e w
      | Inr opId \<Rightarrow>
          sendReply connId req (OpStarted opId) (w\<lparr>w_opOwners := sm_put opId caller (w_opOwners w)\<rparr>))"

text \<open>The launch on the core, the call every card operation ends with.\<close>

definition launch ::
    "('core, 'cred, 'box) agent_lib \<Rightarrow> nat \<Rightarrow> nat \<Rightarrow> CardRouting \<Rightarrow> string \<Rightarrow> 'box job
       \<Rightarrow> ('core, 'box) world \<Rightarrow> ('core, 'box) world" where
  "launch lib connId req routing caller job w =
     (let target = operationTarget lib routing caller
      in case al_launch lib target job (w_core w) of
           (launched, c) \<Rightarrow>
             replyLaunched connId req caller launched (emit (Launched target job) (w\<lparr>w_core := c\<rparr>)))"

section \<open>An agent core to evaluate at\<close>

text \<open>A core whose state is the number of charges it allows, over a vocabulary that accepts one card.\<close>

definition demoAgent :: "(nat, nat, nat) agent_lib" where
  "demoAgent =
     \<lparr>al_sign = demoSignLib, al_actions = demoActions, al_protocolVersion = 1, al_version = ''1.0'',
      al_features = [''sign''], al_identityCapBit = 1, al_pkiCapBit = 2, al_pinManagementCapBit = 4,
      al_authorize = (\<lambda>act caller. if caller = ''conn:1'' then Granted else Denied),
      al_allow = (\<lambda>caller n. (0 < n, n - 1)),
      al_launch = (\<lambda>target job n. (Inr 7, n)), al_cancelOperation = (\<lambda>op n. n),
      al_readBoundedRegularFd = (\<lambda>fd cap. ReadBytes [1, 2, 3]), al_maxInputBytes = 1000, al_maxMasterListBytes = 1000,
      al_isValidBatchDocumentCount = (\<lambda>n. 0 < n), al_snapshot = (\<lambda>key n. Some 0),
      al_validatePinManageRequest = (\<lambda>r s. None), al_sanitizeLabel = (\<lambda>s. s),
      al_credentials = (\<lambda>c. Some 501), al_signingId = (\<lambda>c. Some ''org.app''), al_label = (\<lambda>c. ''app''),
      al_isValidLayoutRect = (\<lambda>b. 0 < b), al_layout = (\<lambda>s b. b), al_appearanceFontBytes = [9],
      al_anonFd = (\<lambda>b. True),
      al_mutability = (\<lambda>k. if k = ''TsaUrls'' \<or> k = ''TslSources'' then Some DbusMutableTrust
                         else if k = ''DefaultReason'' then Some DbusMutable else None),
      al_setConfig = (\<lambda>c n. (True, n)), al_resetKey = (\<lambda>k n. (True, n)),
      al_config = (\<lambda>n. \<lparr>cv_sign = demoSignConfig, cv_lastTsaUrl = [], cv_tslSources = [], cv_tslCacheDir = [],
                        cv_cscaAnchorState = None\<rparr>),
      al_importMasterList = (\<lambda>b n. (Inl Replayed, n)), al_recordAnchors = (\<lambda>a n. n), al_toHex = (\<lambda>b. ''aa''),
      al_encodeAnchorState = (\<lambda>a. CMap []), al_signMechanism = (\<lambda>m. Some 1), al_decryptMechanism = (\<lambda>m. Some 2),
      al_broker = (\<lambda>c n. n), al_logout = (\<lambda>r c n. n), al_loginActive = (\<lambda>r c n. False)\<rparr>"

definition demoRouting :: CardRouting where
  "demoRouting = \<lparr>ro_cardId = 20, ro_readerId = 10, ro_readerName = ''ACME'', ro_cardKey = ''20'', ro_caps = 7, ro_preAuth = 0\<rparr>"

definition demoWorld :: "(nat, nat) world" where
  "demoWorld = \<lparr>w_opOwners = [], w_signResults = [], w_confirmsInFlight = [], w_alive = True, w_quiesced = False,
     w_asked = [], w_continuations = [], w_presence = presenceInit\<lparr>p_cardRouting := [(''obj/2'', demoRouting)]\<rparr>,
     w_core = 3, w_trace = []\<rparr>"

end
