(* ===== verification/Frontend.thy ===== *)
theory Frontend
  imports Frontend_World
begin

text \<open>
  The request handlers of \<^verbatim>\<open>agent/src/backend/SocketFrontend.cpp\<close> and their dispatch, in the order
  of the source, with the sign recovery store and the ownership of operations; the confirmation of
  a trust change is continued in \<open>Trust_Gate\<close>.
\<close>

section \<open>Session, layout and font\<close>

definition handleHello ::
    "('core, 'cred, 'box) agent_lib \<Rightarrow> nat \<Rightarrow> nat \<Rightarrow> nat \<Rightarrow> bool \<Rightarrow> ('core, 'box) world \<Rightarrow> ('core, 'box) world" where
  "handleHello lib connId req proto wantsEvents w =
     (if proto \<noteq> al_protocolVersion lib then emit (SendThenClose connId req (ErrReply UnsupportedProtocol)) w
      else sendReply connId req (HelloAck (al_version lib) (al_features lib)) (emit (Wants connId wantsEvents) w))"

definition handleGetState :: "nat \<Rightarrow> nat \<Rightarrow> ('core, 'box) world \<Rightarrow> ('core, 'box) world" where
  "handleGetState connId req w = sendReply connId req (StateOf (currentState (w_presence w))) w"

definition handleLayoutVisual ::
    "('core, 'cred, 'box) agent_lib \<Rightarrow> nat \<Rightarrow> nat \<Rightarrow> string \<Rightarrow> 'box \<Rightarrow> ('core, 'box) world \<Rightarrow> ('core, 'box) world" where
  "handleLayoutVisual lib connId req txt box w =
     (if \<not> al_isValidLayoutRect lib box then replyError connId req InvalidRequest w
      else sendReply connId req (LayoutReply (al_layout lib txt box)) w)"

definition handleGetAppearanceFont ::
    "('core, 'cred, 'box) agent_lib \<Rightarrow> nat \<Rightarrow> nat \<Rightarrow> ('core, 'box) world \<Rightarrow> ('core, 'box) world" where
  "handleGetAppearanceFont lib connId req w =
     (if \<not> al_anonFd lib (al_appearanceFontBytes lib) then replyError connId req CommunicationError w
      else emit (Send connId req (AppearanceFontReply 0) [al_appearanceFontBytes lib]) w)"

section \<open>Reads of a card\<close>

definition handleReadIdentity ::
    "('core, 'cred, 'box) agent_lib \<Rightarrow> 'box Inbound \<Rightarrow> string \<Rightarrow> ('core, 'box) world \<Rightarrow> ('core, 'box) world" where
  "handleReadIdentity lib inb handle =
     withCard (in_connId inb) (in_req inb) handle (al_identityCapBit lib) (\<lambda>routing.
       launch lib (in_connId inb) (in_req inb) routing (in_caller inb) (JobReadIdentity handle))"

definition handleGetPhoto ::
    "('core, 'cred, 'box) agent_lib \<Rightarrow> 'box Inbound \<Rightarrow> string \<Rightarrow> ('core, 'box) world \<Rightarrow> ('core, 'box) world" where
  "handleGetPhoto lib inb handle =
     withCard (in_connId inb) (in_req inb) handle (al_identityCapBit lib) (\<lambda>routing.
       launch lib (in_connId inb) (in_req inb) routing (in_caller inb) (JobGetPhoto handle))"

definition handleReadCertificates ::
    "('core, 'cred, 'box) agent_lib \<Rightarrow> 'box Inbound \<Rightarrow> string \<Rightarrow> ('core, 'box) world \<Rightarrow> ('core, 'box) world" where
  "handleReadCertificates lib inb handle =
     withCard (in_connId inb) (in_req inb) handle (al_pkiCapBit lib) (\<lambda>routing.
       launch lib (in_connId inb) (in_req inb) routing (in_caller inb) JobReadCertificates)"

definition handleReadTokenInfo ::
    "('core, 'cred, 'box) agent_lib \<Rightarrow> 'box Inbound \<Rightarrow> string \<Rightarrow> ('core, 'box) world \<Rightarrow> ('core, 'box) world" where
  "handleReadTokenInfo lib inb handle =
     withCard (in_connId inb) (in_req inb) handle (al_pkiCapBit lib) (\<lambda>routing.
       launch lib (in_connId inb) (in_req inb) routing (in_caller inb) JobReadTokenInfo)"

section \<open>Signing\<close>

definition signParams ::
    "string \<Rightarrow> bytes \<Rightarrow> string \<Rightarrow> 'box ResolvedSignOptions \<Rightarrow> 'box SignParams" where
  "signParams cert doc displayName r =
     \<lparr>sp_certId = cert, sp_inputDocument = doc, sp_format = ro_format r, sp_level = ro_level r,
      sp_packaging = ro_packaging r, sp_allowExpired = ro_allowExpired r, sp_displayName = displayName,
      sp_reason = ro_reason r, sp_location = ro_location r, sp_tsaUrl = valueOr (ro_tsaUrl r) [],
      sp_visual = ro_visual r\<rparr>"

definition withSignOptions ::
    "('core, 'cred, 'box) agent_lib \<Rightarrow> nat \<Rightarrow> nat \<Rightarrow> 'box SignOpts \<Rightarrow> bytes
       \<Rightarrow> ('box ResolvedSignOptions \<Rightarrow> ('core, 'box) world \<Rightarrow> ('core, 'box) world)
       \<Rightarrow> ('core, 'box) world \<Rightarrow> ('core, 'box) world" where
  "withSignOptions lib connId req opts src k w =
     (case resolveSignOptions (al_sign lib) opts src (cv_sign (al_config lib (w_core w))) of
        Inl e \<Rightarrow> replyError connId req e w
      | Inr r \<Rightarrow> k r w)"

definition withCert ::
    "nat \<Rightarrow> nat \<Rightarrow> string \<Rightarrow> (('core, 'box) world \<Rightarrow> ('core, 'box) world) \<Rightarrow> ('core, 'box) world \<Rightarrow> ('core, 'box) world" where
  "withCert connId req cert k w =
     (if cert = [] then replyError connId req UnsupportedSignatureParameter w else k w)"

definition handleSign ::
    "('core, 'cred, 'box) agent_lib \<Rightarrow> 'box Inbound \<Rightarrow> string \<Rightarrow> string \<Rightarrow> nat \<Rightarrow> 'box SignOpts
       \<Rightarrow> ('core, 'box) world \<Rightarrow> ('core, 'box) world" where
  "handleSign lib inb handle cert inFd opts =
     (let connId = in_connId inb; req = in_req inb; caller = in_caller inb
      in withCard connId req handle (al_pkiCapBit lib) (\<lambda>routing.
         withCert connId req cert (
         withAuthorization lib connId req (kActionSign (al_actions lib)) caller (
         withRateLimit lib connId req caller (
         withDocument lib connId req (in_fds inb) inFd (\<lambda>doc.
         withSignOptions lib connId req opts doc (\<lambda>r.
           launch lib connId req routing caller
             (JobSign (signParams cert doc (al_sanitizeLabel lib (valueOr (so_displayName opts) [])) r)))))))))"

text \<open>The loop over the documents of a batch: the first bad one ends the call.\<close>

fun readDocuments ::
    "('core, 'cred, 'box) agent_lib \<Rightarrow> nat \<Rightarrow> nat \<Rightarrow> nat list \<Rightarrow> batch_entry list \<Rightarrow> BatchDocumentInput list
       \<Rightarrow> (BatchDocumentInput list \<Rightarrow> ('core, 'box) world \<Rightarrow> ('core, 'box) world)
       \<Rightarrow> ('core, 'box) world \<Rightarrow> ('core, 'box) world" where
  "readDocuments lib connId req fds [] inputs k = k inputs"
| "readDocuments lib connId req fds (entry # docs) inputs k =
     withDocument lib connId req fds (be_fdIndex entry) (\<lambda>doc.
       readDocuments lib connId req fds docs
         (inputs @ [\<lparr>bd_displayName = al_sanitizeLabel lib (be_name entry), bd_bytes = doc\<rparr>]) k)"

definition handleSignBatch ::
    "('core, 'cred, 'box) agent_lib \<Rightarrow> 'box Inbound \<Rightarrow> string \<Rightarrow> string \<Rightarrow> batch_entry list \<Rightarrow> 'box SignOpts
       \<Rightarrow> ('core, 'box) world \<Rightarrow> ('core, 'box) world" where
  "handleSignBatch lib inb handle cert docs opts =
     (let connId = in_connId inb; req = in_req inb; caller = in_caller inb
      in withCard connId req handle (al_pkiCapBit lib) (\<lambda>routing.
         withCert connId req cert (
         withAuthorization lib connId req (kActionSign (al_actions lib)) caller (
         withRateLimit lib connId req caller (\<lambda>w.
           if \<not> al_isValidBatchDocumentCount lib (length docs) then replyError connId req InvalidRequest w
           else
             readDocuments lib connId req (in_fds inb) docs [] (\<lambda>inputs.
             withSignOptions lib connId req opts (bd_bytes (hd inputs)) (\<lambda>r.
               launch lib connId req routing caller
                 (JobSignBatch (signParams cert [] [] r) inputs))) w)))))"

section \<open>Credentials\<close>

definition handleListCredentials ::
    "('core, 'cred, 'box) agent_lib \<Rightarrow> 'box Inbound \<Rightarrow> string \<Rightarrow> ('core, 'box) world \<Rightarrow> ('core, 'box) world" where
  "handleListCredentials lib inb handle =
     withCard (in_connId inb) (in_req inb) handle (al_pinManagementCapBit lib) (\<lambda>routing.
       launch lib (in_connId inb) (in_req inb) routing (in_caller inb) JobListCredentials)"

definition kVerbActivatePin :: string where
  "kVerbActivatePin = ''activate_pin''"

definition handleManagePin ::
    "('core, 'cred, 'box) agent_lib \<Rightarrow> 'box Inbound \<Rightarrow> string \<Rightarrow> string \<Rightarrow> string \<Rightarrow> bool option
       \<Rightarrow> ('core, 'box) world \<Rightarrow> ('core, 'box) world" where
  "handleManagePin lib inb handle pinId verb activateKey =
     (let connId = in_connId inb; req = in_req inb; caller = in_caller inb
      in withCard connId req handle (al_pinManagementCapBit lib) (\<lambda>routing.
         withAuthorization lib connId req (kActionCredentialsManage (al_actions lib)) caller (
         withRateLimit lib connId req caller (\<lambda>w.
           if activateKey \<noteq> None \<and> verb \<noteq> kVerbActivatePin then replyError connId req InvalidRequest w
           else
             let request = \<lparr>pm_cardKey = ro_cardKey routing, pm_pinId = pinId, pm_verb = verb,
                            pm_activateKey = valueOr activateKey False\<rparr>;
                 snapshot = al_snapshot lib (ro_cardKey routing) (w_core w)
             in case al_validatePinManageRequest lib request snapshot of
                  Some e \<Rightarrow> replyError connId req e w
                | None \<Rightarrow> launch lib connId req routing caller (JobManagePin request (the snapshot)) w))))"

definition handleActivateSigningKey ::
    "('core, 'cred, 'box) agent_lib \<Rightarrow> 'box Inbound \<Rightarrow> string \<Rightarrow> ('core, 'box) world \<Rightarrow> ('core, 'box) world" where
  "handleActivateSigningKey lib inb handle =
     (let connId = in_connId inb; req = in_req inb; caller = in_caller inb
      in withCard connId req handle (al_pinManagementCapBit lib) (\<lambda>routing.
         withAuthorization lib connId req (kActionCredentialsManage (al_actions lib)) caller (
         withRateLimit lib connId req caller (
           launch lib connId req routing caller JobActivateSigningKey))))"

section \<open>Owned operations and recovery\<close>

definition handleCancel ::
    "('core, 'cred, 'box) agent_lib \<Rightarrow> nat \<Rightarrow> nat \<Rightarrow> nat \<Rightarrow> string \<Rightarrow> ('core, 'box) world \<Rightarrow> ('core, 'box) world" where
  "handleCancel lib connId req opId caller w =
     sendReply connId req AckReply
       (if sm_find (w_opOwners w) opId = Some caller
        then emit (CancelledOp opId) (w\<lparr>w_core := al_cancelOperation lib opId (w_core w)\<rparr>) else w)"

definition stashSignArtifact ::
    "nat \<Rightarrow> string \<Rightarrow> SignedArtifact \<Rightarrow> ('core, 'box) world \<Rightarrow> ('core, 'box) world" where
  "stashSignArtifact opId owner artifact w =
     w\<lparr>w_signResults := sm_put opId \<lparr>sg_artifact = artifact, sg_owner = owner\<rparr> (w_signResults w)\<rparr>"

definition evictSignResult :: "nat \<Rightarrow> ('core, 'box) world \<Rightarrow> ('core, 'box) world" where
  "evictSignResult opId w = w\<lparr>w_signResults := sm_erase opId (w_signResults w)\<rparr>"

definition opFinished :: "nat \<Rightarrow> ('core, 'box) world \<Rightarrow> ('core, 'box) world" where
  "opFinished opId w = w\<lparr>w_opOwners := sm_erase opId (w_opOwners w)\<rparr>"

definition handleGetSignResult ::
    "('core, 'cred, 'box) agent_lib \<Rightarrow> nat \<Rightarrow> nat \<Rightarrow> nat \<Rightarrow> string \<Rightarrow> ('core, 'box) world \<Rightarrow> ('core, 'box) world" where
  "handleGetSignResult lib connId req opId caller w =
     (case sm_find (w_signResults w) opId of
        None \<Rightarrow> replyError connId req NoResult w
      | Some rec \<Rightarrow>
          if sg_owner rec \<noteq> caller then replyError connId req NoResult w
          else if \<not> al_anonFd lib (sa_bytes (sg_artifact rec)) then replyError connId req CommunicationError w
          else emit (Send connId req (SignResult 0 (sa_meta (sg_artifact rec))) [sa_bytes (sg_artifact rec)]) w)"

definition onFrontendClientDisconnected :: "string \<Rightarrow> ('core, 'box) world \<Rightarrow> ('core, 'box) world" where
  "onFrontendClientDisconnected caller w =
     w\<lparr>w_opOwners := sm_erase_if (\<lambda>kv. snd kv = caller) (w_opOwners w),
       w_signResults := sm_erase_if (\<lambda>kv. sg_owner (snd kv) = caller) (w_signResults w),
       w_confirmsInFlight := sm_erase caller (w_confirmsInFlight w)\<rparr>"

section \<open>Configuration\<close>

definition toAnchorStateReply :: "CscaAnchorState \<Rightarrow> CscaAnchorStateReply" where
  "toAnchorStateReply a =
     \<lparr>ar_anchors = an_anchors a, ar_issuers = an_issuers a,
      ar_replayRefusalActive = an_replayRefusalActive a,
      ar_signer = (if an_signer a = [] then None else Some (an_signer a)),
      ar_signerPinned = an_signerPinned a, ar_acceptedAt = an_acceptedAt a, ar_signedAt = an_signedAt a\<rparr>"

definition anchorStateEntry :: "('core, 'cred, 'box) agent_lib \<Rightarrow> CscaAnchorState option \<Rightarrow> cbor" where
  "anchorStateEntry lib held =
     (case held of None \<Rightarrow> CMap [] | Some a \<Rightarrow> al_encodeAnchorState lib (toAnchorStateReply a))"

definition tslSourceEntry :: "TslSource \<Rightarrow> cbor" where
  "tslSourceEntry s =
     CMap (sm_emplace ''eager'' (CBool (ts_eager s)) (sm_emplace ''isLotl'' (CBool (ts_isLotl s))
       (sm_emplace ''url'' (CText (ts_url s)) [])))"

definition configEntries :: "('core, 'cred, 'box) agent_lib \<Rightarrow> config_view \<Rightarrow> cbor_map" where
  "configEntries lib cfg =
     (let m = sm_emplace ''DefaultLevel'' (CText (sc_defaultLevel (cv_sign cfg))) [];
          m = sm_emplace ''TsaUrls'' (CArray (map CText (sc_tsaUrls (cv_sign cfg)))) m;
          m = sm_emplace ''LastTsaUrl'' (CText (cv_lastTsaUrl cfg)) m;
          m = sm_emplace ''TslSources'' (CArray (map tslSourceEntry (cv_tslSources cfg))) m;
          m = sm_emplace ''TslCacheDir'' (CText (cv_tslCacheDir cfg)) m;
          m = sm_emplace ''DefaultReason'' (CText (sc_defaultReason (cv_sign cfg))) m;
          m = sm_emplace ''DefaultLocation'' (CText (sc_defaultLocation (cv_sign cfg))) m
      in sm_emplace ''CscaAnchorState'' (anchorStateEntry lib (cv_cscaAnchorState cfg)) m)"

definition handleGetConfig ::
    "('core, 'cred, 'box) agent_lib \<Rightarrow> nat \<Rightarrow> nat \<Rightarrow> ('core, 'box) world \<Rightarrow> ('core, 'box) world" where
  "handleGetConfig lib connId req w =
     sendReply connId req (ConfigReply (configEntries lib (al_config lib (w_core w)))) w"

definition asString :: "cbor \<Rightarrow> string option" where
  "asString v = asText v"

definition boolField :: "cbor_map \<Rightarrow> string \<Rightarrow> bool" where
  "boolField m k = (case sm_find m k of None \<Rightarrow> False | Some v \<Rightarrow> valueOr (asBool v) False)"

fun decodeTslSources :: "cbor list \<Rightarrow> TslSource list option" where
  "decodeTslSources [] = Some []"
| "decodeTslSources (e # es) =
     (case asMap e of
        None \<Rightarrow> None
      | Some m \<Rightarrow>
          (case sm_find m ''url'' of
             None \<Rightarrow> None
           | Some v \<Rightarrow>
               (case asText v of
                  None \<Rightarrow> None
                | Some url \<Rightarrow>
                    map_option (\<lambda>out. \<lparr>ts_url = url, ts_isLotl = boolField m ''isLotl'',
                                       ts_eager = boolField m ''eager''\<rparr> # out)
                      (decodeTslSources es))))"

text \<open>The cascade over the keys: the change to make, or the error to answer.\<close>

definition decodeChange :: "string \<Rightarrow> cbor \<Rightarrow> (SyncError, config_change) expected" where
  "decodeChange key value =
     (if key = ''DefaultLevel'' then try_bind (need InvalidConfigValue (asString value)) (\<lambda>v. Inr (SetDefaultLevel v))
      else if key = ''DefaultReason'' then
        try_bind (need InvalidConfigValue (asString value)) (\<lambda>v. Inr (SetDefaultReason v))
      else if key = ''DefaultLocation'' then
        try_bind (need InvalidConfigValue (asString value)) (\<lambda>v. Inr (SetDefaultLocation v))
      else if key = ''TsaUrls'' then
        try_bind (need InvalidConfigValue (asArray value)) (\<lambda>arr.
          try_bind (need InvalidConfigValue (collectTexts arr)) (\<lambda>urls. Inr (SetTsaUrls urls)))
      else if key = ''TslSources'' then
        try_bind (need InvalidConfigValue (asArray value)) (\<lambda>arr.
          try_bind (need InvalidConfigValue (decodeTslSources arr)) (\<lambda>sources. Inr (SetTslSources sources)))
      else Inl UnknownConfigKey)"

definition applyConfigWrite ::
    "('core, 'cred, 'box) agent_lib \<Rightarrow> nat \<Rightarrow> nat \<Rightarrow> string \<Rightarrow> cbor \<Rightarrow> ('core, 'box) world \<Rightarrow> ('core, 'box) world" where
  "applyConfigWrite lib connId req key value w =
     (case decodeChange key value of
        Inl e \<Rightarrow> replyError connId req e w
      | Inr change \<Rightarrow>
          (case al_setConfig lib change (w_core w) of
             (ok, c) \<Rightarrow>
               let w1 = emit (ConfigSet change) (w\<lparr>w_core := c\<rparr>)
               in if ok then sendReply connId req AckReply w1 else replyError connId req InvalidConfigValue w1))"

definition applyConfigReset ::
    "('core, 'cred, 'box) agent_lib \<Rightarrow> nat \<Rightarrow> nat \<Rightarrow> string \<Rightarrow> ('core, 'box) world \<Rightarrow> ('core, 'box) world" where
  "applyConfigReset lib connId req key w =
     (case al_resetKey lib key (w_core w) of
        (ok, c) \<Rightarrow>
          let w1 = emit (ConfigResetKey key) (w\<lparr>w_core := c\<rparr>)
          in if ok then sendReply connId req AckReply w1 else replyError connId req InvalidConfigValue w1)"

section \<open>Trust changes\<close>

datatype TrustChange = SetValue | Reset | ImportAnchors

record TrustChangeCopy =
  tc_key :: string
  tc_text :: string

definition describeTrustChange :: "string \<Rightarrow> TrustChange \<Rightarrow> TrustChangeCopy option" where
  "describeTrustChange key what =
     (if what = ImportAnchors then
        Some \<lparr>tc_key = ''prompter_trust_import'',
              tc_text = ''Install the country signing certificates from the offered file, replacing the ones this '' @
                        ''computer checks passports against.''\<rparr>
      else if key = ''TsaUrls'' then
        Some \<lparr>tc_key = ''prompter_trust_tsa'',
              tc_text = ''Change the timestamping authorities this computer will use.''\<rparr>
      else if key = ''TslSources'' then
        Some \<lparr>tc_key = ''prompter_trust_tsl'',
              tc_text = ''Change the trusted lists this computer accepts signatures against.''\<rparr>
      else None)"

text \<open>The part of \<^verbatim>\<open>confirmThenApply\<close> that runs on the loop: refuse, or queue the question.\<close>

definition confirmThenApply ::
    "('core, 'cred, 'box) agent_lib \<Rightarrow> nat \<Rightarrow> nat \<Rightarrow> string \<Rightarrow> string \<Rightarrow> TrustChange \<Rightarrow> pending_apply
       \<Rightarrow> ('core, 'box) world \<Rightarrow> ('core, 'box) world" where
  "confirmThenApply lib connId req key caller what apply w =
     (case describeTrustChange key what of
        None \<Rightarrow> replyError connId req NotAuthorized w
      | Some copy \<Rightarrow>
          if sm_find (w_confirmsInFlight w) caller \<noteq> None then replyError connId req RateLimited w
          else
            let act = \<lparr>ca_kind = ''configure_trust'', ca_title = ''Confirm trust change'',
                       ca_description = tc_text copy, ca_descriptionKey = tc_key copy,
                       ca_requester = requesterLabel lib caller, ca_artifact = key\<rparr>;
                q = \<lparr>ak_connId = connId, ak_req = req, ak_caller = caller, ak_action = act, ak_apply = apply\<rparr>
            in emit (Asked q) (w\<lparr>w_confirmsInFlight := sm_put caller () (w_confirmsInFlight w),
                                 w_asked := w_asked w @ [q]\<rparr>))"

definition withMutableKey ::
    "('core, 'cred, 'box) agent_lib \<Rightarrow> nat \<Rightarrow> nat \<Rightarrow> string \<Rightarrow> (Mutability \<Rightarrow> ('core, 'box) world \<Rightarrow> ('core, 'box) world)
       \<Rightarrow> ('core, 'box) world \<Rightarrow> ('core, 'box) world" where
  "withMutableKey lib connId req key k w =
     (case al_mutability lib key of
        None \<Rightarrow> replyError connId req UnknownConfigKey w
      | Some mut \<Rightarrow>
          if mut = FileOnly \<or> mut = ReadOnly then replyError connId req ReadOnlyConfig w else k mut w)"

definition configAction :: "('core, 'cred, 'box) agent_lib \<Rightarrow> Mutability \<Rightarrow> string" where
  "configAction lib mut =
     (if mut = DbusMutableTrust then kActionConfigureTrust (al_actions lib) else kActionConfigure (al_actions lib))"

definition handleSetConfig ::
    "('core, 'cred, 'box) agent_lib \<Rightarrow> nat \<Rightarrow> nat \<Rightarrow> string \<Rightarrow> cbor \<Rightarrow> string \<Rightarrow> ('core, 'box) world \<Rightarrow> ('core, 'box) world" where
  "handleSetConfig lib connId req key value caller =
     withMutableKey lib connId req key (\<lambda>mut.
     withAuthorization lib connId req (configAction lib mut) caller (
       if mut = DbusMutableTrust then
         withRateLimit lib connId req caller
           (confirmThenApply lib connId req key caller SetValue (ApplyWrite key value))
       else applyConfigWrite lib connId req key value))"

definition handleResetConfig ::
    "('core, 'cred, 'box) agent_lib \<Rightarrow> nat \<Rightarrow> nat \<Rightarrow> string \<Rightarrow> string \<Rightarrow> ('core, 'box) world \<Rightarrow> ('core, 'box) world" where
  "handleResetConfig lib connId req key caller =
     withMutableKey lib connId req key (\<lambda>mut.
     withAuthorization lib connId req (configAction lib mut) caller (
       if mut = DbusMutableTrust then
         withRateLimit lib connId req caller
           (confirmThenApply lib connId req key caller Reset (ApplyReset key))
       else applyConfigReset lib connId req key))"

definition handleImportCscaMasterList ::
    "('core, 'cred, 'box) agent_lib \<Rightarrow> 'box Inbound \<Rightarrow> nat \<Rightarrow> ('core, 'box) world \<Rightarrow> ('core, 'box) world" where
  "handleImportCscaMasterList lib inb idx =
     (let connId = in_connId inb; req = in_req inb; caller = in_caller inb
      in withAuthorization lib connId req (kActionConfigureTrust (al_actions lib)) caller (
         withRateLimit lib connId req caller (\<lambda>w.
           if idx \<ge> length (in_fds inb) then replyError connId req InvalidRequest w
           else confirmThenApply lib connId req ''CscaAnchorState'' caller ImportAnchors
                  (ApplyImport (in_fds inb ! idx)) w)))"

definition syncErrorFor :: "ImportRefusal \<Rightarrow> SyncError" where
  "syncErrorFor reason =
     (case reason of Replayed \<Rightarrow> MasterListReplayed | CacheNotWritable \<Rightarrow> CommunicationError | _ \<Rightarrow> InvalidRequest)"

definition recordedStateFor :: "('core, 'cred, 'box) agent_lib \<Rightarrow> AnchorState \<Rightarrow> CscaAnchorState" where
  "recordedStateFor lib imported =
     (let only = (case im_signers imported of [s] \<Rightarrow> Some s | _ \<Rightarrow> None)
      in \<lparr>an_anchors = im_anchorCount imported, an_issuers = im_issuerCount imported,
          an_replayRefusalActive = im_replayRefusalActive imported,
          an_signer = (case only of None \<Rightarrow> [] | Some s \<Rightarrow> al_toHex lib (as_fingerprint s)),
          an_signerPinned = im_everyPublisherEstablished imported,
          an_acceptedAt = im_acceptedAt imported,
          an_signedAt = (case only of None \<Rightarrow> None | Some s \<Rightarrow> as_signedAt s)\<rparr>)"

definition applyImport ::
    "('core, 'cred, 'box) agent_lib \<Rightarrow> nat \<Rightarrow> nat \<Rightarrow> nat \<Rightarrow> ('core, 'box) world \<Rightarrow> ('core, 'box) world" where
  "applyImport lib connId req fd w =
     (let w1 = emit (ReadFile fd) w
      in case al_readBoundedRegularFd lib fd (al_maxMasterListBytes lib) of
           NotRegular \<Rightarrow> replyError connId req InvalidRequest w1
         | TooLarge \<Rightarrow> replyError connId req InputTooLarge w1
         | ReadFailed \<Rightarrow> replyError connId req CommunicationError w1
         | ReadBytes b \<Rightarrow>
             (case al_importMasterList lib b (w_core w1) of
                (Inl refusal, c) \<Rightarrow>
                  replyError connId req (syncErrorFor refusal) (emit (Imported b) (w1\<lparr>w_core := c\<rparr>))
              | (Inr imported, c) \<Rightarrow>
                  let recorded = recordedStateFor lib imported;
                      w2 = emit (Imported b) (w1\<lparr>w_core := c\<rparr>);
                      w3 = emit (RecordedAnchors recorded) (w2\<lparr>w_core := al_recordAnchors lib recorded (w_core w2)\<rparr>)
                  in sendReply connId req (AnchorStateReply (toAnchorStateReply recorded)) w3))"

section \<open>PKCS#11\<close>

definition brokerCaller :: "('core, 'cred, 'box) agent_lib \<Rightarrow> string \<Rightarrow> broker_caller" where
  "brokerCaller lib caller = \<lparr>bc_caller = caller, bc_requester = requesterLabel lib caller\<rparr>"

definition callBroker ::
    "('core, 'cred, 'box) agent_lib \<Rightarrow> nat \<Rightarrow> nat \<Rightarrow> broker_call \<Rightarrow> ('core, 'box) world \<Rightarrow> ('core, 'box) world" where
  "callBroker lib connId req call w =
     emit (BrokerCalled connId req call) (w\<lparr>w_core := al_broker lib call (w_core w)\<rparr>)"

definition handleCertDer ::
    "('core, 'cred, 'box) agent_lib \<Rightarrow> nat \<Rightarrow> nat \<Rightarrow> string \<Rightarrow> string \<Rightarrow> string \<Rightarrow> ('core, 'box) world \<Rightarrow> ('core, 'box) world" where
  "handleCertDer lib connId req reader cert caller =
     callBroker lib connId req (BkCertDer reader cert (brokerCaller lib caller))"

definition handlePkPublicKey ::
    "('core, 'cred, 'box) agent_lib \<Rightarrow> nat \<Rightarrow> nat \<Rightarrow> string \<Rightarrow> string \<Rightarrow> string \<Rightarrow> ('core, 'box) world \<Rightarrow> ('core, 'box) world" where
  "handlePkPublicKey lib connId req reader cert caller =
     callBroker lib connId req (BkPublicKey reader cert (brokerCaller lib caller))"

definition handlePkLogin ::
    "('core, 'cred, 'box) agent_lib \<Rightarrow> nat \<Rightarrow> nat \<Rightarrow> string \<Rightarrow> string \<Rightarrow> ('core, 'box) world \<Rightarrow> ('core, 'box) world" where
  "handlePkLogin lib connId req reader caller =
     callBroker lib connId req (BkLogin reader (brokerCaller lib caller))"

definition handlePkLogout ::
    "('core, 'cred, 'box) agent_lib \<Rightarrow> nat \<Rightarrow> nat \<Rightarrow> string \<Rightarrow> string \<Rightarrow> ('core, 'box) world \<Rightarrow> ('core, 'box) world" where
  "handlePkLogout lib connId req reader caller w =
     (let bc = brokerCaller lib caller
      in sendReply connId req AckReply
           (emit (LoggedOut reader bc) (w\<lparr>w_core := al_logout lib reader bc (w_core w)\<rparr>)))"

definition handlePkLoginState ::
    "('core, 'cred, 'box) agent_lib \<Rightarrow> nat \<Rightarrow> nat \<Rightarrow> string \<Rightarrow> string \<Rightarrow> ('core, 'box) world \<Rightarrow> ('core, 'box) world" where
  "handlePkLoginState lib connId req reader caller w =
     sendReply connId req (LoginStateReply (al_loginActive lib reader (brokerCaller lib caller) (w_core w))) w"

definition handlePkSignRaw ::
    "('core, 'cred, 'box) agent_lib \<Rightarrow> nat \<Rightarrow> nat \<Rightarrow> string \<Rightarrow> string \<Rightarrow> string \<Rightarrow> bytes \<Rightarrow> string
       \<Rightarrow> ('core, 'box) world \<Rightarrow> ('core, 'box) world" where
  "handlePkSignRaw lib connId req reader cert mech payload caller w =
     (case al_signMechanism lib mech of
        None \<Rightarrow> replyError connId req InvalidRequest w
      | Some mechanism \<Rightarrow>
          callBroker lib connId req (BkSignRaw reader cert mechanism payload (brokerCaller lib caller)) w)"

definition handlePkDecrypt ::
    "('core, 'cred, 'box) agent_lib \<Rightarrow> nat \<Rightarrow> nat \<Rightarrow> string \<Rightarrow> string \<Rightarrow> string \<Rightarrow> bytes \<Rightarrow> string
       \<Rightarrow> ('core, 'box) world \<Rightarrow> ('core, 'box) world" where
  "handlePkDecrypt lib connId req reader cert mech payload caller w =
     (case al_decryptMechanism lib mech of
        None \<Rightarrow> replyError connId req InvalidRequest w
      | Some mechanism \<Rightarrow>
          callBroker lib connId req (BkDecrypt reader cert mechanism payload (brokerCaller lib caller)) w)"

definition handlePkDerive ::
    "('core, 'cred, 'box) agent_lib \<Rightarrow> nat \<Rightarrow> nat \<Rightarrow> string \<Rightarrow> string \<Rightarrow> bytes \<Rightarrow> string
       \<Rightarrow> ('core, 'box) world \<Rightarrow> ('core, 'box) world" where
  "handlePkDerive lib connId req reader cert payload caller =
     callBroker lib connId req (BkDerive reader cert payload (brokerCaller lib caller))"

section \<open>Dispatch\<close>

definition dispatch ::
    "('core, 'cred, 'box) agent_lib \<Rightarrow> 'box Inbound \<Rightarrow> ('core, 'box) world \<Rightarrow> ('core, 'box) world" where
  "dispatch lib inb =
     (let connId = in_connId inb; req = in_req inb; caller = in_caller inb
      in case in_body inb of
           Hello proto wants \<Rightarrow> handleHello lib connId req proto wants
         | GetState \<Rightarrow> handleGetState connId req
         | ReadIdentity h \<Rightarrow> handleReadIdentity lib inb h
         | GetPhoto h \<Rightarrow> handleGetPhoto lib inb h
         | ReadCertificates h \<Rightarrow> handleReadCertificates lib inb h
         | ReadTokenInfo h \<Rightarrow> handleReadTokenInfo lib inb h
         | Sign h cert inFd opts \<Rightarrow> handleSign lib inb h cert inFd opts
         | SignBatch h cert docs opts \<Rightarrow> handleSignBatch lib inb h cert docs opts
         | ListCredentials h \<Rightarrow> handleListCredentials lib inb h
         | ManagePin h pinId verb activate \<Rightarrow> handleManagePin lib inb h pinId verb activate
         | ActivateSigningKey h \<Rightarrow> handleActivateSigningKey lib inb h
         | GetCertDer reader cert \<Rightarrow> handleCertDer lib connId req reader cert caller
         | GetConfig \<Rightarrow> handleGetConfig lib connId req
         | SetConfig key value \<Rightarrow> handleSetConfig lib connId req key value caller
         | ResetConfig key \<Rightarrow> handleResetConfig lib connId req key caller
         | CancelOp opId \<Rightarrow> handleCancel lib connId req opId caller
         | GetSignResult opId \<Rightarrow> handleGetSignResult lib connId req opId caller
         | PkLogin reader \<Rightarrow> handlePkLogin lib connId req reader caller
         | PkLogout reader \<Rightarrow> handlePkLogout lib connId req reader caller
         | PkLoginState reader \<Rightarrow> handlePkLoginState lib connId req reader caller
         | PkPublicKey reader cert \<Rightarrow> handlePkPublicKey lib connId req reader cert caller
         | PkSignRaw reader cert mech payload \<Rightarrow> handlePkSignRaw lib connId req reader cert mech payload caller
         | PkDecrypt reader cert mech payload \<Rightarrow> handlePkDecrypt lib connId req reader cert mech payload caller
         | PkDerive reader cert payload \<Rightarrow> handlePkDerive lib connId req reader cert payload caller
         | LayoutVisual txt box \<Rightarrow> handleLayoutVisual lib connId req txt box
         | GetAppearanceFont \<Rightarrow> handleGetAppearanceFont lib connId req
         | ImportCscaMasterList idx \<Rightarrow> handleImportCscaMasterList lib inb idx)"

section \<open>What a handler adds to the trace\<close>

text \<open>
  A piece of a handler \<^emph>\<open>emits\<close> within \<open>P\<close> when it only appends calls that satisfy it. The guards
  pass the property on from their continuation, so each handler follows from its shape.
\<close>

definition emits :: "('box fx \<Rightarrow> bool) \<Rightarrow> (('core, 'box) world \<Rightarrow> ('core, 'box) world) \<Rightarrow> bool" where
  "emits P k \<longleftrightarrow> (\<forall>w. \<exists>d. w_trace (k w) = w_trace w @ d \<and> list_all P d)"

named_theorems emit_intros \<open>what the parts of a handler emit\<close>

lemma emitsD: "emits P k \<Longrightarrow> w_trace (k w) = w_trace w @ d \<Longrightarrow> e \<in> set d \<Longrightarrow> P e"
  by (metis emits_def list_all_iff same_append_eq)

lemma emits_emit [emit_intros]: "P e \<Longrightarrow> emits P (emit e)"
  by (simp add: emits_def emit_def)

lemma emits_after:
  assumes "emits P k" and "list_all P d" and "\<And>w. w_trace (f w) = w_trace w @ d"
  shows "emits P (\<lambda>w. k (f w))"
  unfolding emits_def
proof
  fix w
  from assms(1) obtain d' where "w_trace (k (f w)) = w_trace (f w) @ d'" "list_all P d'"
    by (auto simp: emits_def)
  with assms(2,3) show "\<exists>d. w_trace (k (f w)) = w_trace w @ d \<and> list_all P d"
    by (intro exI [of _ "d @ d'"]) simp
qed

lemma emits_core [emit_intros]: "P e \<Longrightarrow> emits P (\<lambda>w. emit e (w\<lparr>w_core := f w\<rparr>))"
  by (simp add: emits_def emit_def)

lemma emits_sendReply [emit_intros]: "P (Send connId req r []) \<Longrightarrow> emits P (sendReply connId req r)"
  by (simp add: emits_def sendReply_def emit_def)

lemma emits_replyError [emit_intros]: "P (Send connId req (ErrReply e) []) \<Longrightarrow> emits P (replyError connId req e)"
  by (simp add: emits_def replyError_def sendReply_def emit_def)

lemma trace_simps [simp]:
  "w_trace (emit e w) = w_trace w @ [e]"
  "w_trace (sendReply connId req r w) = w_trace w @ [Send connId req r []]"
  "w_trace (replyError connId req err w) = w_trace w @ [Send connId req (ErrReply err) []]"
  by (simp_all add: emit_def sendReply_def replyError_def)

lemma emits_withCard [emit_intros]:
  assumes "\<And>e. P (Send connId req (ErrReply e) [])" and "\<And>routing. emits P (k routing)"
  shows "emits P (withCard connId req handle capBit k)"
  using assms by (auto simp: emits_def withCard_def split: option.split)

lemma emits_withCert [emit_intros]:
  assumes "\<And>e. P (Send connId req (ErrReply e) [])" and "emits P k"
  shows "emits P (withCert connId req cert k)"
  using assms by (auto simp: emits_def withCert_def)

lemma emits_withAuthorization [emit_intros]:
  assumes "\<And>e. P (Send connId req (ErrReply e) [])" and "P (Authorized act caller)" and "emits P k"
  shows "emits P (withAuthorization lib connId req act caller k)"
proof -
  have "emits P (\<lambda>w. k (emit (Authorized act caller) w))"
    by (rule emits_after [OF assms(3), of "[Authorized act caller]"]) (use assms(2) in simp_all)
  with assms(1,2) show ?thesis
    by (auto simp: emits_def withAuthorization_def Let_def split: AuthorizationOutcome.split)
qed

lemma emits_withRateLimit [emit_intros]:
  assumes "\<And>e. P (Send connId req (ErrReply e) [])" and "P (Charged caller)" and "emits P k"
  shows "emits P (withRateLimit lib connId req caller k)"
proof -
  have "emits P (\<lambda>w. k (emit (Charged caller) (w\<lparr>w_core := snd (al_allow lib caller (w_core w))\<rparr>)))"
    by (rule emits_after [OF assms(3), of "[Charged caller]"]) (use assms(2) in simp_all)
  with assms(1,2) show ?thesis
    by (auto simp: emits_def withRateLimit_def Let_def split_beta)
qed

lemma emits_withDocument [emit_intros]:
  assumes "\<And>e. P (Send connId req (ErrReply e) [])" and "\<And>fd. P (ReadFile fd)" and "\<And>b. emits P (k b)"
  shows "emits P (withDocument lib connId req fds idx k)"
proof -
  have "emits P (\<lambda>w. k b (emit (ReadFile fd) w))" for b fd
    by (rule emits_after [OF assms(3), of "[ReadFile fd]"]) (use assms(2) in simp_all)
  with assms(1,2) show ?thesis
    by (auto simp: emits_def withDocument_def Let_def split: read_result.split)
qed

lemma emits_withSignOptions [emit_intros]:
  assumes "\<And>e. P (Send connId req (ErrReply e) [])" and "\<And>r. emits P (k r)"
  shows "emits P (withSignOptions lib connId req opts src k)"
  using assms by (auto simp: emits_def withSignOptions_def split: sum.split)

lemma emits_readDocuments [emit_intros]:
  assumes "\<And>e. P (Send connId req (ErrReply e) [])" and "\<And>fd. P (ReadFile fd)" and "\<And>inputs. emits P (k inputs)"
  shows "emits P (readDocuments lib connId req fds docs inputs k)"
  using assms by (induction docs arbitrary: inputs) (auto intro!: emit_intros)

lemma trace_launch:
  "\<exists>r. w_trace (launch lib connId req routing caller job w)
     = w_trace w @ [Launched (operationTarget lib routing caller) job, Send connId req r []]
   \<and> (\<exists>opId e. r = OpStarted opId \<or> r = ErrReply e)"
  by (auto simp: launch_def replyLaunched_def Let_def split: prod.split sum.split)

lemma emits_launch [emit_intros]:
  assumes "\<And>e. P (Send connId req (ErrReply e) [])" and "\<And>i. P (Send connId req (OpStarted i) [])"
    and "P (Launched (operationTarget lib routing caller) job)"
  shows "emits P (launch lib connId req routing caller job)"
  unfolding emits_def
proof
  fix w
  show "\<exists>d. w_trace (launch lib connId req routing caller job w) = w_trace w @ d \<and> list_all P d"
    using trace_launch [of lib connId req routing caller job w] assms by fastforce
qed

lemma emits_if [emit_intros]: "emits P k \<Longrightarrow> emits P k' \<Longrightarrow> emits P (if b then k else k')"
  by simp

lemma emits_if_fun [emit_intros]: "emits P k \<Longrightarrow> emits P k' \<Longrightarrow> emits P (\<lambda>w. if b then k w else k' w)"
  by (cases b) simp_all

lemma emits_checkedLaunch [emit_intros]:
  assumes "\<And>e. P (Send connId req (ErrReply e) [])" and "\<And>i. P (Send connId req (OpStarted i) [])"
    and "\<And>w. P (Launched (operationTarget lib routing caller) (job w))"
  shows "emits P (\<lambda>w. case check w of
           None \<Rightarrow> launch lib connId req routing caller (job w) w | Some e \<Rightarrow> replyError connId req e w)"
  unfolding emits_def
proof
  fix w
  have "emits P (launch lib connId req routing caller (job w))" using assms by (rule emits_launch)
  then show "\<exists>d. w_trace (case check w of
           None \<Rightarrow> launch lib connId req routing caller (job w) w | Some e \<Rightarrow> replyError connId req e w)
      = w_trace w @ d \<and> list_all P d"
    using assms(1) by (auto simp: emits_def split: option.split)
qed

lemma emits_withMutableKey [emit_intros]:
  assumes "\<And>e. P (Send connId req (ErrReply e) [])"
    and "\<And>mut. al_mutability lib key = Some mut \<Longrightarrow> emits P (k mut)"
  shows "emits P (withMutableKey lib connId req key k)"
  using assms by (auto simp: emits_def withMutableKey_def split: option.split)

lemma emits_writes [emit_intros]:
  assumes "\<And>e. P (Send connId req (ErrReply e) [])" and "P (Send connId req AckReply [])"
  shows "(\<And>change. decodeChange key value = Inr change \<Longrightarrow> P (ConfigSet change))
           \<Longrightarrow> emits P (applyConfigWrite lib connId req key value)"
    and "P (ConfigResetKey key) \<Longrightarrow> emits P (applyConfigReset lib connId req key)"
  using assms
  by (auto simp: emits_def applyConfigWrite_def applyConfigReset_def Let_def split: sum.split prod.split)

lemma emits_confirmThenApply [emit_intros]:
  assumes "\<And>e. P (Send connId req (ErrReply e) [])" and "\<And>q. ak_apply q = todo \<Longrightarrow> P (Asked q)"
  shows "emits P (confirmThenApply lib connId req key caller what todo)"
  using assms by (auto simp: emits_def confirmThenApply_def Let_def split: option.split)

lemma emits_callBroker [emit_intros]:
  "P (BrokerCalled connId req call) \<Longrightarrow> emits P (callBroker lib connId req call)"
  by (simp add: emits_def callBroker_def)

section \<open>One answer per request\<close>

text \<open>
  What answers a request: a reply on its connection, or the hand-over to the PKCS#11 broker or to a
  person, each of which carries the connection and the request it will be answered on.
\<close>

fun answerTo :: "'box fx \<Rightarrow> (nat \<times> nat) option" where
  "answerTo (Send connId req r fds) = Some (connId, req)"
| "answerTo (SendThenClose connId req r) = Some (connId, req)"
| "answerTo (BrokerCalled connId req call) = Some (connId, req)"
| "answerTo (Asked q) = Some (ak_connId q, ak_req q)"
| "answerTo _ = None"

definition settles :: "nat \<Rightarrow> nat \<Rightarrow> (('core, 'box) world \<Rightarrow> ('core, 'box) world) \<Rightarrow> bool" where
  "settles connId req k \<longleftrightarrow>
     (\<forall>w. \<exists>d. w_trace (k w) = w_trace w @ d \<and> List.map_filter answerTo d = [(connId, req)])"

named_theorems settle_intros \<open>parts of a handler that answer once\<close>

lemma settles_emit [settle_intros]: "answerTo e = Some (connId, req) \<Longrightarrow> settles connId req (emit e)"
  by (simp add: settles_def List.map_filter_def)

lemma settles_by: "(\<And>w. \<exists>e. w_trace (k w) = w_trace w @ [e] \<and> answerTo e = Some (connId, req)) \<Longrightarrow> settles connId req k"
  unfolding settles_def by (fastforce simp: List.map_filter_def)

lemma settles_after:
  assumes "settles connId req k" and "\<And>w. w_trace (f w) = w_trace w @ [e]" and "answerTo e = None"
  shows "\<exists>d. w_trace (k (f w)) = w_trace w @ d \<and> List.map_filter answerTo d = [(connId, req)]"
proof -
  from assms(1) obtain d where "w_trace (k (f w)) = w_trace (f w) @ d" "List.map_filter answerTo d = [(connId, req)]"
    by (auto simp: settles_def)
  with assms(2,3) show ?thesis by (intro exI [of _ "e # d"]) (simp add: List.map_filter_def)
qed

lemma settles_reply [settle_intros]:
  "settles connId req (sendReply connId req r)" "settles connId req (replyError connId req err)"
  by (auto intro!: settles_by)

lemma settles_withCard [settle_intros]:
  assumes "\<And>routing. settles connId req (k routing)"
  shows "settles connId req (withCard connId req handle capBit k)"
  using assms by (auto simp: settles_def withCard_def List.map_filter_def split: option.split)

lemma settles_withCert [settle_intros]:
  "settles connId req k \<Longrightarrow> settles connId req (withCert connId req cert k)"
  by (auto simp: settles_def withCert_def List.map_filter_def)

lemma settles_withAuthorization [settle_intros]:
  assumes "settles connId req k"
  shows "settles connId req (withAuthorization lib connId req act caller k)"
  unfolding settles_def
proof
  fix w
  show "\<exists>d. w_trace (withAuthorization lib connId req act caller k w) = w_trace w @ d
      \<and> List.map_filter answerTo d = [(connId, req)]"
    using settles_after [OF assms, of "emit (Authorized act caller)" "Authorized act caller" w]
    by (cases "al_authorize lib act caller") (auto simp: withAuthorization_def Let_def List.map_filter_def)
qed

lemma settles_withRateLimit [settle_intros]:
  assumes "settles connId req k"
  shows "settles connId req (withRateLimit lib connId req caller k)"
  unfolding settles_def
proof
  fix w
  show "\<exists>d. w_trace (withRateLimit lib connId req caller k w) = w_trace w @ d
      \<and> List.map_filter answerTo d = [(connId, req)]"
    using settles_after [OF assms, of "\<lambda>w. emit (Charged caller) (w\<lparr>w_core := snd (al_allow lib caller (w_core w))\<rparr>)"
        "Charged caller" w]
    by (cases "al_allow lib caller (w_core w)") (auto simp: withRateLimit_def Let_def List.map_filter_def)
qed

lemma settles_withDocument [settle_intros]:
  assumes "\<And>b. settles connId req (k b)"
  shows "settles connId req (withDocument lib connId req fds idx k)"
  unfolding settles_def
proof
  fix w
  show "\<exists>d. w_trace (withDocument lib connId req fds idx k w) = w_trace w @ d
      \<and> List.map_filter answerTo d = [(connId, req)]"
    using settles_after [OF assms, of "emit (ReadFile (fds ! idx))" "ReadFile (fds ! idx)" _ w]
    by (cases "al_readBoundedRegularFd lib (fds ! idx) (al_maxInputBytes lib)")
      (auto simp: withDocument_def Let_def List.map_filter_def)
qed

lemma settles_withSignOptions [settle_intros]:
  assumes "\<And>r. settles connId req (k r)"
  shows "settles connId req (withSignOptions lib connId req opts src k)"
  using assms by (auto simp: settles_def withSignOptions_def List.map_filter_def split: sum.split)

lemma settles_readDocuments [settle_intros]:
  assumes "\<And>inputs. settles connId req (k inputs)"
  shows "settles connId req (readDocuments lib connId req fds docs inputs k)"
  using assms by (induction docs arbitrary: inputs) (auto intro!: settle_intros)

lemma settles_launch [settle_intros]: "settles connId req (launch lib connId req routing caller job)"
  unfolding settles_def
proof
  fix w
  show "\<exists>d. w_trace (launch lib connId req routing caller job w) = w_trace w @ d
      \<and> List.map_filter answerTo d = [(connId, req)]"
    using trace_launch [of lib connId req routing caller job w] by (auto simp: List.map_filter_def)
qed

lemma settles_if [settle_intros]:
  "settles connId req k \<Longrightarrow> settles connId req k' \<Longrightarrow> settles connId req (if b then k else k')"
  "settles connId req k \<Longrightarrow> settles connId req k' \<Longrightarrow> settles connId req (\<lambda>w. if b then k w else k' w)"
  by (cases b; simp)+

lemma settles_withMutableKey [settle_intros]:
  assumes "\<And>mut. settles connId req (k mut)"
  shows "settles connId req (withMutableKey lib connId req key k)"
  using assms by (auto simp: settles_def withMutableKey_def List.map_filter_def split: option.split)

lemma settles_apply [settle_intros]:
  "settles connId req (applyConfigWrite lib connId req key value)"
  "settles connId req (applyConfigReset lib connId req key)"
  "settles connId req (applyImport lib connId req fd)"
  by (auto simp: settles_def applyConfigWrite_def applyConfigReset_def applyImport_def Let_def List.map_filter_def
      split: sum.split prod.split read_result.split)

lemma settles_confirmThenApply [settle_intros]:
  "settles connId req (confirmThenApply lib connId req key caller what apply)"
  by (rule settles_by) (auto simp: confirmThenApply_def Let_def split: option.split)

lemma settles_callBroker [settle_intros]: "settles connId req (callBroker lib connId req call)"
  by (rule settles_by) (simp add: callBroker_def)

lemma settles_single [settle_intros]:
  "settles connId req (handleHello lib connId req proto wants)"
  "settles connId req (handleGetState connId req)"
  "settles connId req (handleLayoutVisual lib connId req txt box)"
  "settles connId req (handleGetAppearanceFont lib connId req)"
  "settles connId req (handleGetConfig lib connId req)"
  "settles connId req (handleCancel lib connId req opId caller)"
  "settles connId req (handleGetSignResult lib connId req opId caller)"
  "settles connId req (handlePkLogout lib connId req reader caller)"
  "settles connId req (handlePkLoginState lib connId req reader caller)"
  "settles connId req (handlePkSignRaw lib connId req reader cert mech payload caller)"
  "settles connId req (handlePkDecrypt lib connId req reader cert mech payload caller)"
  by (auto simp: settles_def handleHello_def handleGetState_def handleLayoutVisual_def handleGetAppearanceFont_def
      handleGetConfig_def handleCancel_def handleGetSignResult_def handlePkLogout_def handlePkLoginState_def
      handlePkSignRaw_def handlePkDecrypt_def callBroker_def Let_def List.map_filter_def split: option.split)

lemma settles_pointwise: "(\<And>w. \<exists>k'. k w = k' w \<and> settles connId req k') \<Longrightarrow> settles connId req k"
  unfolding settles_def by metis

lemma settles_managePin [settle_intros]:
  "settles (in_connId inb) (in_req inb) (handleManagePin lib inb handle pinId verb activateKey)"
  unfolding handleManagePin_def Let_def
  by (intro settle_intros; rule settles_pointwise)
    (use settles_reply settles_launch in \<open>fastforce split: option.split\<close>)

lemma settles_dispatch: "settles (in_connId inb) (in_req inb) (dispatch lib inb)"
  by (cases "in_body inb")
    (auto simp: dispatch_def handleReadIdentity_def handleGetPhoto_def handleReadCertificates_def
      handleReadTokenInfo_def handleSign_def handleSignBatch_def handleListCredentials_def
      handleActivateSigningKey_def handleCertDer_def handlePkPublicKey_def handlePkLogin_def handlePkDerive_def
      handleSetConfig_def handleResetConfig_def handleImportCscaMasterList_def Let_def intro!: settle_intros)

section \<open>The gate in front of card operations\<close>

text \<open>The requests that spend a person's attention or a card's retries, and the action they need.\<close>

fun gateAction :: "('core, 'cred, 'box) agent_lib \<Rightarrow> 'box request_body \<Rightarrow> string option" where
  "gateAction lib (Sign h cert inFd opts) = Some (kActionSign (al_actions lib))"
| "gateAction lib (SignBatch h cert docs opts) = Some (kActionSign (al_actions lib))"
| "gateAction lib (ManagePin h pinId verb activate) = Some (kActionCredentialsManage (al_actions lib))"
| "gateAction lib (ActivateSigningKey h) = Some (kActionCredentialsManage (al_actions lib))"
| "gateAction lib _ = None"

fun guarded :: "'box fx \<Rightarrow> bool" where
  "guarded (ReadFile fd) = True"
| "guarded (Launched target job) = True"
| "guarded _ = False"

fun gateCall :: "'box fx \<Rightarrow> bool" where
  "gateCall (Authorized act caller) = True"
| "gateCall (Charged caller) = True"
| "gateCall _ = False"

definition gateOk ::
    "('core, 'cred, 'box) agent_lib \<Rightarrow> string \<Rightarrow> string \<Rightarrow> 'core \<Rightarrow> 'box fx list \<Rightarrow> bool" where
  "gateOk lib act caller c d \<longleftrightarrow>
     list_all (\<lambda>e. \<not> guarded e) d
     \<or> (al_authorize lib act caller = Granted \<and> fst (al_allow lib caller c)
        \<and> (\<exists>rest. d = Authorized act caller # Charged caller # rest \<and> list_all (\<lambda>e. \<not> gateCall e) rest))"

definition gatedBy ::
    "('core, 'cred, 'box) agent_lib \<Rightarrow> string \<Rightarrow> string \<Rightarrow> (('core, 'box) world \<Rightarrow> ('core, 'box) world) \<Rightarrow> bool" where
  "gatedBy lib act caller k \<longleftrightarrow>
     (\<forall>w. \<exists>d. w_trace (k w) = w_trace w @ d \<and> gateOk lib act caller (w_core w) d)"

lemma gatedBy_gate:
  fixes lib :: "('core, 'cred, 'box) agent_lib" and k :: "('core, 'box) world \<Rightarrow> ('core, 'box) world"
  assumes "emits (\<lambda>e. \<not> gateCall e) k"
  shows "gatedBy lib act caller (withAuthorization lib connId req act caller (withRateLimit lib connId req caller k))"
  unfolding gatedBy_def
proof
  fix w :: "('core, 'box) world"
  let ?h = "withAuthorization lib connId req act caller (withRateLimit lib connId req caller k)"
  let ?w = "emit (Charged caller) ((emit (Authorized act caller) w)\<lparr>w_core := snd (al_allow lib caller (w_core w))\<rparr>)"
  from assms obtain d where "w_trace (k ?w) = w_trace ?w @ d" "list_all (\<lambda>e. \<not> gateCall e) d"
    unfolding emits_def by blast
  moreover have "w_core (emit e w) = w_core w" for e :: "'box fx" by (simp add: emit_def)
  ultimately show "\<exists>d. w_trace (?h w) = w_trace w @ d \<and> gateOk lib act caller (w_core w) d"
    by (cases "al_allow lib caller (w_core w)")
      (auto simp: withAuthorization_def withRateLimit_def Let_def gateOk_def split: AuthorizationOutcome.split)
qed

lemma gatedBy_withCard:
  assumes "\<And>routing. gatedBy lib act caller (k routing)"
  shows "gatedBy lib act caller (withCard connId req handle capBit k)"
  using assms by (auto simp: gatedBy_def withCard_def gateOk_def split: option.split)

lemma gatedBy_withCert:
  "gatedBy lib act caller k \<Longrightarrow> gatedBy lib act caller (withCert connId req cert k)"
  by (auto simp: gatedBy_def withCert_def gateOk_def)

lemmas gate_intros = gatedBy_withCard gatedBy_withCert gatedBy_gate emit_intros

lemma gated_dispatch:
  assumes "gateAction lib (in_body inb) = Some act"
  shows "gatedBy lib act (in_caller inb) (dispatch lib inb)"
proof (cases "in_body inb")
  case (Sign h cert inFd opts)
  with assms show ?thesis
    by (auto simp: dispatch_def handleSign_def Let_def intro!: gate_intros)
next
  case (SignBatch h cert docs opts)
  with assms show ?thesis
    by (auto simp: dispatch_def handleSignBatch_def Let_def intro!: gate_intros)
next
  case (ManagePin h pinId verb activate)
  with assms show ?thesis
    by (auto simp: dispatch_def handleManagePin_def Let_def intro!: gate_intros)
next
  case (ActivateSigningKey h)
  with assms show ?thesis
    by (auto simp: dispatch_def handleActivateSigningKey_def Let_def intro!: gate_intros)
qed (use assms in simp_all)

section \<open>Ownership\<close>

text \<open>
  The calls that reach another request's operation: handing out a stashed artifact, cancelling, or
  broadcasting nothing of the kind for every other handler.
\<close>

fun reachesOperation :: "'box fx \<Rightarrow> bool" where
  "reachesOperation (Send connId req (SignResult i meta) fds) = True"
| "reachesOperation (CancelledOp opId) = True"
| "reachesOperation _ = False"

lemma direct_other_operation:
  "emits (\<lambda>e. \<not> reachesOperation e) (handleHello lib connId req proto wants)"
  "emits (\<lambda>e. \<not> reachesOperation e) (handleGetState connId req)"
  "emits (\<lambda>e. \<not> reachesOperation e) (handleLayoutVisual lib connId req label box)"
  "emits (\<lambda>e. \<not> reachesOperation e) (handleGetAppearanceFont lib connId req)"
  "emits (\<lambda>e. \<not> reachesOperation e) (handleGetConfig lib connId req)"
  "emits (\<lambda>e. \<not> reachesOperation e) (handlePkLogout lib connId req reader caller)"
  "emits (\<lambda>e. \<not> reachesOperation e) (handlePkLoginState lib connId req reader caller)"
  "emits (\<lambda>e. \<not> reachesOperation e) (handlePkSignRaw lib connId req reader cert mech payload caller)"
  "emits (\<lambda>e. \<not> reachesOperation e) (handlePkDecrypt lib connId req reader cert mech payload caller)"
  by (auto simp: emits_def handleHello_def handleGetState_def handleLayoutVisual_def handleGetAppearanceFont_def
      handleGetConfig_def handlePkLogout_def handlePkLoginState_def handlePkSignRaw_def handlePkDecrypt_def
      callBroker_def Let_def split: option.split)

lemma dispatch_other_operation:
  assumes "\<And>opId. in_body inb \<noteq> CancelOp opId" "\<And>opId. in_body inb \<noteq> GetSignResult opId"
  shows "emits (\<lambda>e. \<not> reachesOperation e) (dispatch lib inb)"
  using assms
  by (cases "in_body inb")
    (auto simp: dispatch_def handleReadIdentity_def handleGetPhoto_def handleReadCertificates_def
      handleReadTokenInfo_def handleSign_def handleSignBatch_def handleListCredentials_def handleManagePin_def
      handleActivateSigningKey_def handleCertDer_def handlePkPublicKey_def handlePkLogin_def handlePkDerive_def
      handleSetConfig_def handleResetConfig_def handleImportCscaMasterList_def Let_def
      intro!: emit_intros direct_other_operation)

section \<open>Properties\<close>

text \<open>
  Every request gets exactly one answer, and only its own: whatever the body and whatever state
  the agent is in, a dispatch adds exactly one reply or one deferred answer (to the PKCS#11 broker
  or to a person), for the connection and the request it serves.
\<close>
lemma one_answer_per_request:
  "\<exists>d. w_trace (dispatch lib inb w) = w_trace w @ d
     \<and> List.map_filter answerTo d = [(in_connId inb, in_req inb)]"
  using settles_dispatch [of inb lib] by (simp add: settles_def)


definition demoSign :: "nat Inbound" where
  "demoSign = \<lparr>in_connId = 1, in_req = 5, in_caller = ''conn:1'', in_fds = [40],
     in_body = Sign ''obj/2'' ''cert'' 0 demoSignOpts\<rparr>"

lemma demo_dispatch:
  "\<exists>target job. w_trace (dispatch demoAgent demoSign demoWorld)
     = [Authorized ''sign'' ''conn:1'', Charged ''conn:1'', ReadFile 40, Launched target job,
        Send 1 5 (OpStarted 7) []]"
  by (simp add: dispatch_def demoSign_def handleSign_def withCard_def cardRouting_def demoWorld_def demoAgent_def
      demoRouting_def withCert_def withAuthorization_def demoActions_def withRateLimit_def withDocument_def
      withSignOptions_def launch_def replyLaunched_def emit_def sendReply_def Let_def resolveSignOptions_def
      resolveFormat_def demoSignLib_def demoSignOpts_def demoSignConfig_def valueOr_def resolveVisual_def)


text \<open>
  C9: an operation can be reached only by the client that started it: a signed document is handed
  out only in answer to a request for its own operation by the caller recorded as its owner, and
  only that caller's cancellation is passed on.
\<close>
theorem operations_owner_scoped:
  assumes "w_trace (dispatch lib inb w) = w_trace w @ d" and "e \<in> set d"
  shows "(case e of
            Send connId req (SignResult i meta) files \<Rightarrow>
              (\<exists>opId rec. in_body inb = GetSignResult opId \<and> sm_find (w_signResults w) opId = Some rec
                 \<and> sg_owner rec = in_caller inb \<and> files = [sa_bytes (sg_artifact rec)]
                 \<and> connId = in_connId inb \<and> req = in_req inb)
          | CancelledOp opId \<Rightarrow>
              in_body inb = CancelOp opId \<and> sm_find (w_opOwners w) opId = Some (in_caller inb)
          | _ \<Rightarrow> True)"
proof (cases "\<exists>opId. in_body inb = CancelOp opId \<or> in_body inb = GetSignResult opId")
  case True
  then show ?thesis using assms
    by (auto simp: dispatch_def handleCancel_def handleGetSignResult_def Let_def
        split: if_splits option.splits fx.split reply.split)
next
  case False
  then have "\<not> reachesOperation e"
    using dispatch_other_operation [of inb lib] emitsD assms by metis
  then show ?thesis by (auto split: fx.split reply.split)
qed

theorem operations_owner_scoped_witness:
  "\<exists>opId. in_body (demoSign\<lparr>in_body := CancelOp 7\<rparr>) = CancelOp opId
     \<and> sm_find (w_opOwners (demoWorld\<lparr>w_opOwners := [(7, ''conn:1'')]\<rparr>)) opId = Some ''conn:1''"
proof -
  have "w_trace (dispatch demoAgent (demoSign\<lparr>in_body := CancelOp 7\<rparr>) (demoWorld\<lparr>w_opOwners := [(7, ''conn:1'')]\<rparr>))
      = w_trace (demoWorld\<lparr>w_opOwners := [(7, ''conn:1'')]\<rparr>) @ [CancelledOp 7, Send 1 5 AckReply []]"
    by (simp add: dispatch_def handleCancel_def demoSign_def demoWorld_def emit_def sendReply_def)
  from operations_owner_scoped [OF this, of "CancelledOp 7"] show ?thesis by (simp add: demoSign_def)
qed

end
