(* ===== verification/Op_Channel.thy ===== *)
theory Op_Channel
  imports Anon_Fd Frontend
begin

text \<open>
  \<^verbatim>\<open>agent/src/backend/SocketOperationChannel.cpp\<close>: how a running operation reports to its client. The
  worker that drives it never touches the socket: it converts the agent's values to their wire
  mirrors, turns artifacts into anonymous files and posts tasks for the loop. A channel is the
  connection and operation it belongs to, the shared phase and the list of what it posted. The wire
  codec, the posting and the two sinks can throw; the record \<open>chan_env\<close> says how they behave, with
  \<open>None\<close> for a throw. A descriptor is represented by the content of its file.
\<close>

section \<open>Snapshots and their wire mirrors\<close>

datatype FieldType = FtText | FtDate | FtBinary | FtPhoto

record FieldSnapshot =
  fs_fieldKey :: string
  fs_labelKey :: string
  fs_labelFallback :: string
  fs_type :: FieldType
  fs_textValue :: string
  fs_binaryValue :: bytes

record GroupSnapshot =
  gs_groupKey :: string
  gs_fields :: "FieldSnapshot list"

record CardReadSnapshot =
  cr_groups :: "GroupSnapshot list"

datatype field_value = TextValue string | BinaryValue bytes

record IdentityField =
  if_labelKey :: string
  if_labelFallback :: string
  if_type :: string
  if_value :: field_value

record CertSnapshot =
  cs_certId :: string
  cs_signingCapable :: bool
  cs_keyUsageBits :: nat
  cs_ekuOids :: "string list"
  cs_chainSubjectCns :: "string list"
  cs_trustStatus :: nat
  cs_alwaysAuthenticate :: bool
  cs_keyId :: nat
  cs_keyType :: nat
  cs_keyBits :: nat
  cs_canDerive :: bool
  cs_fields :: "GroupSnapshot list"

record CertField =
  cf_labelKey :: string
  cf_labelFallback :: string
  cf_value :: string

record CertInfo =
  ci_certId :: string
  ci_signingCapable :: bool
  ci_keyUsageBits :: nat
  ci_ekus :: "string list"
  ci_chainSubjectCns :: "string list"
  ci_trustStatus :: nat
  ci_alwaysAuthenticate :: bool
  ci_keyId :: nat
  ci_keyType :: nat
  ci_keyBits :: nat
  ci_canDerive :: bool
  ci_fields :: "(string, (string, CertField) smap) smap"

record CredentialRecord =
  cd_id :: string
  cd_label :: string
  cd_kind :: nat
  cd_state :: nat
  cd_retriesLeft :: int
  cd_retriesMax :: int
  cd_usesLeft :: int
  cd_usesMax :: int
  cd_unblocksLeft :: int
  cd_canChange :: bool
  cd_unblockable :: bool
  cd_activatable :: bool
  cd_keyActivationPending :: bool
  cd_keyActivatable :: bool
  cd_recovery :: nat
  cd_blockedGuidanceKey :: string
  cd_blockedGuidanceFallback :: string
  cd_keyActivationGuidanceKey :: string
  cd_keyActivationGuidanceFallback :: string

record WireCredentialRecord =
  wc_id :: string
  wc_label :: string
  wc_kind :: nat
  wc_state :: nat
  wc_retriesLeft :: int
  wc_retriesMax :: int
  wc_usesLeft :: int
  wc_usesMax :: int
  wc_unblocksLeft :: int
  wc_canChange :: bool
  wc_unblockable :: bool
  wc_activatable :: bool
  wc_keyActivationPending :: bool
  wc_keyActivatable :: bool
  wc_recovery :: nat
  wc_blockedGuidanceKey :: string
  wc_blockedGuidanceFallback :: string
  wc_keyActivationGuidanceKey :: string
  wc_keyActivationGuidanceFallback :: string

record CredentialOpResult =
  co_outcome :: nat
  co_retriesLeft :: int
  co_blocked :: bool

record WireCredentialOpResult =
  wo_outcome :: nat
  wo_retriesLeft :: int
  wo_blocked :: bool

record CredentialResult =
  cx_op :: CredentialOpResult
  cx_records :: "CredentialRecord list"

record PhotoSnapshot =
  ph_key :: string
  ph_bytes :: bytes

record BatchRow =
  br_displayName :: string
  br_bytes :: bytes
  br_meta :: SignMeta
  br_code :: nat

datatype ResultPayload =
    RpIdentity CardReadSnapshot
  | RpCertificates "CertSnapshot list"
  | RpPhotos "PhotoSnapshot list"
  | RpSigned SignedArtifact
  | RpBatch "BatchRow list"
  | RpCredentials CredentialResult

record PhotoItem =
  pi_key :: string
  pi_artifact :: nat

record SignBatchRow =
  sb_displayName :: string
  sb_artifact :: nat
  sb_meta :: SignMeta
  sb_code :: nat

datatype wire_result =
    IdentityResult "(string, (string, IdentityField) smap) smap"
  | CertListResult "CertInfo list"
  | PhotoResult "PhotoItem list"
  | SignedResult nat SignMeta
  | SignBatchResult "SignBatchRow list"
  | CredentialsResult WireCredentialOpResult "WireCredentialRecord list"

datatype op_event =
    OpProgress nat nat
  | OpIdentityGroup nat string "(string, IdentityField) smap"
  | OpFinished nat nat nat string string
  | OpResultReady nat wire_result

section \<open>Conversions\<close>

fun fieldTypeName :: "FieldType \<Rightarrow> string" where
  "fieldTypeName FtText = ''text''"
| "fieldTypeName FtDate = ''date''"
| "fieldTypeName FtBinary = ''binary''"
| "fieldTypeName FtPhoto = ''binary''"

definition toIdentityCell :: "FieldSnapshot \<Rightarrow> IdentityField" where
  "toIdentityCell f =
     \<lparr>if_labelKey = fs_labelKey f, if_labelFallback = fs_labelFallback f, if_type = fieldTypeName (fs_type f),
      if_value = (if fs_type f = FtBinary then BinaryValue (fs_binaryValue f) else TextValue (fs_textValue f))\<rparr>"

definition toIdentityGroupFields :: "GroupSnapshot \<Rightarrow> (string, IdentityField) smap" where
  "toIdentityGroupFields g =
     fold (\<lambda>f fields. if fs_type f = FtPhoto then fields
                      else sm_emplace (fs_fieldKey f) (toIdentityCell f) fields) (gs_fields g) []"

definition toIdentityResult :: "CardReadSnapshot \<Rightarrow> (string, (string, IdentityField) smap) smap" where
  "toIdentityResult snap =
     fold (\<lambda>g out. let fields = toIdentityGroupFields g
                   in if fields \<noteq> [] then sm_emplace (gs_groupKey g) fields out else out) (cr_groups snap) []"

definition toCertGroupFields :: "GroupSnapshot \<Rightarrow> (string, CertField) smap" where
  "toCertGroupFields g =
     fold (\<lambda>f. sm_emplace (fs_fieldKey f)
                 \<lparr>cf_labelKey = fs_labelKey f, cf_labelFallback = fs_labelFallback f, cf_value = fs_textValue f\<rparr>)
       (gs_fields g) []"

definition toCertInfo :: "CertSnapshot \<Rightarrow> CertInfo" where
  "toCertInfo c =
     \<lparr>ci_certId = cs_certId c, ci_signingCapable = cs_signingCapable c, ci_keyUsageBits = cs_keyUsageBits c,
      ci_ekus = cs_ekuOids c, ci_chainSubjectCns = cs_chainSubjectCns c, ci_trustStatus = cs_trustStatus c,
      ci_alwaysAuthenticate = cs_alwaysAuthenticate c, ci_keyId = cs_keyId c, ci_keyType = cs_keyType c,
      ci_keyBits = cs_keyBits c, ci_canDerive = cs_canDerive c,
      ci_fields = fold (\<lambda>g. sm_emplace (gs_groupKey g) (toCertGroupFields g)) (cs_fields c) []\<rparr>"

definition toWireCredentialRecord :: "CredentialRecord \<Rightarrow> WireCredentialRecord" where
  "toWireCredentialRecord r =
     \<lparr>wc_id = cd_id r, wc_label = cd_label r, wc_kind = cd_kind r, wc_state = cd_state r,
      wc_retriesLeft = cd_retriesLeft r, wc_retriesMax = cd_retriesMax r, wc_usesLeft = cd_usesLeft r,
      wc_usesMax = cd_usesMax r, wc_unblocksLeft = cd_unblocksLeft r, wc_canChange = cd_canChange r,
      wc_unblockable = cd_unblockable r, wc_activatable = cd_activatable r,
      wc_keyActivationPending = cd_keyActivationPending r, wc_keyActivatable = cd_keyActivatable r,
      wc_recovery = cd_recovery r, wc_blockedGuidanceKey = cd_blockedGuidanceKey r,
      wc_blockedGuidanceFallback = cd_blockedGuidanceFallback r,
      wc_keyActivationGuidanceKey = cd_keyActivationGuidanceKey r,
      wc_keyActivationGuidanceFallback = cd_keyActivationGuidanceFallback r\<rparr>"

definition toWireCredentialOpResult :: "CredentialOpResult \<Rightarrow> WireCredentialOpResult" where
  "toWireCredentialOpResult r =
     \<lparr>wo_outcome = co_outcome r, wo_retriesLeft = co_retriesLeft r, wo_blocked = co_blocked r\<rparr>"

definition toWireCredentialsResult :: "CredentialResult \<Rightarrow> wire_result" where
  "toWireCredentialsResult r =
     CredentialsResult (toWireCredentialOpResult (cx_op r)) (map toWireCredentialRecord (cx_records r))"

section \<open>The channel\<close>

datatype posted_task = SendEvent nat cbor "bytes list" | Stash nat SignedArtifact | Prune nat

record chan_env =
  ce_toCbor :: "op_event \<Rightarrow> cbor option"
  ce_posts :: bool
  ce_anon :: "nat \<Rightarrow> anon_sys"
  ce_onSignArtifact :: "bool option"
  ce_onFinished :: "bool option"

record channel =
  ch_connId :: nat
  ch_opId :: nat
  ch_phase :: "nat option"
  ch_posted :: "posted_task list"
  ch_warnings :: nat

definition warnDropped :: "channel \<Rightarrow> channel" where
  "warnDropped c = c\<lparr>ch_warnings := ch_warnings c + 1\<rparr>"

definition postTask :: "posted_task \<Rightarrow> channel \<Rightarrow> channel" where
  "postTask t c = c\<lparr>ch_posted := ch_posted c @ [t]\<rparr>"

definition postEvent :: "chan_env \<Rightarrow> op_event \<Rightarrow> bytes list \<Rightarrow> channel \<Rightarrow> channel option" where
  "postEvent env ev fds c =
     (case ce_toCbor env ev of
        None \<Rightarrow> None
      | Some msg \<Rightarrow> if ce_posts env then Some (postTask (SendEvent (ch_connId c) msg fds) c) else None)"

definition emitOrWarn :: "chan_env \<Rightarrow> op_event \<Rightarrow> channel \<Rightarrow> channel" where
  "emitOrWarn env ev c = (case postEvent env ev [] c of Some c' \<Rightarrow> c' | None \<Rightarrow> warnDropped c)"

definition emitPropertiesChanged :: "chan_env \<Rightarrow> channel \<Rightarrow> channel" where
  "emitPropertiesChanged env c =
     emitOrWarn env (OpProgress (ch_opId c) (case ch_phase c of Some p \<Rightarrow> p | None \<Rightarrow> 0)) c"

definition emitGroup :: "chan_env \<Rightarrow> GroupSnapshot \<Rightarrow> channel \<Rightarrow> channel" where
  "emitGroup env g c = emitOrWarn env (OpIdentityGroup (ch_opId c) (gs_groupKey g) (toIdentityGroupFields g)) c"

definition emitFinished :: "chan_env \<Rightarrow> nat \<Rightarrow> nat \<Rightarrow> string \<Rightarrow> string \<Rightarrow> channel \<Rightarrow> channel" where
  "emitFinished env status code msgKey msgFallback c =
     (let c1 = emitOrWarn env (OpFinished (ch_opId c) status code msgKey msgFallback) c
      in case ce_onFinished env of
           None \<Rightarrow> c1
         | Some ok \<Rightarrow> if ok then postTask (Prune (ch_opId c)) c1 else warnDropped c1)"

text \<open>
  The rows of a photo or batch result: one anonymous file each, the row naming the position of its
  own file. The outer \<open>None\<close> is a write loop that does not return, the inner one a failed file.
\<close>

fun materialize ::
    "(nat \<Rightarrow> anon_sys) \<Rightarrow> ('row \<Rightarrow> bytes) \<Rightarrow> ('row \<Rightarrow> nat \<Rightarrow> 'wire) \<Rightarrow> 'row list \<Rightarrow> 'wire list \<Rightarrow> bytes list
       \<Rightarrow> ('wire list \<times> bytes list) option option" where
  "materialize anon content toWire [] out fds = Some (Some (out, fds))"
| "materialize anon content toWire (row # rows) out fds =
     (case anonFdFromBytes (anon (length fds)) (content row) of
        None \<Rightarrow> None
      | Some None \<Rightarrow> Some None
      | Some (Some fd) \<Rightarrow>
          materialize anon content toWire rows (out @ [toWire row (length fds)]) (fds @ [fd]))"

definition toPhotoItem :: "PhotoSnapshot \<Rightarrow> nat \<Rightarrow> PhotoItem" where
  "toPhotoItem p i = \<lparr>pi_key = ph_key p, pi_artifact = i\<rparr>"

definition toSignBatchRow :: "BatchRow \<Rightarrow> nat \<Rightarrow> SignBatchRow" where
  "toSignBatchRow r i = \<lparr>sb_displayName = br_displayName r, sb_artifact = i, sb_meta = br_meta r, sb_code = br_code r\<rparr>"

text \<open>The visit of the payload: the wire result with its files, and whether a sign result is to be stashed.\<close>

definition visitResult ::
    "chan_env \<Rightarrow> ResultPayload \<Rightarrow> (wire_result \<times> bytes list \<times> SignedArtifact option) option option" where
  "visitResult env result =
     (case result of
        RpIdentity snap \<Rightarrow> Some (Some (IdentityResult (toIdentityResult snap), [], None))
      | RpCertificates cs \<Rightarrow> Some (Some (CertListResult (map toCertInfo cs), [], None))
      | RpPhotos ps \<Rightarrow>
          map_option (map_option (\<lambda>(items, fds). (PhotoResult items, fds, None)))
            (materialize (ce_anon env) ph_bytes toPhotoItem ps [] [])
      | RpSigned a \<Rightarrow>
          map_option (map_option (\<lambda>fd. (SignedResult 0 (sa_meta a), [fd], Some a)))
            (anonFdFromBytes (ce_anon env 0) (sa_bytes a))
      | RpBatch rows \<Rightarrow>
          map_option (map_option (\<lambda>(items, fds). (SignBatchResult items, fds, None)))
            (materialize (ce_anon env) br_bytes toSignBatchRow rows [] [])
      | RpCredentials r \<Rightarrow> Some (Some (toWireCredentialsResult r, [], None)))"

text \<open>The sign sink runs inside the guarded block: a sink that throws fails the result.\<close>

definition stashResult :: "chan_env \<Rightarrow> SignedArtifact option \<Rightarrow> channel \<Rightarrow> channel option" where
  "stashResult env a c =
     (case (a, ce_onSignArtifact env) of
        (Some art, Some ok) \<Rightarrow> if ok then Some (postTask (Stash (ch_opId c) art) c) else None
      | _ \<Rightarrow> Some c)"

definition emitResult :: "chan_env \<Rightarrow> ResultPayload \<Rightarrow> channel \<Rightarrow> (bool \<times> channel) option" where
  "emitResult env result c =
     (case visitResult env result of
        None \<Rightarrow> None
      | Some None \<Rightarrow> Some (False, c)
      | Some (Some (wire, fds, art)) \<Rightarrow>
          (case stashResult env art c of
             None \<Rightarrow> Some (False, warnDropped c)
           | Some c1 \<Rightarrow>
               (case postEvent env (OpResultReady (ch_opId c) wire) fds c1 of
                  None \<Rightarrow> Some (False, warnDropped c1)
                | Some c2 \<Rightarrow> Some (True, c2))))"

text \<open>
  The tasks on the loop, as far as the frontend is concerned: the sinks the frontend gave the channel
  store the artifact under the operation's owner and forget the finished operation; nothing runs once
  the loop is quiesced. The send itself belongs to the transport and leaves the frontend alone.
\<close>

fun runPostedTask :: "string \<Rightarrow> posted_task \<Rightarrow> ('core, 'box) world \<Rightarrow> ('core, 'box) world" where
  "runPostedTask owner (SendEvent connId msg fds) w = w"
| "runPostedTask owner (Stash opId a) w = (if w_quiesced w then w else stashSignArtifact opId owner a w)"
| "runPostedTask owner (Prune opId) w = (if w_quiesced w then w else opFinished opId w)"

section \<open>What a result carries\<close>

text \<open>The reference: every row numbered by its position, and the artifacts in that order.\<close>

fun artifacts :: "ResultPayload \<Rightarrow> bytes list" where
  "artifacts (RpPhotos ps) = map ph_bytes ps"
| "artifacts (RpSigned a) = [sa_bytes a]"
| "artifacts (RpBatch rows) = map br_bytes rows"
| "artifacts _ = []"

fun wireOf :: "ResultPayload \<Rightarrow> wire_result" where
  "wireOf (RpIdentity snap) = IdentityResult (toIdentityResult snap)"
| "wireOf (RpCertificates cs) = CertListResult (map toCertInfo cs)"
| "wireOf (RpPhotos ps) = PhotoResult (map2 toPhotoItem ps [0..<length ps])"
| "wireOf (RpSigned a) = SignedResult 0 (sa_meta a)"
| "wireOf (RpBatch rows) = SignBatchResult (map2 toSignBatchRow rows [0..<length rows])"
| "wireOf (RpCredentials r) = toWireCredentialsResult r"

fun stashed :: "ResultPayload \<Rightarrow> SignedArtifact option" where
  "stashed (RpSigned a) = Some a"
| "stashed _ = None"

fun isSend :: "posted_task \<Rightarrow> bool" where
  "isSend (SendEvent _ _ _) = True"
| "isSend _ = False"

lemma materialize_spec:
  "materialize anon content toWire rows out fds = Some (Some (out', fds')) \<Longrightarrow>
     fds' = fds @ map content rows \<and> out' = out @ map2 toWire rows [length fds..<length fds + length rows]"
proof (induction rows arbitrary: out fds)
  case (Cons row rows)
  from Cons.prems have
    "materialize anon content toWire rows (out @ [toWire row (length fds)]) (fds @ [content row]) = Some (Some (out', fds'))"
    by (auto split: option.splits dest: anonFd_content)
  from Cons.IH [OF this] show ?case by (simp add: upt_conv_Cons del: upt_Suc)
qed simp

lemma visitResult_spec:
  "visitResult env r = Some (Some (wire, fds, art)) \<Longrightarrow> wire = wireOf r \<and> fds = artifacts r \<and> art = stashed r"
  by (cases r) (auto simp: visitResult_def dest!: materialize_spec anonFd_content)

definition answering :: "anon_sys \<Rightarrow> bool" where
  "answering sys \<longleftrightarrow> (\<forall>n. \<exists>m \<ge> n. as_pwrite sys m \<noteq> PwEIntr)"

definition neverFails :: "anon_sys \<Rightarrow> bool" where
  "neverFails sys \<longleftrightarrow> as_mkstemp sys \<and> (\<forall>n. as_pwrite sys n \<noteq> PwError \<and> as_pwrite sys n \<noteq> PwWrote 0)"

lemma anonFd_returns:
  assumes "answering sys"
  shows "\<exists>r. anonFdFromBytes sys b = Some r \<and> (neverFails sys \<longrightarrow> r = Some b)"
proof -
  have "\<And>n. \<exists>m \<ge> n. as_pwrite sys m \<noteq> PwEIntr" using assms by (simp add: answering_def)
  from writeAll_returns [OF this, of b 0 0 "[]"] obtain r where r: "writeAll (as_pwrite sys) b 0 0 [] = Some r"
    "(\<forall>n. as_pwrite sys n \<noteq> PwError \<and> as_pwrite sys n \<noteq> PwWrote 0) \<longrightarrow> r \<noteq> None" by blast
  have "r = Some b" if "neverFails sys"
    using r that writeAll_content [OF r(1)] by (cases r) (simp_all add: neverFails_def)
  with r(1) show ?thesis by (simp add: anonFdFromBytes_def neverFails_def)
qed

lemma materialize_returns:
  assumes "\<And>i. answering (anon i)"
  shows "\<exists>r. materialize anon content toWire rows out fds = Some r \<and> ((\<forall>i. neverFails (anon i)) \<longrightarrow> r \<noteq> None)"
proof (induction rows arbitrary: out fds)
  case (Cons row rows)
  obtain r where "anonFdFromBytes (anon (length fds)) (content row) = Some r"
    "neverFails (anon (length fds)) \<longrightarrow> r = Some (content row)"
    using anonFd_returns [OF assms] by blast
  with Cons show ?case by (cases r) auto
qed simp

lemma visitResult_returns:
  assumes "\<And>i. answering (ce_anon env i)"
  shows "\<exists>v. visitResult env r = Some v \<and> ((\<forall>i. neverFails (ce_anon env i)) \<longrightarrow> v \<noteq> None)"
proof (cases r)
  case (RpPhotos ps)
  then show ?thesis
    using materialize_returns [of "ce_anon env" ph_bytes toPhotoItem ps "[]" "[]"] assms by (auto simp: visitResult_def)
next
  case (RpBatch rows)
  then show ?thesis
    using materialize_returns [of "ce_anon env" br_bytes toSignBatchRow rows "[]" "[]"] assms by (auto simp: visitResult_def)
next
  case (RpSigned a)
  then show ?thesis using anonFd_returns [OF assms, of 0 "sa_bytes a"] by (auto simp: visitResult_def)
qed (auto simp: visitResult_def)

lemma emitResult_returns: "visitResult env r = Some v \<Longrightarrow> emitResult env r c \<noteq> None"
  by (auto simp: emitResult_def split: option.split)

lemma emitOrWarn_posted:
  "\<exists>d. ch_posted (emitOrWarn env ev c) = ch_posted c @ d \<and> (d = [] \<or> (\<exists>msg. d = [SendEvent (ch_connId c) msg []]))"
  by (simp add: emitOrWarn_def postEvent_def postTask_def warnDropped_def split: option.split)

lemma emitResult_cases:
  assumes "emitResult env r c = Some (ok, c')"
  shows "if ok then \<exists>msg. ce_toCbor env (OpResultReady (ch_opId c) (wireOf r)) = Some msg
             \<and> ch_posted c' = ch_posted c
                 @ (case (stashed r, ce_onSignArtifact env) of (Some a, Some _) \<Rightarrow> [Stash (ch_opId c) a] | _ \<Rightarrow> [])
                 @ [SendEvent (ch_connId c) msg (artifacts r)]
             \<and> ch_opId c' = ch_opId c \<and> ch_connId c' = ch_connId c
         else filter isSend (ch_posted c') = filter isSend (ch_posted c)"
proof -
  consider (failed) "visitResult env r = Some None"
    | (visited) "visitResult env r = Some (Some (wireOf r, artifacts r, stashed r))"
  proof (cases "visitResult env r")
    case None
    then show ?thesis using assms by (simp add: emitResult_def)
  next
    case (Some v)
    then show ?thesis using visitResult_spec that by (cases v) fastforce+
  qed
  then show ?thesis
  proof cases
    case failed
    then show ?thesis using assms by (auto simp: emitResult_def)
  next
    case visited
    then show ?thesis using assms
      by (auto simp: emitResult_def stashResult_def postEvent_def postTask_def warnDropped_def
          split: option.splits if_splits)
  qed
qed

section \<open>What an identity shows\<close>

lemma fold_emplace_find:
  "sm_find (fold (\<lambda>x m. if p x then sm_emplace (key x) (val x) m else m) xs m0) k =
     (case sm_find m0 k of
        Some v \<Rightarrow> Some v
      | None \<Rightarrow> map_option val (List.find (\<lambda>x. p x \<and> key x = k) xs))"
  by (induction xs arbitrary: m0) (auto simp: sm_find_emplace split: option.split)

lemma fold_emplace_nonempty:
  "fold (\<lambda>x m. if p x then sm_emplace (key x) (val x) m else m) xs m0 \<noteq> [] \<longleftrightarrow> m0 \<noteq> [] \<or> (\<exists>x \<in> set xs. p x)"
proof (induction xs arbitrary: m0)
  case (Cons x xs)
  have "sm_emplace (key x) (val x) m0 \<noteq> []"
    using sm_put_keys [of "key x" "val x" m0] by (auto simp: sm_emplace_def)
  with Cons show ?case by auto
qed simp

lemma identityGroup_find:
  "sm_find (toIdentityGroupFields g) k
     = map_option toIdentityCell (List.find (\<lambda>f. fs_type f \<noteq> FtPhoto \<and> fs_fieldKey f = k) (gs_fields g))"
proof -
  have "toIdentityGroupFields g
      = fold (\<lambda>f m. if fs_type f \<noteq> FtPhoto then sm_emplace (fs_fieldKey f) (toIdentityCell f) m else m) (gs_fields g) []"
    unfolding toIdentityGroupFields_def by (rule fold_cong) auto
  then show ?thesis by (simp add: fold_emplace_find)
qed

lemma identityGroup_nonempty:
  "toIdentityGroupFields g \<noteq> [] \<longleftrightarrow> (\<exists>f \<in> set (gs_fields g). fs_type f \<noteq> FtPhoto)"
proof -
  have "toIdentityGroupFields g
      = fold (\<lambda>f m. if fs_type f \<noteq> FtPhoto then sm_emplace (fs_fieldKey f) (toIdentityCell f) m else m) (gs_fields g) []"
    unfolding toIdentityGroupFields_def by (rule fold_cong) auto
  then show ?thesis using fold_emplace_nonempty [of "\<lambda>f. fs_type f \<noteq> FtPhoto" fs_fieldKey toIdentityCell] by simp
qed

text \<open>
  The identity a client sees is the first non-photo field of each key in the first group of each
  name that has one: a photo is never among the fields, neither in the result nor in a group sent
  ahead of it, and no empty group is shown.
\<close>
lemma identity_omits_photos:
  "sm_find (toIdentityGroupFields g) k
     = map_option toIdentityCell (List.find (\<lambda>f. fs_type f \<noteq> FtPhoto \<and> fs_fieldKey f = k) (gs_fields g))
   \<and> sm_find (toIdentityResult snap) gk
     = map_option toIdentityGroupFields
         (List.find (\<lambda>g. (\<exists>f \<in> set (gs_fields g). fs_type f \<noteq> FtPhoto) \<and> gs_groupKey g = gk) (cr_groups snap))"
  by (simp add: identityGroup_find toIdentityResult_def Let_def fold_emplace_find identityGroup_nonempty)

section \<open>Delivery\<close>

text \<open>
  C17: the result of an operation is delivered whole or not at all. As long as the kernel does not
  interrupt the file writes forever the channel returns; a delivered result is the one numbered by
  position, with exactly the artifacts in that order, so that every row leads to its own bytes; a
  failed one sends nothing, and when nothing fails it is delivered.
\<close>
theorem result_delivered_whole:
  assumes "\<And>i n. \<exists>m \<ge> n. as_pwrite (ce_anon env i) m \<noteq> PwEIntr"
  shows "\<exists>ok c'. emitResult env r c = Some (ok, c')
       \<and> (ok \<longrightarrow> (\<exists>msg. ce_toCbor env (OpResultReady (ch_opId c) (wireOf r)) = Some msg
              \<and> filter isSend (ch_posted c') = filter isSend (ch_posted c) @ [SendEvent (ch_connId c) msg (artifacts r)]))
       \<and> (\<not> ok \<longrightarrow> filter isSend (ch_posted c') = filter isSend (ch_posted c))
       \<and> ((\<forall>i. neverFails (ce_anon env i)) \<and> ce_toCbor env (OpResultReady (ch_opId c) (wireOf r)) \<noteq> None \<and> ce_posts env
            \<and> ce_onSignArtifact env \<noteq> Some False \<longrightarrow> ok)"
proof -
  have "\<And>i. answering (ce_anon env i)" using assms by (simp add: answering_def)
  from visitResult_returns [OF this] obtain v where v: "visitResult env r = Some v"
    "(\<forall>i. neverFails (ce_anon env i)) \<longrightarrow> v \<noteq> None" by blast
  obtain ok c' where e: "emitResult env r c = Some (ok, c')"
    using emitResult_returns [OF v(1), of c] by (cases "emitResult env r c") auto
  have sends: "if ok then \<exists>msg. ce_toCbor env (OpResultReady (ch_opId c) (wireOf r)) = Some msg
              \<and> filter isSend (ch_posted c') = filter isSend (ch_posted c) @ [SendEvent (ch_connId c) msg (artifacts r)]
       else filter isSend (ch_posted c') = filter isSend (ch_posted c)"
    using emitResult_cases [OF e] by (auto split: if_splits option.splits)
  have ok if "\<forall>i. neverFails (ce_anon env i)" "ce_toCbor env (OpResultReady (ch_opId c) (wireOf r)) \<noteq> None"
    "ce_posts env" "ce_onSignArtifact env \<noteq> Some False"
  proof -
    from v that(1) obtain wire fds art where "visitResult env r = Some (Some (wire, fds, art))" by auto
    with visitResult_spec [OF this] e that(2-4) show ?thesis
      by (auto simp: emitResult_def stashResult_def postEvent_def postTask_def split: option.splits if_splits)
  qed
  with e sends show ?thesis by (intro exI [of _ ok] exI [of _ c']) (auto split: if_splits)
qed

definition demoChanEnv :: chan_env where
  "demoChanEnv = \<lparr>ce_toCbor = (\<lambda>ev. Some (CText ''event'')), ce_posts = True, ce_anon = (\<lambda>i. demoAnonSys),
     ce_onSignArtifact = Some True, ce_onFinished = Some True\<rparr>"

definition demoChannel :: channel where
  "demoChannel = \<lparr>ch_connId = 1, ch_opId = 7, ch_phase = None, ch_posted = [], ch_warnings = 0\<rparr>"

definition demoPhotos :: ResultPayload where
  "demoPhotos = RpPhotos [\<lparr>ph_key = ''front'', ph_bytes = [1, 2, 3]\<rparr>, \<lparr>ph_key = ''back'', ph_bytes = [4]\<rparr>]"

definition demoArtifact :: SignedArtifact where
  "demoArtifact = \<lparr>sa_bytes = [1, 2], sa_meta = \<lparr>sm_format = ''pades'', sm_level = ''b-b'', sm_tsaUsed = False, sm_chainComplete = True\<rparr>\<rparr>"

lemma demoAnon_never_fails: "neverFails demoAnonSys"
  by (simp add: neverFails_def demoAnonSys_def)

theorem result_delivered_whole_witness:
  "\<exists>c'. emitResult demoChanEnv demoPhotos demoChannel = Some (True, c')
      \<and> filter isSend (ch_posted c') = [SendEvent 1 (CText ''event'') [[1, 2, 3], [4]]]"
  using result_delivered_whole [of demoChanEnv demoPhotos demoChannel] demoAnonSys_answers demoAnon_never_fails
  by (auto simp: demoChanEnv_def demoChannel_def demoPhotos_def)

text \<open>
  C26: a signed document survives a lost result event: once the operation delivered it and finished,
  the client that owns the operation can fetch the same bytes and the same description, any other
  client is told there is no result, and the operation itself is forgotten.
\<close>
theorem signed_result_recoverable:
  assumes "emitResult env (RpSigned a) c = Some (True, c')" and "ce_onSignArtifact env = Some True"
    and "ce_onFinished env = Some True" and "ch_posted c = []" and "\<not> w_quiesced w"
    and "al_anonFd lib (sa_bytes a)"
    and posted: "posted = ch_posted (emitFinished env status code key fallback c')"
    and w': "w' = fold (runPostedTask owner) posted w"
  shows "(\<exists>msg. SendEvent (ch_connId c) msg [sa_bytes a] \<in> set posted)
       \<and> handleGetSignResult lib connId req (ch_opId c) caller w'
           = (if caller = owner then emit (Send connId req (SignResult 0 (sa_meta a)) [sa_bytes a]) w'
              else replyError connId req NoResult w')
       \<and> sm_find (w_opOwners w') (ch_opId c) = None"
proof -
  obtain msg where p: "ch_posted c' = [Stash (ch_opId c) a, SendEvent (ch_connId c) msg [sa_bytes a]]"
    and i: "ch_opId c' = ch_opId c"
    using emitResult_cases [OF assms(1)] assms(2,4) by auto
  then obtain d where d: "posted = ch_posted c' @ d @ [Prune (ch_opId c)]" "d = [] \<or> (\<exists>x y. d = [SendEvent x y []])"
    using assms(3) emitOrWarn_posted [of env "OpFinished (ch_opId c') status code key fallback" c']
    by (auto simp: posted emitFinished_def postTask_def Let_def)
  have "w' = opFinished (ch_opId c) (stashSignArtifact (ch_opId c) owner a w)"
    using d(2) assms(5) by (auto simp: w' d(1) p stashSignArtifact_def)
  with assms(6) show ?thesis
    using p d(1) by (auto simp: handleGetSignResult_def opFinished_def stashSignArtifact_def)
qed

theorem signed_result_recoverable_witness:
  "\<exists>c'. emitResult demoChanEnv (RpSigned demoArtifact) demoChannel = Some (True, c')
      \<and> handleGetSignResult demoAgent 1 9 7 ''conn:1''
          (fold (runPostedTask ''conn:1'') (ch_posted (emitFinished demoChanEnv 0 0 [] [] c')) demoWorld)
        = emit (Send 1 9 (SignResult 0 (sa_meta demoArtifact)) [[1, 2]])
          (fold (runPostedTask ''conn:1'') (ch_posted (emitFinished demoChanEnv 0 0 [] [] c')) demoWorld)"
proof -
  have env: "ce_onSignArtifact demoChanEnv = Some True" "ce_onFinished demoChanEnv = Some True"
    "ch_posted demoChannel = []" "\<not> w_quiesced demoWorld" "al_anonFd demoAgent (sa_bytes demoArtifact)"
    "ch_opId demoChannel = 7" "sa_bytes demoArtifact = [1, 2]"
    by (simp_all add: demoChanEnv_def demoChannel_def demoWorld_def demoAgent_def demoArtifact_def)
  have "answering demoAnonSys" using demoAnonSys_answers by (simp add: answering_def)
  from anonFd_returns [OF this, of "[1, 2]"] have "anonFdFromBytes demoAnonSys [1, 2] = Some (Some [1, 2])"
    using demoAnon_never_fails by auto
  then obtain c' where "emitResult demoChanEnv (RpSigned demoArtifact) demoChannel = Some (True, c')"
    by (simp add: emitResult_def visitResult_def stashResult_def postEvent_def demoChanEnv_def demoArtifact_def)
  from signed_result_recoverable [OF this env(1-5) refl refl, where caller = "''conn:1''" and owner = "''conn:1''" and connId = 1 and req = 9
      and status = 0 and code = 0 and key = "[]" and fallback = "[]"] this env(6,7)
  show ?thesis by auto
qed

end
