(* ===== verification/Card_Resolution.thy ===== *)
theory Card_Resolution
  imports Presence
begin

text \<open>
  The presence half of \<^verbatim>\<open>agent/src/backend/SocketFrontend.cpp\<close>: what happens between the insertion of a
  card and its announcement. A new card is pending until a probe on its reader's worker says what it
  can do; a probe that cannot be queued and a card held by someone else are asked again later. The
  state has the frontend's two maps, the presence registry, the outstanding probes and timers, the
  events broadcast and a trace. Each step is one task on the loop, in any order; a task that is
  dropped after the shutdown is a step that is never taken. The retry policy, the classification of a
  reader and the worker queue belong to the agent library: arguments here, the first over an
  abstract count of attempts.
\<close>

section \<open>State\<close>

record card_probe =
  cp_capabilities :: u32
  cp_preReadAuth :: nat
  cp_cardType :: string
  cp_failure :: "nat option"

record 'att PendingCard =
  pc_card :: AgentCardState
  pc_attempts :: 'att

datatype res_fx =
    Inserted nat
  | Withdrawn nat
  | Published nat
  | ProbeAsked nat string
  | RemovedReader nat
  | Held nat string

record 'att resolver =
  rs_readerNames :: "(nat, string) smap"
  rs_pendingCards :: "(nat, 'att PendingCard) smap"
  rs_presence :: presence
  rs_probes :: "AgentCardState list"
  rs_timers :: "AgentCardState list"
  rs_events :: "event list"
  rs_trace :: "res_fx list"

text \<open>The agent library's policy, with the failure kind the frontend names as worth waiting for.\<close>

record 'att policy =
  po_fresh :: 'att
  po_retryAfter :: "(nat \<Rightarrow> bool) \<Rightarrow> card_probe \<Rightarrow> 'att \<Rightarrow> nat option \<times> 'att"
  po_holdsReader :: "card_probe \<Rightarrow> PresenceRoster \<Rightarrow> string \<Rightarrow> bool"
  po_sessionRefused :: nat

definition isRefusedSession :: "'att policy \<Rightarrow> nat \<Rightarrow> bool" where
  "isRefusedSession pol kind \<longleftrightarrow> kind = po_sessionRefused pol"

section \<open>Operations\<close>

definition note_fx :: "res_fx list \<Rightarrow> 'att resolver \<Rightarrow> 'att resolver" where
  "note_fx es s = s\<lparr>rs_trace := rs_trace s @ es\<rparr>"

definition registry :: "(presence \<Rightarrow> presence \<times> event list) \<Rightarrow> 'att resolver \<Rightarrow> 'att resolver" where
  "registry f s = (case f (rs_presence s) of (p, evs) \<Rightarrow> s\<lparr>rs_presence := p, rs_events := rs_events s @ evs\<rparr>)"

definition readerNameOf :: "nat \<Rightarrow> 'att resolver \<Rightarrow> string" where
  "readerNameOf rid s = (case sm_find (rs_readerNames s) rid of None \<Rightarrow> [] | Some n \<Rightarrow> n)"

definition onReaderPublished :: "AgentReaderState \<Rightarrow> 'att resolver \<Rightarrow> 'att resolver" where
  "onReaderPublished r s =
     registry (publishReader r) (s\<lparr>rs_readerNames := sm_put (ar_id r) (ar_name r) (rs_readerNames s)\<rparr>)"

definition scheduleCardResolve :: "'att policy \<Rightarrow> bool \<Rightarrow> AgentCardState \<Rightarrow> 'att resolver \<Rightarrow> 'att resolver" where
  "scheduleCardResolve pol queued c s =
     (let pending = (case sm_find (rs_pendingCards s) (ac_id c) of
                       None \<Rightarrow> \<lparr>pc_card = c, pc_attempts = po_fresh pol\<rparr>
                     | Some pc \<Rightarrow> pc\<lparr>pc_card := c\<rparr>);
          s1 = note_fx [ProbeAsked (ac_reader c) (readerNameOf (ac_reader c) s)]
                 (s\<lparr>rs_pendingCards := sm_put (ac_id c) pending (rs_pendingCards s)\<rparr>)
      in if queued then s1\<lparr>rs_probes := rs_probes s1 @ [c]\<rparr> else s1\<lparr>rs_timers := rs_timers s1 @ [c]\<rparr>)"

definition onCardPublished :: "'att policy \<Rightarrow> bool \<Rightarrow> AgentCardState \<Rightarrow> 'att resolver \<Rightarrow> 'att resolver" where
  "onCardPublished pol queued c s = scheduleCardResolve pol queued c (note_fx [Inserted (ac_id c)] s)"

definition resolveTimer :: "'att policy \<Rightarrow> bool \<Rightarrow> nat \<Rightarrow> 'att resolver \<Rightarrow> 'att resolver" where
  "resolveTimer pol queued i s =
     (let c = rs_timers s ! i;
          s1 = s\<lparr>rs_timers := take i (rs_timers s) @ drop (Suc i) (rs_timers s)\<rparr>
      in if sm_find (rs_pendingCards s1) (ac_id c) \<noteq> None then scheduleCardResolve pol queued c s1 else s1)"

definition refinedCard :: "AgentCardState \<Rightarrow> card_probe \<Rightarrow> AgentCardState" where
  "refinedCard c probe =
     \<lparr>ac_id = ac_id c, ac_reader = ac_reader c, ac_capabilities = cp_capabilities probe,
      ac_preReadAuth = cp_preReadAuth probe, ac_cardType = cp_cardType probe, ac_atrHex = ac_atrHex c\<rparr>"

definition applyCardResolution ::
    "'att policy \<Rightarrow> AgentCardState \<Rightarrow> card_probe \<Rightarrow> 'att resolver \<Rightarrow> 'att resolver" where
  "applyCardResolution pol c probe s =
     (case sm_find (rs_pendingCards s) (ac_id c) of
        None \<Rightarrow> s
      | Some pc \<Rightarrow>
          (case po_retryAfter pol (isRefusedSession pol) probe (pc_attempts pc) of
             (Some delay, att) \<Rightarrow>
               s\<lparr>rs_pendingCards := sm_put (ac_id c) (pc\<lparr>pc_attempts := att\<rparr>) (rs_pendingCards s),
                 rs_timers := rs_timers s @ [c]\<rparr>
           | (None, att) \<Rightarrow>
               (let s1 = note_fx [Published (ac_id c)] (registry (publishCard (refinedCard c probe))
                           (s\<lparr>rs_pendingCards := sm_erase (ac_id c) (rs_pendingCards s)\<rparr>))
                in if po_holdsReader pol probe (presenceRoster (rs_presence s1)) (showNat (ac_id c))
                   then note_fx [Held (ac_reader c) (readerNameOf (ac_reader c) s1)] s1 else s1)))"

definition probeAnswered :: "'att policy \<Rightarrow> card_probe \<Rightarrow> nat \<Rightarrow> 'att resolver \<Rightarrow> 'att resolver" where
  "probeAnswered pol probe i s =
     applyCardResolution pol (rs_probes s ! i) probe
       (s\<lparr>rs_probes := take i (rs_probes s) @ drop (Suc i) (rs_probes s)\<rparr>)"

definition onWithdrawn :: "nat \<Rightarrow> 'att resolver \<Rightarrow> 'att resolver" where
  "onWithdrawn object s =
     (let s1 = note_fx [Withdrawn object] (s\<lparr>rs_pendingCards := sm_erase object (rs_pendingCards s)\<rparr>);
          s2 = (if sm_find (rs_readerNames s1) object \<noteq> None
                then note_fx [RemovedReader object] (s1\<lparr>rs_readerNames := sm_erase object (rs_readerNames s1)\<rparr>)
                else s1)
      in registry (withdraw object) s2)"

definition onReaderPropertiesChanged :: "nat \<Rightarrow> PropertyDelta \<Rightarrow> 'att resolver \<Rightarrow> 'att resolver" where
  "onReaderPropertiesChanged rid delta s = registry (updateProperties rid delta) s"

definition onReaderRelabelled :: "(nat \<Rightarrow> string) \<Rightarrow> AgentReaderState \<Rightarrow> 'att resolver \<Rightarrow> 'att resolver" where
  "onReaderRelabelled tok r s = registry (relabelReader tok r) s"

section \<open>Runs\<close>

text \<open>As in the registry, an object is a reader or a card, never both.\<close>

inductive resolveStep :: "'att policy \<Rightarrow> (nat \<Rightarrow> string) \<Rightarrow> 'att resolver \<Rightarrow> 'att resolver \<Rightarrow> bool" for pol tok where
  rs_reader:
    "(\<And>h. sm_find (p_idToHandle (rs_presence s)) (ar_id r) = Some h \<Longrightarrow> sm_find (p_cards (rs_presence s)) h = None)
      \<Longrightarrow> resolveStep pol tok s (onReaderPublished r s)"
| rs_card: "resolveStep pol tok s (onCardPublished pol queued c s)"
| rs_withdraw: "resolveStep pol tok s (onWithdrawn object s)"
| rs_properties: "resolveStep pol tok s (onReaderPropertiesChanged rid delta s)"
| rs_relabel: "resolveStep pol tok s (onReaderRelabelled tok r s)"
| rs_timer: "i < length (rs_timers s) \<Longrightarrow> resolveStep pol tok s (resolveTimer pol queued i s)"
| rs_probe:
    "i < length (rs_probes s)
      \<Longrightarrow> (\<And>h. sm_find (p_idToHandle (rs_presence s)) (ac_id (rs_probes s ! i)) = Some h
              \<Longrightarrow> sm_find (p_readers (rs_presence s)) h = None)
      \<Longrightarrow> resolveStep pol tok s (probeAnswered pol probe i s)"

definition resolverInit :: "'att resolver" where
  "resolverInit = \<lparr>rs_readerNames = [], rs_pendingCards = [], rs_presence = presenceInit, rs_probes = [],
     rs_timers = [], rs_events = [], rs_trace = []\<rparr>"

section \<open>The life of a card\<close>

text \<open>
  The contract, as an automaton over the trace: a card is absent, waiting for its probe or known; only
  a waiting card may be published, anything else is a fault.
\<close>

datatype phase = Absent | Waiting | Known | Faulty

fun phaseStep :: "nat \<Rightarrow> res_fx \<Rightarrow> phase \<Rightarrow> phase" where
  "phaseStep i (Inserted j) ph = (if i = j \<and> ph \<noteq> Faulty then Waiting else ph)"
| "phaseStep i (Withdrawn j) ph = (if i = j \<and> ph \<noteq> Faulty then Absent else ph)"
| "phaseStep i (Published j) ph = (if i = j then if ph = Waiting then Known else Faulty else ph)"
| "phaseStep i _ ph = ph"

definition phaseOf :: "nat \<Rightarrow> res_fx list \<Rightarrow> phase" where
  "phaseOf i tr = fold (phaseStep i) tr Absent"

lemma phaseOf_append [simp]: "phaseOf i (tr @ es) = fold (phaseStep i) es (phaseOf i tr)"
  by (simp add: phaseOf_def)

text \<open>The cards the registry routes, by their ids.\<close>

definition routesCard :: "presence \<Rightarrow> nat \<Rightarrow> bool" where
  "routesCard p i \<longleftrightarrow> (\<exists>h r. sm_find (p_cardRouting p) h = Some r \<and> ro_cardId r = i)"

definition outstanding :: "nat \<Rightarrow> 'att resolver \<Rightarrow> bool" where
  "outstanding i s \<longleftrightarrow> (\<exists>c \<in> set (rs_probes s) \<union> set (rs_timers s). ac_id c = i)"

definition isPending :: "nat \<Rightarrow> 'att resolver \<Rightarrow> bool" where
  "isPending i s \<longleftrightarrow> sm_find (rs_pendingCards s) i \<noteq> None"

definition lifeOk :: "phase \<Rightarrow> bool \<Rightarrow> bool \<Rightarrow> bool \<Rightarrow> bool" where
  "lifeOk ph pending asked published \<longleftrightarrow>
     ph \<noteq> Faulty \<and> (pending \<longleftrightarrow> ph = Waiting) \<and> (pending \<longrightarrow> asked)
     \<and> (ph = Known \<longrightarrow> published) \<and> (ph = Absent \<longrightarrow> \<not> published)"

definition resolverOk :: "'att resolver \<Rightarrow> bool" where
  "resolverOk s \<longleftrightarrow> presenceOk (rs_presence s)
     \<and> (\<forall>i. lifeOk (phaseOf i (rs_trace s)) (isPending i s) (outstanding i s) (routesCard (rs_presence s) i))"

subsection \<open>What the registry operations do to the routed cards\<close>

lemma handleFor_routing: "handleFor oid p = (h, p') \<Longrightarrow> p_cardRouting p' = p_cardRouting p"
  by (auto simp: handleFor_def Let_def split: option.splits)

lemma handleForOpt_routing: "handleForOpt oid p = (h, p') \<Longrightarrow> p_cardRouting p' = p_cardRouting p"
  by (auto simp: handleForOpt_def split: option.splits prod.splits dest: handleFor_routing)

lemma routing_kept [simp]:
  "p_cardRouting (fst (publishReader r p)) = p_cardRouting p"
  "p_cardRouting (fst (updateProperties rid delta p)) = p_cardRouting p"
  "p_cardRouting (fst (relabelReader tok r p)) = p_cardRouting p"
  by (auto simp: publishReader_def updateProperties_def relabelReader_def rebuildRoster_def Let_def
      split: option.splits prod.splits if_splits dest!: handleFor_routing handleForOpt_routing)

lemma routesCard_cong: "p_cardRouting p = p_cardRouting q \<Longrightarrow> routesCard p i = routesCard q i"
  by (simp add: routesCard_def)

lemma routing_handle:
  assumes "presenceOk p" and "sm_find (p_cardRouting p) h = Some r"
  shows "sm_find (p_handleToId p) h = Some (ro_cardId r) \<and> sm_find (p_cards p) h \<noteq> None
       \<and> sm_find (p_readers p) h = None \<and> sm_find (p_idToHandle p) (ro_cardId r) = Some h"
proof -
  obtain c where c: "sm_find (p_cards p) h = Some c"
    using assms unfolding presenceOk_def cardsOk_def by (metis not_None_eq)
  with card_routed [OF assms(1) this] assms(2) have "sm_find (p_handleToId p) h = Some (ro_cardId r)"
    by (simp add: routed_def)
  moreover have "sm_find (p_readers p) h = None"
    using assms(1) c unfolding presenceOk_def readersOk_def by (metis not_None_eq option.distinct(1))
  ultimately show ?thesis using assms(1) c by (simp add: presenceOk_def handlesOk_def)
qed

lemma routes_publishCard:
  assumes "presenceOk p"
  shows "routesCard (fst (publishCard c p)) i \<longleftrightarrow> i = ac_id c \<or> routesCard p i"
proof -
  obtain h p1 where h: "handleFor (ac_id c) p = (h, p1)" by force
  obtain rh p2 where rh: "handleFor (ac_reader c) p1 = (rh, p2)" by force
  have same: "p_cardRouting p2 = p_cardRouting p" using handleFor_routing h rh by metis
  have old: "ro_cardId r = ac_id c" if "sm_find (p_cardRouting p) h = Some r" for r
  proof -
    have "handlesOk p" using assms by (simp add: presenceOk_def)
    with handleFor_grew [OF this h] routing_handle [OF assms that] show ?thesis
      by (auto simp: grew_def)
  qed
  obtain ro where "p_cardRouting (fst (publishCard c p)) = sm_put h ro (p_cardRouting p)" "ro_cardId ro = ac_id c"
    by (simp add: publishCard_def h rh Let_def rebuildRoster_def same)
  then have "routesCard (fst (publishCard c p)) i
      \<longleftrightarrow> (\<exists>g r. (if g = h then r = ro else sm_find (p_cardRouting p) g = Some r) \<and> ro_cardId r = i)"
    by (auto simp: routesCard_def split: if_splits)
  also have "\<dots> \<longleftrightarrow> i = ac_id c \<or> (\<exists>g r. g \<noteq> h \<and> sm_find (p_cardRouting p) g = Some r \<and> ro_cardId r = i)"
    using \<open>ro_cardId ro = ac_id c\<close> by auto
  also have "\<dots> \<longleftrightarrow> i = ac_id c \<or> routesCard p i"
  proof
    assume "i = ac_id c \<or> routesCard p i"
    then show "i = ac_id c \<or> (\<exists>g r. g \<noteq> h \<and> sm_find (p_cardRouting p) g = Some r \<and> ro_cardId r = i)"
    proof
      assume "routesCard p i"
      then obtain g r where g: "sm_find (p_cardRouting p) g = Some r" "ro_cardId r = i" by (auto simp: routesCard_def)
      show ?thesis
      proof (cases "g = h")
        case True
        with g old show ?thesis by simp
      next
        case False
        with g show ?thesis by blast
      qed
    qed simp
  qed (auto simp: routesCard_def)
  finally show ?thesis .
qed

lemma routes_withdraw:
  assumes "presenceOk p"
  shows "routesCard (fst (withdraw oid p)) i \<longleftrightarrow> i \<noteq> oid \<and> routesCard p i"
proof (cases "sm_find (p_idToHandle p) oid")
  case None
  then show ?thesis using routing_handle [OF assms] by (auto simp: withdraw_def routesCard_def)
next
  case (Some h)
  have own: "ro_cardId r = oid \<longleftrightarrow> g = h" if "sm_find (p_cardRouting p) g = Some r" for g r
  proof -
    have "sm_find (p_handleToId p) h = Some oid" using Some assms by (simp add: presenceOk_def handlesOk_def)
    with routing_handle [OF assms that] Some show ?thesis by auto
  qed
  have "sm_find (p_cardRouting (fst (withdraw oid p))) g
      = (if g = h then None else sm_find (p_cardRouting p) g)" for g
    using routing_handle [OF assms, of h] Some assms
    by (auto simp: withdraw_def rebuildRoster_def presenceOk_def cardsOk_def split: option.splits)
  then show ?thesis using own by (auto simp: routesCard_def split: if_splits)
qed

subsection \<open>Every step follows the automaton\<close>

lemma registry_simps [simp]:
  "rs_presence (registry f s) = fst (f (rs_presence s))"
  "rs_pendingCards (registry f s) = rs_pendingCards s" "rs_probes (registry f s) = rs_probes s"
  "rs_timers (registry f s) = rs_timers s" "rs_trace (registry f s) = rs_trace s"
  "rs_readerNames (registry f s) = rs_readerNames s"
  by (simp_all add: registry_def split: prod.split)

lemma note_fx_simps [simp]:
  "rs_presence (note_fx es s) = rs_presence s" "rs_pendingCards (note_fx es s) = rs_pendingCards s"
  "rs_probes (note_fx es s) = rs_probes s" "rs_timers (note_fx es s) = rs_timers s"
  "rs_trace (note_fx es s) = rs_trace s @ es" "rs_readerNames (note_fx es s) = rs_readerNames s"
  by (simp_all add: note_fx_def)

lemma resolverOk_life: "resolverOk s \<Longrightarrow> lifeOk (phaseOf i (rs_trace s)) (isPending i s) (outstanding i s) (routesCard (rs_presence s) i)"
  by (simp add: resolverOk_def)

lemma schedule_fields [simp]:
  "rs_presence (scheduleCardResolve pol queued c s) = rs_presence s"
  "isPending i (scheduleCardResolve pol queued c s) \<longleftrightarrow> i = ac_id c \<or> isPending i s"
  "phaseOf i (rs_trace (scheduleCardResolve pol queued c s)) = phaseOf i (rs_trace s)"
  "outstanding i (scheduleCardResolve pol queued c s) \<longleftrightarrow> i = ac_id c \<or> outstanding i s"
  by (auto simp: scheduleCardResolve_def Let_def outstanding_def isPending_def)

lemma view_simps [simp]:
  "isPending i (note_fx es s) = isPending i s" "outstanding i (note_fx es s) = outstanding i s"
  "isPending i (registry f s) = isPending i s" "outstanding i (registry f s) = outstanding i s"
  "isPending i (s\<lparr>rs_probes := ps\<rparr>) = isPending i s" "isPending i (s\<lparr>rs_timers := ts\<rparr>) = isPending i s"
  "isPending i (s\<lparr>rs_pendingCards := sm_erase j (rs_pendingCards s)\<rparr>) \<longleftrightarrow> i \<noteq> j \<and> isPending i s"
  "outstanding i (s\<lparr>rs_pendingCards := m\<rparr>) = outstanding i s"
  "isPending i (s\<lparr>rs_readerNames := ns\<rparr>) = isPending i s" "outstanding i (s\<lparr>rs_readerNames := ns\<rparr>) = outstanding i s"
  by (simp_all add: isPending_def outstanding_def)

lemma take_drop_in: "i < length xs \<Longrightarrow> set xs = insert (xs ! i) (set (take i xs @ drop (Suc i) xs))"
  by (metis append_take_drop_id Cons_nth_drop_Suc set_append set_simps(2) Un_insert_right)

text \<open>Taking an outstanding task away leaves every other card asked about.\<close>

lemma outstanding_timer:
  "i < length (rs_timers s) \<Longrightarrow> outstanding j s
     \<Longrightarrow> j = ac_id (rs_timers s ! i) \<or> outstanding j (s\<lparr>rs_timers := take i (rs_timers s) @ drop (Suc i) (rs_timers s)\<rparr>)"
  using take_drop_in [of i "rs_timers s"] by (auto simp: outstanding_def)

lemma outstanding_probe:
  "i < length (rs_probes s) \<Longrightarrow> outstanding j s
     \<Longrightarrow> j = ac_id (rs_probes s ! i) \<or> outstanding j (s\<lparr>rs_probes := take i (rs_probes s) @ drop (Suc i) (rs_probes s)\<rparr>)"
  using take_drop_in [of i "rs_probes s"] by (auto simp: outstanding_def)

lemma resolverOk_card [inv_intros]: "resolverOk s \<Longrightarrow> resolverOk (onCardPublished pol queued c s)"
  by (auto simp: resolverOk_def onCardPublished_def lifeOk_def)

lemma resolverOk_timer [inv_intros]:
  assumes "resolverOk s" and "i < length (rs_timers s)"
  shows "resolverOk (resolveTimer pol queued i s)"
proof -
  let ?s = "s\<lparr>rs_timers := take i (rs_timers s) @ drop (Suc i) (rs_timers s)\<rparr>"
  let ?t = "resolveTimer pol queued i s"
  have "?t = (if isPending (ac_id (rs_timers s ! i)) s then scheduleCardResolve pol queued (rs_timers s ! i) ?s else ?s)"
    by (simp add: resolveTimer_def Let_def isPending_def)
  then have "rs_presence ?t = rs_presence s" "phaseOf j (rs_trace ?t) = phaseOf j (rs_trace s)"
    "isPending j ?t = isPending j s" "isPending j s \<Longrightarrow> outstanding j s \<Longrightarrow> outstanding j ?t" for j
    using outstanding_timer [OF assms(2), of j] by auto
  with assms(1) show ?thesis unfolding resolverOk_def lifeOk_def by auto
qed

lemma resolverOk_withdraw [inv_intros]:
  assumes "resolverOk s"
  shows "resolverOk (onWithdrawn object s)"
proof -
  let ?t = "onWithdrawn object s"
  have "rs_presence ?t = fst (withdraw object (rs_presence s))" "isPending j ?t \<longleftrightarrow> j \<noteq> object \<and> isPending j s"
    "outstanding j ?t = outstanding j s" for j
    by (simp_all add: onWithdrawn_def Let_def)
  moreover have "phaseOf j (rs_trace ?t) = phaseStep j (Withdrawn object) (phaseOf j (rs_trace s))" for j
    by (auto simp: onWithdrawn_def Let_def)
  moreover have "presenceOk (rs_presence s)" using assms by (simp add: resolverOk_def)
  ultimately show ?thesis
    using assms by (auto simp: resolverOk_def lifeOk_def routes_withdraw withdraw_ok)
qed

lemma resolverOk_registry:
  assumes "resolverOk s" and "presenceOk (rs_presence t)" and "p_cardRouting (rs_presence t) = p_cardRouting (rs_presence s)"
    and "rs_trace t = rs_trace s" and "\<And>i. isPending i t = isPending i s" and "\<And>i. outstanding i t = outstanding i s"
  shows "resolverOk t"
  using assms routesCard_cong [OF assms(3)] by (simp add: resolverOk_def)

lemma resolverOk_reader [inv_intros]:
  assumes "resolverOk s"
    and "\<And>h. sm_find (p_idToHandle (rs_presence s)) (ar_id r) = Some h \<Longrightarrow> sm_find (p_cards (rs_presence s)) h = None"
  shows "resolverOk (onReaderPublished r s)"
  using assms by (intro resolverOk_registry [OF assms(1)])
    (auto simp: onReaderPublished_def resolverOk_def intro: publishReader_ok)

lemma resolverOk_reader_change [inv_intros]:
  assumes "resolverOk s"
  shows "resolverOk (onReaderPropertiesChanged rid delta s)" "resolverOk (onReaderRelabelled tok r s)"
proof -
  have p: "presenceOk (rs_presence s)" using assms by (simp add: resolverOk_def)
  show "resolverOk (onReaderPropertiesChanged rid delta s)"
    by (rule resolverOk_registry [OF assms]) (simp_all add: onReaderPropertiesChanged_def updateProperties_ok p)
  show "resolverOk (onReaderRelabelled tok r s)"
    by (rule resolverOk_registry [OF assms]) (simp_all add: onReaderRelabelled_def relabel_ok p)
qed

text \<open>The answer of a probe that is not tried again publishes the card and ends its wait.\<close>

lemma resolverOk_published:
  assumes ok: "resolverOk s" and i: "i < length (rs_probes s)"
    and reader: "\<And>h. sm_find (p_idToHandle (rs_presence s)) (ac_id (rs_probes s ! i)) = Some h
                   \<Longrightarrow> sm_find (p_readers (rs_presence s)) h = None"
    and pc: "sm_find (rs_pendingCards s) (ac_id (rs_probes s ! i)) = Some pc"
    and final: "po_retryAfter pol (isRefusedSession pol) probe (pc_attempts pc) = (None, att)"
  shows "resolverOk (probeAnswered pol probe i s)"
proof -
  let ?c = "rs_probes s ! i" and ?s = "s\<lparr>rs_probes := take i (rs_probes s) @ drop (Suc i) (rs_probes s)\<rparr>"
  let ?t = "probeAnswered pol probe i s"
  have p: "presenceOk (rs_presence s)" using ok by (simp add: resolverOk_def)
  have fields: "rs_presence ?t = fst (publishCard (refinedCard ?c probe) (rs_presence s))"
    "isPending j ?t \<longleftrightarrow> j \<noteq> ac_id ?c \<and> isPending j s" "outstanding j ?t = outstanding j ?s"
    "phaseOf j (rs_trace ?t) = phaseStep j (Published (ac_id ?c)) (phaseOf j (rs_trace s))" for j
    by (simp_all add: probeAnswered_def applyCardResolution_def pc final Let_def) (simp add: isPending_def)
  have "presenceOk (rs_presence ?t)" unfolding fields(1)
    using reader by (intro publishCard_ok [OF p]) (simp add: refinedCard_def)
  moreover have "routesCard (fst (publishCard (refinedCard ?c probe) (rs_presence s))) j
      \<longleftrightarrow> j = ac_id ?c \<or> routesCard (rs_presence s) j" for j
    using routes_publishCard [OF p] by (simp add: refinedCard_def)
  then have "lifeOk (phaseOf j (rs_trace ?t)) (isPending j ?t) (outstanding j ?t) (routesCard (rs_presence ?t) j)" for j
    using resolverOk_life [OF ok, of j] outstanding_probe [OF i, of j] pc unfolding fields
    by (auto simp: lifeOk_def isPending_def)
  ultimately show ?thesis by (simp add: resolverOk_def)
qed

lemma resolverOk_probe [inv_intros]:
  assumes ok: "resolverOk s" and i: "i < length (rs_probes s)"
    and reader: "\<And>h. sm_find (p_idToHandle (rs_presence s)) (ac_id (rs_probes s ! i)) = Some h
                   \<Longrightarrow> sm_find (p_readers (rs_presence s)) h = None"
  shows "resolverOk (probeAnswered pol probe i s)"
proof -
  let ?c = "rs_probes s ! i" and ?s = "s\<lparr>rs_probes := take i (rs_probes s) @ drop (Suc i) (rs_probes s)\<rparr>"
  let ?t = "probeAnswered pol probe i s"
  have out: "outstanding j s \<Longrightarrow> j = ac_id ?c \<or> outstanding j ?s" for j using outstanding_probe [OF i] .
  show ?thesis
  proof (cases "sm_find (rs_pendingCards s) (ac_id ?c)")
    case None
    then have "?t = ?s" "\<not> isPending (ac_id ?c) s" by (simp_all add: probeAnswered_def applyCardResolution_def isPending_def)
    then show ?thesis using ok out by (auto simp: resolverOk_def lifeOk_def)
  next
    case pc: (Some pc)
    then have waiting: "isPending (ac_id ?c) s" by (simp add: isPending_def)
    obtain retry att where ra: "po_retryAfter pol (isRefusedSession pol) probe (pc_attempts pc) = (retry, att)" by force
    show ?thesis
    proof (cases retry)
      case None
      with ra show ?thesis by (simp add: resolverOk_published [OF ok i reader pc])
    next
      case (Some delay)
      then have "rs_presence ?t = rs_presence s" "isPending j ?t \<longleftrightarrow> j = ac_id ?c \<or> isPending j s"
        "outstanding j ?t \<longleftrightarrow> j = ac_id ?c \<or> outstanding j ?s" "rs_trace ?t = rs_trace s" for j
        using pc by (auto simp: probeAnswered_def applyCardResolution_def ra isPending_def outstanding_def)
      then show ?thesis using ok out waiting by (auto simp: resolverOk_def lifeOk_def)
    qed
  qed
qed

interpretation resolver_system: invariant_system "\<lambda>s. s = resolverInit" "resolveStep pol tok" resolverOk for pol tok
proof
  show "resolverOk s" if "s = resolverInit" for s
  proof -
    have "presenceOk presenceInit" using presence_system.inv_init by blast
    then show ?thesis unfolding that resolverOk_def
      by (simp add: resolverInit_def lifeOk_def phaseOf_def isPending_def routesCard_def presenceInit_def)
  qed
  show "resolverOk t" if "resolverOk s" "resolveStep pol tok s t" for s t
    using that(2,1) by (induction rule: resolveStep.induct) (auto intro: inv_intros)
qed

text \<open>
  C19: between insertion and announcement no card is lost, announced twice or announced after it was
  taken out. In every run, with probes and timers answered in any order and also late, the trace of
  each card follows the automaton: it is published only while it waits, once per insertion; it waits
  exactly while it is pending, and then a probe or a timer for it is outstanding; a published card has
  routing facts and one that was taken out has none.
\<close>
theorem card_life_followed:
  assumes "reach (\<lambda>s. s = resolverInit) (resolveStep pol tok) s"
  shows "phaseOf i (rs_trace s) \<noteq> Faulty
       \<and> (sm_find (rs_pendingCards s) i \<noteq> None \<longleftrightarrow> phaseOf i (rs_trace s) = Waiting)
       \<and> (phaseOf i (rs_trace s) = Waiting \<longrightarrow> (\<exists>c \<in> set (rs_probes s) \<union> set (rs_timers s). ac_id c = i))
       \<and> (phaseOf i (rs_trace s) = Known
            \<longrightarrow> (\<exists>h r. cardRouting h (rs_presence s) = Some r \<and> ro_cardId r = i))
       \<and> (phaseOf i (rs_trace s) = Absent
            \<longrightarrow> (\<forall>h r. cardRouting h (rs_presence s) = Some r \<longrightarrow> ro_cardId r \<noteq> i))"
proof -
  have "lifeOk (phaseOf i (rs_trace s)) (isPending i s) (outstanding i s) (routesCard (rs_presence s) i)"
    using resolver_system.reach_inv [OF assms] by (rule resolverOk_life)
  then show ?thesis
    unfolding lifeOk_def isPending_def outstanding_def routesCard_def cardRouting_def by blast
qed

definition demoPolicy :: "nat policy" where
  "demoPolicy = \<lparr>po_fresh = 0,
     po_retryAfter = (\<lambda>refused probe n. if n < 1 \<and> (\<exists>k. cp_failure probe = Some k \<and> refused k)
                                      then (Some 50, n + 1) else (None, n)),
     po_holdsReader = (\<lambda>probe roster key. False), po_sessionRefused = 3\<rparr>"

definition demoProbe :: card_probe where
  "demoProbe = \<lparr>cp_capabilities = 3, cp_preReadAuth = 0, cp_cardType = ''eid'', cp_failure = None\<rparr>"

definition demoResolved :: "nat resolver" where
  "demoResolved = probeAnswered demoPolicy demoProbe 0 (onCardPublished demoPolicy True demoCard resolverInit)"

lemma demoResolved_reach: "reach (\<lambda>s. s = resolverInit) (resolveStep demoPolicy showNat) demoResolved"
proof -
  let ?s = "onCardPublished demoPolicy True demoCard resolverInit"
  have "reach (\<lambda>s. s = resolverInit) (resolveStep demoPolicy showNat) resolverInit" by (rule reach_init) simp
  moreover have "resolveStep demoPolicy showNat resolverInit ?s" by (rule rs_card)
  ultimately have "reach (\<lambda>s. s = resolverInit) (resolveStep demoPolicy showNat) ?s" by (rule reach_step)
  moreover have "resolveStep demoPolicy showNat ?s demoResolved"
    unfolding demoResolved_def
    by (rule rs_probe) (simp_all add: onCardPublished_def scheduleCardResolve_def resolverInit_def Let_def note_fx_def presenceInit_def)
  ultimately show ?thesis by (rule reach_step)
qed

theorem card_life_followed_witness:
  "\<exists>h r. cardRouting h (rs_presence demoResolved) = Some r \<and> ro_cardId r = 9"
proof -
  have "phaseOf 9 (rs_trace demoResolved) = Known"
    by (simp add: demoResolved_def probeAnswered_def applyCardResolution_def onCardPublished_def scheduleCardResolve_def
        resolverInit_def Let_def demoPolicy_def demoProbe_def demoCard_def phaseOf_def)
  with card_life_followed [OF demoResolved_reach, of 9] show ?thesis by simp
qed

end
