(* ===== verification/Lifecycle.thy ===== *)
theory Lifecycle
  imports Presence
begin

text \<open>
  The seams between the transport and the agent core, \<^verbatim>\<open>AgentCoreSeams.h\<close>, and the system lifecycle,
  \<^verbatim>\<open>SystemLifecycle.h\<close> and \<^verbatim>\<open>SystemLifecycle.mm\<close>: sleep, screen lock and user switch make the core forget
  card access and tell every client why. The notification centres and the power service are the
  registrations the object keeps with them; \<open>notify\<close> and \<open>powerMessage\<close> deliver what the system
  sends, to whoever is registered. What a reason makes the core forget is the agent library's policy:
  the call is an effect in the trace.
\<close>

section \<open>Readers and cards for the core\<close>

text \<open>
  \<^verbatim>\<open>strtoull\<close> in base ten on the keys that reach it, which are printed numbers: the leading digits, and
  the largest 64-bit number when they name a larger one.
\<close>

definition isDigit :: "char \<Rightarrow> bool" where
  "isDigit c \<longleftrightarrow> 48 \<le> (of_char c :: nat) \<and> (of_char c :: nat) < 58"

definition strtoull :: "string \<Rightarrow> nat" where
  "strtoull s = min (readNat (takeWhile isDigit s)) (2 ^ 64 - 1)"

definition resolveReaderCard :: "presence \<Rightarrow> string \<Rightarrow> ReaderCardInfo option" where
  "resolveReaderCard p readerHandle =
     (case readerCard readerHandle p of
        None \<Rightarrow> None
      | Some rc \<Rightarrow> if ri_cardKey rc = [] then None else Some rc)"

definition resolveCardKey :: "presence \<Rightarrow> string \<Rightarrow> nat option" where
  "resolveCardKey p readerHandle =
     (case readerCard readerHandle p of
        None \<Rightarrow> None
      | Some rc \<Rightarrow> if ri_cardKey rc = [] then None else Some (strtoull (ri_cardKey rc)))"

definition resolveReaderIdentity :: "(PresenceRoster \<Rightarrow> string \<Rightarrow> 'identity) \<Rightarrow> presence \<Rightarrow> string \<Rightarrow> 'identity" where
  "resolveReaderIdentity identityForCardIn p cardKey = identityForCardIn (presenceRoster p) cardKey"

section \<open>Events and what they forget\<close>

datatype Event = Suspend | Resume | ScreenLock | ScreenUnlock | SessionResign | SessionActive | PowerOff

datatype QuiesceReason = SystemSleep | SessionInactive | ScreenLocked

fun quiesceReasonFor :: "Event \<Rightarrow> QuiesceReason option" where
  "quiesceReasonFor Suspend = Some SystemSleep"
| "quiesceReasonFor SessionResign = Some SessionInactive"
| "quiesceReasonFor ScreenLock = Some ScreenLocked"
| "quiesceReasonFor Resume = None"
| "quiesceReasonFor ScreenUnlock = None"
| "quiesceReasonFor SessionActive = None"
| "quiesceReasonFor PowerOff = None"

datatype life_fx =
    StopAgent
  | CoreQuiesce QuiesceReason
  | PostQuiesced QuiesceReason
  | Acknowledged nat nat

definition lifecycleHandler :: "Event \<Rightarrow> life_fx list" where
  "lifecycleHandler e =
     (if e = PowerOff then [StopAgent]
      else case quiesceReasonFor e of
             None \<Rightarrow> []
           | Some reason \<Rightarrow> [CoreQuiesce reason, PostQuiesced reason])"

section \<open>Registration\<close>

datatype notification =
    WorkspaceWillSleep | WorkspaceDidWake | WorkspaceSessionDidResignActive | WorkspaceSessionDidBecomeActive
  | WorkspaceWillPowerOff | ScreenIsLocked | ScreenIsUnlocked

datatype power_message = CanSystemSleep | SystemWillSleep | SystemHasPoweredOn | OtherPowerMessage

record lifecycle =
  lc_started :: bool
  lc_tokens :: "(notification \<times> Event) list"
  lc_rootPort :: "nat option"
  lc_runLoopSource :: bool
  lc_refconPort :: nat
  lc_effects :: "life_fx list"

definition lifecycleNew :: lifecycle where
  "lifecycleNew = \<lparr>lc_started = False, lc_tokens = [], lc_rootPort = None, lc_runLoopSource = False,
     lc_refconPort = 0, lc_effects = []\<rparr>"

definition injectForTest :: "Event \<Rightarrow> lifecycle \<Rightarrow> lifecycle" where
  "injectForTest e l = l\<lparr>lc_effects := lc_effects l @ lifecycleHandler e\<rparr>"

definition observed :: "(notification \<times> Event) list" where
  "observed =
     [(WorkspaceWillSleep, Suspend), (WorkspaceDidWake, Resume), (WorkspaceSessionDidResignActive, SessionResign),
      (WorkspaceSessionDidBecomeActive, SessionActive), (WorkspaceWillPowerOff, PowerOff),
      (ScreenIsLocked, ScreenLock), (ScreenIsUnlocked, ScreenUnlock)]"

definition startLifecycle :: "nat option \<Rightarrow> lifecycle \<Rightarrow> lifecycle" where
  "startLifecycle port l =
     (if lc_started l then l
      else
        let l1 = l\<lparr>lc_started := True, lc_tokens := lc_tokens l @ observed, lc_rootPort := port\<rparr>
        in case port of
             None \<Rightarrow> l1
           | Some r \<Rightarrow> l1\<lparr>lc_refconPort := r, lc_runLoopSource := True\<rparr>)"

definition stopLifecycle :: "lifecycle \<Rightarrow> lifecycle" where
  "stopLifecycle l =
     (if \<not> lc_started l then l
      else
        let l1 = l\<lparr>lc_started := False, lc_tokens := []\<rparr>
        in if lc_rootPort l1 \<noteq> None then l1\<lparr>lc_rootPort := None, lc_runLoopSource := False\<rparr> else l1)"

text \<open>A notification goes to every observer registered for it, in the order of registration.\<close>

definition notify :: "notification \<Rightarrow> lifecycle \<Rightarrow> lifecycle" where
  "notify n l = fold (\<lambda>(m, e) l. if m = n then injectForTest e l else l) (lc_tokens l) l"

definition ioPowerCallback :: "power_message \<Rightarrow> nat \<Rightarrow> lifecycle \<Rightarrow> lifecycle" where
  "ioPowerCallback msg arg l =
     (let ack = (\<lambda>l. l\<lparr>lc_effects := lc_effects l @ [Acknowledged (lc_refconPort l) arg]\<rparr>)
      in case msg of
           CanSystemSleep \<Rightarrow> ack l
         | SystemWillSleep \<Rightarrow> ack (injectForTest Suspend l)
         | SystemHasPoweredOn \<Rightarrow> injectForTest Resume l
         | OtherPowerMessage \<Rightarrow> l)"

definition powerMessage :: "power_message \<Rightarrow> nat \<Rightarrow> lifecycle \<Rightarrow> lifecycle" where
  "powerMessage msg arg l =
     (if lc_rootPort l \<noteq> None \<and> lc_runLoopSource l then ioPowerCallback msg arg l else l)"

inductive lifecycleStep :: "lifecycle \<Rightarrow> lifecycle \<Rightarrow> bool" where
  lc_start: "lifecycleStep l (startLifecycle port l)"
| lc_stop: "lifecycleStep l (stopLifecycle l)"
| lc_notify: "lifecycleStep l (notify n l)"
| lc_power: "lifecycleStep l (powerMessage msg arg l)"

inductive_cases lifecycleStepE: "lifecycleStep l m"

definition lifecycleOk :: "lifecycle \<Rightarrow> bool" where
  "lifecycleOk l \<longleftrightarrow>
     lc_tokens l = (if lc_started l then observed else [])
     \<and> (\<not> lc_started l \<longrightarrow> lc_rootPort l = None)
     \<and> (lc_runLoopSource l \<longleftrightarrow> lc_rootPort l \<noteq> None)
     \<and> (\<forall>r. lc_rootPort l = Some r \<longrightarrow> lc_refconPort l = r)"

lemma injectForTest_fields [simp]:
  "lc_started (injectForTest e l) = lc_started l" "lc_tokens (injectForTest e l) = lc_tokens l"
  "lc_rootPort (injectForTest e l) = lc_rootPort l" "lc_runLoopSource (injectForTest e l) = lc_runLoopSource l"
  "lc_refconPort (injectForTest e l) = lc_refconPort l"
  "lc_effects (injectForTest e l) = lc_effects l @ lifecycleHandler e"
  by (simp_all add: injectForTest_def)

lemma lifecycleOk_effects [simp]: "lifecycleOk (l\<lparr>lc_effects := es\<rparr>) = lifecycleOk l"
  by (simp add: lifecycleOk_def)

lemma notify_ok: "lifecycleOk (notify n l) = lifecycleOk l"
proof -
  have "lifecycleOk (fold (\<lambda>(m, e) l. if m = n then injectForTest e l else l) ts k) = lifecycleOk k" for ts k
    by (induction ts arbitrary: k) (simp_all add: injectForTest_def split: prod.split)
  then show ?thesis by (simp add: notify_def)
qed

lemma power_ok: "lifecycleOk (powerMessage msg arg l) = lifecycleOk l"
  by (simp add: powerMessage_def ioPowerCallback_def injectForTest_def Let_def split: power_message.split)

lemma start_ok: "lifecycleOk l \<Longrightarrow> lifecycleOk (startLifecycle port l)"
  by (auto simp: lifecycleOk_def startLifecycle_def Let_def split: option.split)

lemma stop_ok: "lifecycleOk l \<Longrightarrow> lifecycleOk (stopLifecycle l)"
  by (auto simp: lifecycleOk_def stopLifecycle_def Let_def)

interpretation lifecycle_system: invariant_system "\<lambda>l. l = lifecycleNew" lifecycleStep lifecycleOk
proof
  show "lifecycleOk l" if "l = lifecycleNew" for l using that by (simp add: lifecycleOk_def lifecycleNew_def)
  show "lifecycleOk m" if "lifecycleOk l" "lifecycleStep l m" for l m
    using that(2,1) by (elim lifecycleStepE) (simp_all add: start_ok stop_ok notify_ok power_ok)
qed

section \<open>Properties\<close>

fun eventFor :: "notification \<Rightarrow> Event" where
  "eventFor WorkspaceWillSleep = Suspend"
| "eventFor WorkspaceDidWake = Resume"
| "eventFor WorkspaceSessionDidResignActive = SessionResign"
| "eventFor WorkspaceSessionDidBecomeActive = SessionActive"
| "eventFor WorkspaceWillPowerOff = PowerOff"
| "eventFor ScreenIsLocked = ScreenLock"
| "eventFor ScreenIsUnlocked = ScreenUnlock"

text \<open>
  C32: however often it was started and stopped, a running lifecycle handles each notification exactly
  once and a stopped one none; when the system is about to sleep, the core has forgotten card access
  and the clients' notice is posted before the sleep is acknowledged, every sleep query is
  acknowledged at once, on the port of the registration, and nothing else is.
\<close>
theorem sleep_quiesces_before_ack:
  assumes "reach (\<lambda>l. l = lifecycleNew) lifecycleStep l"
  shows "lc_effects (notify n l) = lc_effects l @ (if lc_started l then lifecycleHandler (eventFor n) else [])
       \<and> lc_effects (powerMessage msg arg l) = lc_effects l @
           (case lc_rootPort l of
              None \<Rightarrow> []
            | Some port \<Rightarrow>
                (case msg of
                   SystemWillSleep \<Rightarrow> [CoreQuiesce SystemSleep, PostQuiesced SystemSleep, Acknowledged port arg]
                 | CanSystemSleep \<Rightarrow> [Acknowledged port arg]
                 | _ \<Rightarrow> []))
       \<and> (\<not> lc_started l \<longrightarrow> lc_rootPort l = None)"
proof -
  have ok: "lifecycleOk l" using assms by (rule lifecycle_system.reach_inv)
  then have "lc_effects (notify n l) = lc_effects l @ (if lc_started l then lifecycleHandler (eventFor n) else [])"
    by (cases n) (simp_all add: notify_def lifecycleOk_def observed_def)
  with ok show ?thesis
    by (auto simp: lifecycleOk_def powerMessage_def ioPowerCallback_def Let_def lifecycleHandler_def
        split: power_message.split option.split)
qed

theorem sleep_quiesces_before_ack_witness:
  "lc_effects (powerMessage SystemWillSleep 77 (startLifecycle (Some 5) lifecycleNew))
     = [CoreQuiesce SystemSleep, PostQuiesced SystemSleep, Acknowledged 5 77]"
proof -
  have "reach (\<lambda>l. l = lifecycleNew) lifecycleStep lifecycleNew" by (rule reach_init) simp
  moreover have "lifecycleStep lifecycleNew (startLifecycle (Some 5) lifecycleNew)" by (rule lc_start)
  ultimately have "reach (\<lambda>l. l = lifecycleNew) lifecycleStep (startLifecycle (Some 5) lifecycleNew)" by (rule reach_step)
  from sleep_quiesces_before_ack [OF this, of WorkspaceWillSleep SystemWillSleep 77] show ?thesis
    by (simp add: startLifecycle_def lifecycleNew_def Let_def)
qed

lemma showNat_digits: "list_all isDigit (showNat n)"
proof (induction n rule: showNat.induct)
  case (1 n)
  have d: "isDigit (char_of (48 + k :: nat))" if "k < 10" for k
    using that by (simp add: isDigit_def)
  show ?case
  proof (cases "n < 10")
    case True
    then show ?thesis using d by (simp add: showNat.simps [of n])
  next
    case False
    then show ?thesis using 1 d [of "n mod 10"] by (simp add: showNat.simps [of n])
  qed
qed

lemma strtoull_showNat: "n < 2 ^ 64 \<Longrightarrow> strtoull (showNat n) = n"
proof -
  assume "n < 2 ^ 64"
  have "takeWhile isDigit (showNat n) = showNat n" using showNat_digits [of n] by (simp add: takeWhile_eq_all_conv list_all_iff)
  then show ?thesis unfolding strtoull_def using \<open>n < 2 ^ 64\<close> by (simp only: readNat_showNat)
qed

lemma showNat_nonempty [simp]: "showNat n \<noteq> []"
  by (subst showNat.simps) simp

text \<open>
  The key a PKCS#11 lease is bound to is the card itself: for a reader the registry knows, the key
  recovered from the printed card key is the id behind the handle the reader shows as its card, and
  both lookups answer exactly when the reader shows a card the registry still knows.
\<close>
lemma lease_key_is_card:
  assumes "sm_find (p_readers p) rh = Some r" and "sm_find (p_handleToId p) rh = Some rid"
    and "\<And>h i. sm_find (p_handleToId p) h = Some i \<Longrightarrow> i < 2 ^ 64"
  shows "resolveCardKey p rh = Option.bind (wr_card r) (sm_find (p_handleToId p))
       \<and> map_option ri_readerId (resolveReaderCard p rh) = (if resolveCardKey p rh = None then None else Some rid)
       \<and> map_option ri_cardKey (resolveReaderCard p rh) = map_option showNat (resolveCardKey p rh)"
  using assms
  by (auto simp: resolveCardKey_def resolveReaderCard_def readerCard_def strtoull_showNat split: option.splits)

end
