(* ===== verification/Listener.thy ===== *)
theory Listener
  imports Prelude
begin

text \<open>
  The listening side of \<^verbatim>\<open>agent/src/backend/SocketTransport.cpp\<close>, with
  \<^verbatim>\<open>SocketPathIdentity.h\<close>: binding the container socket, the accept source and its cancel
  handler, the replaced-path guard, pausing when descriptors run out, and the teardown.
  The socket file is the inode its path names; a listening socket is a kernel object
  with a number of its own. What the system calls of one bind answer is an argument, and
  dispatch-source discipline is state: whether the source is suspended, whether a cancel
  handler is still to run, and whether a suspended source was released, which is a crash.
\<close>

section \<open>State\<close>

record listener =
  l_path :: "nat option"
  l_nextIno :: nat
  l_listenFd :: "nat option"
  l_nextSocket :: nat
  l_acceptSource :: "nat option"
  l_suspended :: bool
  l_acceptPaused :: bool
  l_acceptRetryTimer :: bool
  l_pathGuardTimer :: bool
  l_listenIdentity :: "nat option"
  l_rebindPending :: bool
  l_stopping :: bool
  l_cancelledListener :: "nat option"
  l_cancelPending :: bool
  l_closedListenFdAtCancel :: nat
  l_crashed :: bool

text \<open>The length of the path, and what \<^verbatim>\<open>socket\<close>, \<^verbatim>\<open>bind\<close>, \<^verbatim>\<open>lstat\<close> and \<^verbatim>\<open>listen\<close> answer.\<close>

record bind_sys =
  bs_pathLength :: nat
  bs_socket :: bool
  bs_bind :: bool
  bs_stat :: bool
  bs_listen :: bool

definition sunPathSize :: nat where
  "sunPathSize = 104"

definition stillNames :: "nat option \<Rightarrow> nat option \<Rightarrow> bool" where
  "stillNames identity path \<longleftrightarrow> identity \<noteq> None \<and> path = identity"

definition stillHeldBy :: "nat option \<Rightarrow> nat option \<Rightarrow> bool" where
  "stillHeldBy cancelled current \<longleftrightarrow> cancelled \<noteq> None \<and> current = cancelled"

section \<open>Binding\<close>

text \<open>Answers the socket and the inode, or nothing, and the file system afterwards.\<close>

definition bindContainerSocket :: "bind_sys \<Rightarrow> listener \<Rightarrow> (nat \<times> nat) option \<times> listener" where
  "bindContainerSocket sys l =
     (if bs_pathLength sys \<ge> sunPathSize then (None, l)
      else
        let l1 = l\<lparr>l_path := None\<rparr> in
        if \<not> bs_socket sys then (None, l1)
        else
          let fd = l_nextSocket l1;
              l2 = l1\<lparr>l_nextSocket := fd + 1\<rparr> in
          if \<not> bs_bind sys then (None, l2)
          else
            let ino = l_nextIno l2;
                l3 = l2\<lparr>l_path := Some ino, l_nextIno := ino + 1\<rparr> in
            if \<not> bs_stat sys then (None, l3)
            else if \<not> bs_listen sys then (None, l3)
            else (Some (fd, ino), l3))"

definition installAcceptSource :: "listener \<Rightarrow> listener" where
  "installAcceptSource l = l\<lparr>l_acceptSource := l_listenFd l, l_suspended := False\<rparr>"

definition installPathGuard :: "listener \<Rightarrow> listener" where
  "installPathGuard l = l\<lparr>l_pathGuardTimer := True\<rparr>"

definition rebindListenSocket :: "bind_sys \<Rightarrow> listener \<Rightarrow> listener" where
  "rebindListenSocket sys l =
     (case bindContainerSocket sys l of
        (None, l') \<Rightarrow> l'
      | (Some (fd, ino), l') \<Rightarrow>
          installAcceptSource
            (l'\<lparr>l_listenFd := Some fd, l_listenIdentity := Some ino, l_rebindPending := False\<rparr>))"

section \<open>Accepting, pausing, cancelling\<close>

definition resumeAccepting :: "listener \<Rightarrow> listener" where
  "resumeAccepting l =
     (if l_acceptSource l \<noteq> None \<and> l_acceptPaused l
      then l\<lparr>l_suspended := False, l_acceptPaused := False\<rparr>
      else l\<lparr>l_acceptPaused := False\<rparr>)"

definition pauseAccepting :: "listener \<Rightarrow> listener" where
  "pauseAccepting l =
     (if l_acceptSource l = None \<or> l_acceptPaused l then l
      else l\<lparr>l_suspended := True, l_acceptPaused := True, l_acceptRetryTimer := True\<rparr>)"

definition cancelAcceptSource :: "listener \<Rightarrow> listener" where
  "cancelAcceptSource l =
     (let l1 = resumeAccepting l
      in l1\<lparr>l_cancelledListener := l_listenFd l1, l_cancelPending := True, l_acceptSource := None,
            l_crashed := (l_crashed l1 \<or> l_suspended l1)\<rparr>)"

definition checkSocketPath :: "bind_sys \<Rightarrow> listener \<Rightarrow> listener" where
  "checkSocketPath sys l =
     (if l_stopping l then l
      else if l_rebindPending l then
        (if l_listenFd l = None then rebindListenSocket sys l else l)
      else if l_acceptSource l = None \<or> stillNames (l_listenIdentity l) (l_path l) then l
      else cancelAcceptSource (l\<lparr>l_rebindPending := True\<rparr>))"

definition onAcceptSourceCancelled :: "bind_sys \<Rightarrow> listener \<Rightarrow> listener" where
  "onAcceptSourceCancelled sys l =
     (let l1 = (if \<not> stillHeldBy (l_cancelledListener l) (l_listenFd l)
                then l\<lparr>l_closedListenFdAtCancel := l_closedListenFdAtCancel l + 1\<rparr> else l);
          l2 = l1\<lparr>l_cancelledListener := None, l_listenFd := None, l_cancelPending := False\<rparr>
      in if l_stopping l2 then l2
         else
           let l3 = l2\<lparr>l_listenIdentity := None\<rparr>
           in if l_rebindPending l3 then rebindListenSocket sys l3 else l3)"

text \<open>What one \<^verbatim>\<open>accept\<close> answers: a connection, an interruption, no descriptor left, or drained.\<close>

datatype accept_result = Accepted nat | AcceptIntr | OutOfDescriptors | Drained

fun acceptLoop :: "accept_result list \<Rightarrow> listener \<Rightarrow> nat list \<times> listener" where
  "acceptLoop [] l = ([], l)"
| "acceptLoop (Drained # rs) l = ([], l)"
| "acceptLoop (AcceptIntr # rs) l = acceptLoop rs l"
| "acceptLoop (OutOfDescriptors # rs) l = ([], pauseAccepting l)"
| "acceptLoop (Accepted c # rs) l = (case acceptLoop rs l of (cs, l') \<Rightarrow> (c # cs, l'))"

definition onAcceptReady :: "bind_sys \<Rightarrow> accept_result list \<Rightarrow> listener \<Rightarrow> nat list \<times> listener" where
  "onAcceptReady sys rs l = (case acceptLoop rs l of (cs, l') \<Rightarrow> (cs, checkSocketPath sys l'))"

section \<open>Creation and teardown\<close>

definition freshListener :: listener where
  "freshListener = \<lparr>l_path = None, l_nextIno = 1, l_listenFd = None, l_nextSocket = 1, l_acceptSource = None,
     l_suspended = False, l_acceptPaused = False, l_acceptRetryTimer = False, l_pathGuardTimer = False,
     l_listenIdentity = None, l_rebindPending = False, l_stopping = False, l_cancelledListener = None,
     l_cancelPending = False, l_closedListenFdAtCancel = 0, l_crashed = False\<rparr>"

text \<open>The instance lock is taken first; without it nothing at the path is touched.\<close>

definition createTransport :: "bool \<Rightarrow> bind_sys \<Rightarrow> listener \<Rightarrow> listener option \<times> listener" where
  "createTransport locked sys l =
     (if \<not> locked then (None, l)
      else case bindContainerSocket sys l of
        (None, l') \<Rightarrow> (None, l')
      | (Some (fd, ino), l') \<Rightarrow>
          let t = installPathGuard (installAcceptSource (l'\<lparr>l_listenFd := Some fd, l_listenIdentity := Some ino\<rparr>))
          in (Some t, t))"

definition beginTeardown :: "listener \<Rightarrow> listener" where
  "beginTeardown l =
     (let l1 = l\<lparr>l_stopping := True, l_pathGuardTimer := False, l_acceptRetryTimer := False\<rparr>
      in if l_acceptSource l1 \<noteq> None then cancelAcceptSource l1 else l1)"

definition finishTeardown :: "listener \<Rightarrow> listener" where
  "finishTeardown l = (if stillNames (l_listenIdentity l) (l_path l) then l\<lparr>l_path := None\<rparr> else l)"

section \<open>The listener as a transition system\<close>

text \<open>
  Besides the transport's own handlers, another process may remove the socket file or bind
  its own socket in its place at any time.
\<close>

inductive listenerStep :: "listener \<Rightarrow> listener \<Rightarrow> bool" where
  step_acceptReady: "l_acceptSource l \<noteq> None \<Longrightarrow> \<not> l_suspended l \<Longrightarrow> listenerStep l (snd (onAcceptReady sys rs l))"
| step_guardTick: "l_pathGuardTimer l \<Longrightarrow> listenerStep l (checkSocketPath sys l)"
| step_retryTick: "l_acceptRetryTimer l \<Longrightarrow> listenerStep l (resumeAccepting l)"
| step_cancelled: "l_cancelPending l \<Longrightarrow> listenerStep l (onAcceptSourceCancelled sys l)"
| step_teardown: "\<not> l_stopping l \<Longrightarrow> listenerStep l (beginTeardown l)"
| step_removed: "listenerStep l (l\<lparr>l_path := None\<rparr>)"
| step_replaced: "listenerStep l (l\<lparr>l_path := Some (l_nextIno l), l_nextIno := l_nextIno l + 1\<rparr>)"

definition listenerStart :: "listener \<Rightarrow> bool" where
  "listenerStart l \<longleftrightarrow> (\<exists>sys. fst (createTransport True sys freshListener) = Some l)"

text \<open>
  While a source is installed it watches the listen socket and nothing is being cancelled;
  while a cancellation is pending the listen socket is still the one it started with; and a
  source is suspended exactly while accepting is paused.
\<close>

definition listenerOk :: "listener \<Rightarrow> bool" where
  "listenerOk l \<longleftrightarrow>
     \<not> l_crashed l \<and> l_closedListenFdAtCancel l = 0
     \<and> (\<forall>s. l_acceptSource l = Some s \<longrightarrow> l_listenFd l = Some s \<and> \<not> l_cancelPending l \<and> \<not> l_rebindPending l)
     \<and> (l_cancelPending l \<longrightarrow> l_listenFd l \<noteq> None \<and> l_cancelledListener l = l_listenFd l \<and> (l_stopping l \<or> l_rebindPending l))
     \<and> (l_acceptSource l = None \<longrightarrow> l_cancelPending l \<or> l_listenFd l = None)
     \<and> (l_acceptSource l = None \<and> l_listenFd l = None \<longrightarrow> l_stopping l \<or> l_rebindPending l)
     \<and> (l_suspended l \<longleftrightarrow> l_acceptPaused l)
     \<and> (l_acceptPaused l \<longrightarrow> l_acceptSource l \<noteq> None \<and> l_acceptRetryTimer l)
     \<and> (\<forall>i. l_listenIdentity l = Some i \<longrightarrow> i < l_nextIno l)
     \<and> (\<forall>i. l_path l = Some i \<longrightarrow> i < l_nextIno l)
     \<and> (l_pathGuardTimer l \<or> l_stopping l)"

lemma bind_cases:
  obtains (fail) l' where "bindContainerSocket sys l = (None, l')"
      "l_path l' = l_path l \<and> l_nextIno l' = l_nextIno l
       \<or> l_path l' = None \<and> l_nextIno l' = l_nextIno l
       \<or> l_path l' = Some (l_nextIno l) \<and> l_nextIno l' = l_nextIno l + 1"
      "\<exists>n. l' = l\<lparr>l_path := l_path l', l_nextIno := l_nextIno l', l_nextSocket := n\<rparr>"
  | (bound) fd where "bindContainerSocket sys l = (Some (fd, l_nextIno l),
      l\<lparr>l_path := Some (l_nextIno l), l_nextIno := l_nextIno l + 1, l_nextSocket := fd + 1\<rparr>)"
proof (cases "bs_pathLength sys < sunPathSize \<and> bs_socket sys \<and> bs_bind sys \<and> bs_stat sys \<and> bs_listen sys")
  case True
  then show ?thesis by (intro bound [of "l_nextSocket l"]) (simp add: bindContainerSocket_def Let_def)
next
  case False
  define l' where "l' = snd (bindContainerSocket sys l)"
  have "bindContainerSocket sys l = (None, l')"
    using False by (auto simp: l'_def bindContainerSocket_def Let_def)
  moreover have "l_path l' = l_path l \<and> l_nextIno l' = l_nextIno l
       \<or> l_path l' = None \<and> l_nextIno l' = l_nextIno l
       \<or> l_path l' = Some (l_nextIno l) \<and> l_nextIno l' = l_nextIno l + 1"
    by (auto simp: l'_def bindContainerSocket_def Let_def)
  moreover have "\<exists>n. l' = l\<lparr>l_path := l_path l', l_nextIno := l_nextIno l', l_nextSocket := n\<rparr>"
    by (intro exI [of _ "l_nextSocket l'"]) (cases l; simp add: l'_def bindContainerSocket_def Let_def)
  ultimately show ?thesis by (rule fail)
qed

lemma rebind_ok:
  assumes "listenerOk l" "l_rebindPending l" "l_listenFd l = None" "l_acceptSource l = None" "\<not> l_cancelPending l"
  shows "listenerOk (rebindListenSocket sys l)"
proof (cases rule: bind_cases [of sys l])
  case (fail l')
  then obtain n where l': "l' = l\<lparr>l_path := l_path l', l_nextIno := l_nextIno l', l_nextSocket := n\<rparr>" by blast
  have "listenerOk (l\<lparr>l_path := l_path l', l_nextIno := l_nextIno l', l_nextSocket := n\<rparr>)"
    using assms fail(2) by (auto simp: listenerOk_def)
  with fail(1) l' show ?thesis by (simp add: rebindListenSocket_def)
next
  case (bound fd)
  with assms show ?thesis
    by (auto simp: rebindListenSocket_def installAcceptSource_def listenerOk_def)
qed

lemma resume_ok [inv_intros]: "listenerOk l \<Longrightarrow> listenerOk (resumeAccepting l)"
  by (auto simp: listenerOk_def resumeAccepting_def)

lemma pause_ok [inv_intros]: "listenerOk l \<Longrightarrow> listenerOk (pauseAccepting l)"
  by (auto simp: listenerOk_def pauseAccepting_def)

lemma cancel_ok:
  assumes "listenerOk l" "l_acceptSource l \<noteq> None"
  shows "listenerOk (cancelAcceptSource (l\<lparr>l_rebindPending := True\<rparr>))"
    and "listenerOk (cancelAcceptSource (l\<lparr>l_stopping := True, l_pathGuardTimer := False, l_acceptRetryTimer := False\<rparr>))"
  using assms by (auto simp: listenerOk_def cancelAcceptSource_def resumeAccepting_def)

lemma check_ok [inv_intros]:
  assumes "listenerOk l" shows "listenerOk (checkSocketPath sys l)"
proof (cases "l_rebindPending l \<and> \<not> l_stopping l \<and> l_listenFd l = None")
  case True
  then have "l_acceptSource l = None" "\<not> l_cancelPending l"
    using assms by (auto simp: listenerOk_def)
  with True assms rebind_ok [of l sys] show ?thesis by (simp add: checkSocketPath_def)
next
  case False
  with assms cancel_ok(1) [OF assms] show ?thesis by (auto simp: checkSocketPath_def)
qed

lemma cancelled_ok [inv_intros]:
  assumes "listenerOk l" "l_cancelPending l"
  shows "listenerOk (onAcceptSourceCancelled sys l)"
proof -
  let ?l = "l\<lparr>l_cancelledListener := None, l_listenFd := None, l_cancelPending := False\<rparr>"
  have held: "stillHeldBy (l_cancelledListener l) (l_listenFd l)"
    using assms by (auto simp: listenerOk_def stillHeldBy_def)
  have ok: "listenerOk ?l" "listenerOk (?l\<lparr>l_listenIdentity := None\<rparr>)"
    using assms by (auto simp: listenerOk_def)
  have "l_acceptSource l = None" using assms by (auto simp: listenerOk_def)
  then have "listenerOk (rebindListenSocket sys (?l\<lparr>l_listenIdentity := None\<rparr>))" if "l_rebindPending l"
    using that by (intro rebind_ok [OF ok(2)]) simp_all
  with held ok show ?thesis by (simp add: onAcceptSourceCancelled_def Let_def)
qed

lemma acceptLoop_ok: "listenerOk l \<Longrightarrow> listenerOk (snd (acceptLoop rs l))"
  by (induction rs l rule: acceptLoop.induct) (auto simp: pause_ok split: prod.split)

lemma acceptReady_ok [inv_intros]: "listenerOk l \<Longrightarrow> listenerOk (snd (onAcceptReady sys rs l))"
  using acceptLoop_ok [of l rs] by (auto simp: onAcceptReady_def check_ok split: prod.split)

lemma teardown_ok [inv_intros]:
  assumes "listenerOk l" shows "listenerOk (beginTeardown l)"
proof (cases "l_acceptSource l = None")
  case True
  with assms show ?thesis by (auto simp: beginTeardown_def Let_def listenerOk_def)
next
  case False
  with cancel_ok(2) [OF assms] show ?thesis by (simp add: beginTeardown_def Let_def)
qed

lemma create_ok:
  assumes "fst (createTransport True sys freshListener) = Some l" shows "listenerOk l"
proof (cases rule: bind_cases [of sys freshListener])
  case fail
  with assms show ?thesis by (simp add: createTransport_def)
next
  case (bound fd)
  with assms show ?thesis
    by (auto simp: createTransport_def installAcceptSource_def installPathGuard_def freshListener_def
        listenerOk_def Let_def)
qed

interpretation listener_system: invariant_system listenerStart listenerStep listenerOk
proof
  show "listenerOk s" if "listenerStart s" for s
    using that create_ok by (auto simp: listenerStart_def)
  show "listenerOk t" if "listenerOk s" "listenerStep s t" for s t
    using that(2,1)
  proof (induction rule: listenerStep.induct)
    case (step_removed l) then show ?case by (auto simp: listenerOk_def)
  next
    case (step_replaced l) then show ?case by (auto simp: listenerOk_def)
  qed (auto intro: inv_intros)
qed

section \<open>Properties\<close>

definition sysOk :: bind_sys where
  "sysOk = \<lparr>bs_pathLength = 60, bs_socket = True, bs_bind = True, bs_stat = True, bs_listen = True\<rparr>"

definition bindSucceeds :: "bind_sys \<Rightarrow> bool" where
  "bindSucceeds sys \<longleftrightarrow> bs_pathLength sys < 104 \<and> bs_socket sys \<and> bs_bind sys \<and> bs_stat sys \<and> bs_listen sys"

definition demoListener :: listener where
  "demoListener = snd (createTransport True sysOk freshListener)"

lemma demoListener_reach: "reach listenerStart listenerStep demoListener"
  by (rule reach_init)
    (auto simp: listenerStart_def demoListener_def createTransport_def bindContainerSocket_def sysOk_def
      sunPathSize_def Let_def intro!: exI [of _ sysOk])

lemma rebind_success:
  assumes "bindSucceeds sys"
  shows "l_path (rebindListenSocket sys l) = Some (l_nextIno l)
       \<and> l_listenIdentity (rebindListenSocket sys l) = Some (l_nextIno l)
       \<and> l_acceptSource (rebindListenSocket sys l) = Some (l_nextSocket l)
       \<and> l_listenFd (rebindListenSocket sys l) = Some (l_nextSocket l)
       \<and> \<not> l_rebindPending (rebindListenSocket sys l)"
  using assms
  by (simp add: rebindListenSocket_def bindContainerSocket_def bindSucceeds_def sunPathSize_def
      installAcceptSource_def installPathGuard_def sunPathSize_def Let_def)

lemma cancelled_rebinds:
  assumes "\<not> l_stopping c" "l_rebindPending c"
  obtains m where "\<not> l_stopping m" "l_rebindPending m" "l_listenFd m = None"
    "\<And>s. onAcceptSourceCancelled s c = rebindListenSocket s m"
proof -
  let ?k = "if \<not> stillHeldBy (l_cancelledListener c) (l_listenFd c)
            then c\<lparr>l_closedListenFdAtCancel := l_closedListenFdAtCancel c + 1\<rparr> else c"
  let ?m = "?k\<lparr>l_cancelledListener := None, l_listenFd := None, l_cancelPending := False, l_listenIdentity := None\<rparr>"
  have "onAcceptSourceCancelled s c = rebindListenSocket s ?m" for s
    using assms by (simp add: onAcceptSourceCancelled_def Let_def)
  with assms show ?thesis by (intro that [of ?m]) simp_all
qed

lemma demoListener_accepts: "l_acceptSource demoListener \<noteq> None"
  by (simp add: demoListener_def createTransport_def bindContainerSocket_def sysOk_def freshListener_def
      installAcceptSource_def installPathGuard_def sunPathSize_def Let_def)



text \<open>
  When the path no longer names the socket that was bound, the next look at it cancels
  the accept source, and its cancel handler binds again: with a bind that succeeds the path
  names the new socket and it accepts; with one that fails, every later tick tries again.
\<close>
lemma replaced_path_rebound:
  assumes "reach listenerStart listenerStep l" and "\<not> l_stopping l" and "l_acceptSource l \<noteq> None"
    and "\<not> stillNames (l_listenIdentity l) (l_path l)" and "bindSucceeds sys'"
  shows "l_cancelPending (checkSocketPath sys l)
       \<and> (let l' = onAcceptSourceCancelled sys' (checkSocketPath sys l)
          in stillNames (l_listenIdentity l') (l_path l') \<and> l_acceptSource l' = l_listenFd l'
             \<and> l_listenFd l' \<noteq> None)
       \<and> (\<forall>bad. \<not> bindSucceeds bad \<longrightarrow>
            (let l' = checkSocketPath sys' (onAcceptSourceCancelled bad (checkSocketPath sys l))
             in stillNames (l_listenIdentity l') (l_path l') \<and> l_acceptSource l' \<noteq> None))"
proof -
  have ok: "listenerOk l" using listener_system.reach_inv [OF assms(1)] .
  let ?c = "cancelAcceptSource (l\<lparr>l_rebindPending := True\<rparr>)"
  have chk: "checkSocketPath sys l = ?c"
    using assms(2,3,4) ok by (auto simp: checkSocketPath_def listenerOk_def)
  have c: "l_cancelPending ?c" "l_rebindPending ?c" "\<not> l_stopping ?c"
    using assms(2) by (simp_all add: cancelAcceptSource_def resumeAccepting_def Let_def)
  obtain m where m: "\<not> l_stopping m" "l_rebindPending m" "l_listenFd m = None"
    and canc: "\<And>s. onAcceptSourceCancelled s ?c = rebindListenSocket s m"
    using cancelled_rebinds [OF c(3,2)] by blast
  have again: "l_listenFd (rebindListenSocket bad m) = None" "l_rebindPending (rebindListenSocket bad m)"
    "\<not> l_stopping (rebindListenSocket bad m)" if "\<not> bindSucceeds bad" for bad
    using that m
    by (auto simp: rebindListenSocket_def bindContainerSocket_def bindSucceeds_def sunPathSize_def Let_def)
  have "checkSocketPath sys' (rebindListenSocket bad m) = rebindListenSocket sys' (rebindListenSocket bad m)"
    if "\<not> bindSucceeds bad" for bad
    using again [OF that] by (simp add: checkSocketPath_def)
  then show ?thesis
    unfolding chk canc Let_def using c rebind_success [OF assms(5)] by (simp add: stillNames_def)
qed

text \<open>
  The teardown removes the socket file only if it is the one this process bound: a file
  another process bound in its place, even right before the teardown, stays.
\<close>
lemma teardown_spares_foreign_file:
  assumes "reach listenerStart listenerStep l"
  shows "l_path (finishTeardown (l\<lparr>l_path := Some (l_nextIno l), l_nextIno := l_nextIno l + 1\<rparr>))
           = Some (l_nextIno l)"
  using listener_system.reach_inv [OF assms]
  by (auto simp: listenerOk_def finishTeardown_def stillNames_def)

end
