(* ===== verification/Socket_Mode.thy ===== *)
theory Socket_Mode
  imports Listener "HOL-Library.Word"
begin

text \<open>
  Who may connect while a socket is being bound: the permission bits of the socket file through
  \<^verbatim>\<open>bindContainerSocket\<close> of \<^verbatim>\<open>agent/src/backend/SocketTransport.cpp\<close> and \<^verbatim>\<open>bindListenSocket\<close> of
  \<^verbatim>\<open>prompter/PrompterServer.cpp\<close>, which make the same calls in the same order. The state between any two of
  the calls is one that another process may see.
\<close>

unbundle bit_operations_syntax

type_synonym mode = "16 word"

record file_view =
  fv_umask :: mode
  fv_mode :: "mode option"

datatype file_call = Unlink | Umask mode | Bind bool | Chmod mode

text \<open>The kernel: a bound socket appears with every bit the mask leaves of 0777.\<close>

fun applyCall :: "file_call \<Rightarrow> file_view \<Rightarrow> file_view" where
  "applyCall Unlink v = v\<lparr>fv_mode := None\<rparr>"
| "applyCall (Umask m) v = v\<lparr>fv_umask := m\<rparr>"
| "applyCall (Bind accepted) v = (if accepted then v\<lparr>fv_mode := Some (0x1FF AND NOT (fv_umask v))\<rparr> else v)"
| "applyCall (Chmod m) v = v\<lparr>fv_mode := map_option (\<lambda>_. m) (fv_mode v)\<rparr>"

text \<open>The calls of one bind; 0x7F is 0177 and 0x180 is 0600. The mask of before is put back whatever \<^verbatim>\<open>bind\<close> said.\<close>

definition bindCalls :: "bind_sys \<Rightarrow> mode \<Rightarrow> file_call list" where
  "bindCalls sys saved =
     (if bs_pathLength sys \<ge> sunPathSize then []
      else Unlink #
        (if \<not> bs_socket sys then []
         else [Umask 0x7F, Bind (bs_bind sys), Umask saved]
           @ (if bs_bind sys \<and> bs_stat sys then [Chmod 0x180] else [])))"

fun viewsOf :: "file_call list \<Rightarrow> file_view \<Rightarrow> file_view list" where
  "viewsOf [] v = []"
| "viewsOf (c # cs) v = applyCall c v # viewsOf cs (applyCall c v)"

definition ownerOnly :: "file_view \<Rightarrow> bool" where
  "ownerOnly v \<longleftrightarrow> (\<forall>m. fv_mode v = Some m \<longrightarrow> m AND 0x7F = 0)"

text \<open>
  From the moment the stale file is gone, nobody but the owner can open the socket at any instant, whatever
  mask the process was started with and wherever the bind fails; and the mask is afterwards what it was.
\<close>

lemma socket_file_owner_only:
  "list_all ownerOnly (viewsOf (bindCalls sys (fv_umask v)) v)"
  "fv_umask (last (v # viewsOf (bindCalls sys (fv_umask v)) v)) = fv_umask v"
  by (simp_all add: bindCalls_def ownerOnly_def)

text \<open>The file is there afterwards exactly when the listener's model of the same bind has one at the path.\<close>

lemma bind_leaves_file:
  assumes "fv_mode v \<noteq> None \<longleftrightarrow> l_path l \<noteq> None"
  shows "fv_mode (last (v # viewsOf (bindCalls sys (fv_umask v)) v)) \<noteq> None
       \<longleftrightarrow> l_path (snd (bindContainerSocket sys l)) \<noteq> None"
  using assms by (simp add: bindCalls_def bindContainerSocket_def Let_def)

text \<open>Without the mask the file would stand open between the bind and the change of its mode.\<close>

lemma plain_bind_open: "\<not> list_all ownerOnly (viewsOf [Unlink, Bind True, Chmod 0x180] \<lparr>fv_umask = 0x12, fv_mode = None\<rparr>)"
  by (simp add: ownerOnly_def)

end
