(* ===== verification/Instance_Lock.thy ===== *)
theory Instance_Lock
  imports Prelude
begin

text \<open>
  The single-instance lock of \<^verbatim>\<open>agent/src/backend/SingleInstanceLock.cpp\<close>: processes that
  race to open, lock and re-check one lock file, and that remove it before they let go.
  Each system call of \<^verbatim>\<open>acquire\<close> and \<^verbatim>\<open>release\<close> is one step, so every interleaving of any
  number of processes is a sequence of steps. A file is its inode; \<^verbatim>\<open>flock\<close> belongs to the
  inode, and closing the descriptor, or dying, gives it back.
\<close>

section \<open>State\<close>

datatype start_error = AnotherInstance | StartFailed

datatype proc =
    Attempt nat
  | Opened nat nat
  | Granted nat nat
  | Holding nat
  | Unlinked nat
  | Gone
  | Refused start_error

record lock_world =
  w_path :: "nat option"
  w_nextIno :: nat
  w_flock :: "nat \<Rightarrow> nat option"
  w_procs :: "nat \<Rightarrow> proc"

definition kAcquireAttempts :: nat where
  "kAcquireAttempts = 8"

definition pathNames :: "lock_world \<Rightarrow> nat \<Rightarrow> bool" where
  "pathNames w ino \<longleftrightarrow> w_path w = Some ino"

section \<open>Steps\<close>

definition setProc :: "nat \<Rightarrow> proc \<Rightarrow> lock_world \<Rightarrow> lock_world" where
  "setProc p s w = w\<lparr>w_procs := (w_procs w)(p := s)\<rparr>"

text \<open>\<^verbatim>\<open>open\<close> with \<^verbatim>\<open>O_CREAT\<close>; \<open>ok\<close> says whether it and the regular-file check succeed.\<close>

definition openLock :: "nat \<Rightarrow> bool \<Rightarrow> lock_world \<Rightarrow> lock_world" where
  "openLock p ok w =
     (case w_procs w p of
        Attempt n \<Rightarrow>
          if n \<ge> kAcquireAttempts then setProc p (Refused StartFailed) w
          else if \<not> ok then setProc p (Refused StartFailed) w
          else (case w_path w of
             Some ino \<Rightarrow> setProc p (Opened ino n) w
           | None \<Rightarrow> setProc p (Opened (w_nextIno w) n)
                      (w\<lparr>w_path := Some (w_nextIno w), w_nextIno := w_nextIno w + 1\<rparr>))
      | _ \<Rightarrow> w)"

definition tryFlock :: "nat \<Rightarrow> bool \<Rightarrow> lock_world \<Rightarrow> lock_world" where
  "tryFlock p ok w =
     (case w_procs w p of
        Opened ino n \<Rightarrow>
          if \<not> ok then setProc p (Refused StartFailed) w
          else if w_flock w ino \<noteq> None then setProc p (Refused AnotherInstance) w
          else setProc p (Granted ino n) (w\<lparr>w_flock := (w_flock w)(ino := Some p)\<rparr>)
      | _ \<Rightarrow> w)"

definition checkPath :: "nat \<Rightarrow> lock_world \<Rightarrow> lock_world" where
  "checkPath p w =
     (case w_procs w p of
        Granted ino n \<Rightarrow>
          if pathNames w ino then setProc p (Holding ino) w
          else setProc p (Attempt (n + 1)) (w\<lparr>w_flock := (w_flock w)(ino := None)\<rparr>)
      | _ \<Rightarrow> w)"

definition releaseUnlink :: "nat \<Rightarrow> lock_world \<Rightarrow> lock_world" where
  "releaseUnlink p w =
     (case w_procs w p of
        Holding ino \<Rightarrow>
          setProc p (Unlinked ino) (if pathNames w ino then w\<lparr>w_path := None\<rparr> else w)
      | _ \<Rightarrow> w)"

definition releaseClose :: "nat \<Rightarrow> lock_world \<Rightarrow> lock_world" where
  "releaseClose p w =
     (case w_procs w p of
        Unlinked ino \<Rightarrow> setProc p Gone (w\<lparr>w_flock := (w_flock w)(ino := None)\<rparr>)
      | _ \<Rightarrow> w)"

text \<open>A process killed at any point: the kernel closes its descriptor, the file stays.\<close>

definition heldBy :: "proc \<Rightarrow> nat option" where
  "heldBy s = (case s of Granted ino n \<Rightarrow> Some ino | Holding ino \<Rightarrow> Some ino | Unlinked ino \<Rightarrow> Some ino | _ \<Rightarrow> None)"

definition killed :: "nat \<Rightarrow> lock_world \<Rightarrow> lock_world" where
  "killed p w =
     setProc p Gone
       (case heldBy (w_procs w p) of
          None \<Rightarrow> w
        | Some ino \<Rightarrow> w\<lparr>w_flock := (w_flock w)(ino := None)\<rparr>)"

inductive lockStep :: "lock_world \<Rightarrow> lock_world \<Rightarrow> bool" where
  lock_open: "lockStep w (openLock p ok w)"
| lock_flock: "lockStep w (tryFlock p ok w)"
| lock_check: "lockStep w (checkPath p w)"
| lock_unlink: "lockStep w (releaseUnlink p w)"
| lock_close: "lockStep w (releaseClose p w)"
| lock_killed: "lockStep w (killed p w)"
| lock_restart: "w_procs w p \<in> {Gone, Refused e} \<Longrightarrow> lockStep w (setProc p (Attempt 0) w)"

definition lockInit :: "lock_world \<Rightarrow> bool" where
  "lockInit w \<longleftrightarrow> (\<forall>i. w_flock w i = None) \<and> (\<forall>p. w_procs w p = Attempt 0)
     \<and> (\<forall>i. w_path w = Some i \<longrightarrow> i < w_nextIno w)"

section \<open>The invariant\<close>

definition lockOk :: "lock_world \<Rightarrow> bool" where
  "lockOk w \<longleftrightarrow>
     (\<forall>p i. w_flock w i = Some p \<longleftrightarrow> heldBy (w_procs w p) = Some i)
     \<and> (\<forall>p i. w_procs w p = Holding i \<longrightarrow> w_path w = Some i)"

lemma setProc_simps [simp]:
  "w_procs (setProc p s w) = (w_procs w)(p := s)" "w_path (setProc p s w) = w_path w"
  "w_flock (setProc p s w) = w_flock w" "w_nextIno (setProc p s w) = w_nextIno w"
  by (simp_all add: setProc_def)

lemma heldBy_simps [simp]:
  "heldBy (Attempt n) = None" "heldBy (Opened i n) = None" "heldBy (Granted i n) = Some i"
  "heldBy (Holding i) = Some i" "heldBy (Unlinked i) = Some i" "heldBy Gone = None" "heldBy (Refused e) = None"
  by (simp_all add: heldBy_def)

text \<open>A process that holds no lock moves to another such state; one that does gives it back.\<close>

lemma lockOk_move:
  assumes "lockOk w" "heldBy s = heldBy (w_procs w p)" "\<And>i. s = Holding i \<Longrightarrow> w_path w = Some i"
  shows "lockOk (setProc p s w)"
  using assms by (auto simp: lockOk_def)

lemma lockOk_flock: "lockOk w \<Longrightarrow> w_flock w i = Some p \<longleftrightarrow> heldBy (w_procs w p) = Some i"
  by (simp add: lockOk_def)

lemma lockOk_path: "lockOk w \<Longrightarrow> w_procs w p = Holding i \<Longrightarrow> w_path w = Some i"
  by (simp add: lockOk_def)

lemma lockOkI:
  assumes "\<And>p i. w_flock w i = Some p \<longleftrightarrow> heldBy (w_procs w p) = Some i"
    and "\<And>p i. w_procs w p = Holding i \<Longrightarrow> w_path w = Some i"
  shows "lockOk w"
  using assms by (simp add: lockOk_def)

lemma held_unique: "lockOk w \<Longrightarrow> heldBy (w_procs w p) = Some i \<Longrightarrow> heldBy (w_procs w q) = Some i \<Longrightarrow> p = q"
  by (metis lockOk_flock option.inject)

lemma lockOk_drop:
  assumes "lockOk w" "heldBy (w_procs w p) = Some i" "heldBy s = None"
  shows "lockOk (setProc p s (w\<lparr>w_flock := (w_flock w)(i := None)\<rparr>))"
proof (rule lockOkI)
  show "w_path (setProc p s (w\<lparr>w_flock := (w_flock w)(i := None)\<rparr>)) = Some j"
    if "w_procs (setProc p s (w\<lparr>w_flock := (w_flock w)(i := None)\<rparr>)) q = Holding j" for q j
    using that assms lockOk_path [OF assms(1), of q j] by (auto split: if_splits)
  show "w_flock (setProc p s (w\<lparr>w_flock := (w_flock w)(i := None)\<rparr>)) j = Some q
        \<longleftrightarrow> heldBy (w_procs (setProc p s (w\<lparr>w_flock := (w_flock w)(i := None)\<rparr>)) q) = Some j" for q j
  proof (cases "q = p")
    case True
    with assms lockOk_flock [OF assms(1), of j p] show ?thesis by auto
  next
    case False
    with held_unique [OF assms(1,2), of q] lockOk_flock [OF assms(1), of j q] show ?thesis by auto
  qed
qed

lemma lockOk_grant:
  assumes "lockOk w" "heldBy (w_procs w p) = None" "w_flock w i = None"
  shows "lockOk (setProc p (Granted i n) (w\<lparr>w_flock := (w_flock w)(i := Some p)\<rparr>))"
proof (rule lockOkI)
  show "w_path (setProc p (Granted i n) (w\<lparr>w_flock := (w_flock w)(i := Some p)\<rparr>)) = Some j"
    if "w_procs (setProc p (Granted i n) (w\<lparr>w_flock := (w_flock w)(i := Some p)\<rparr>)) q = Holding j" for q j
    using that lockOk_path [OF assms(1), of q j] by (auto split: if_splits)
  show "w_flock (setProc p (Granted i n) (w\<lparr>w_flock := (w_flock w)(i := Some p)\<rparr>)) j = Some q
        \<longleftrightarrow> heldBy (w_procs (setProc p (Granted i n) (w\<lparr>w_flock := (w_flock w)(i := Some p)\<rparr>)) q) = Some j"
    for q j
    using lockOk_flock [OF assms(1), of j q] lockOk_flock [OF assms(1), of i q] assms(2,3)
    by (cases "q = p") auto
qed

lemma open_ok [inv_intros]:
  assumes "lockOk w" shows "lockOk (openLock p ok w)"
proof (cases "w_procs w p")
  case (Attempt n)
  have "lockOk (setProc p (Opened (w_nextIno w) n)
          (w\<lparr>w_path := Some (w_nextIno w), w_nextIno := w_nextIno w + 1\<rparr>))" if "w_path w = None"
  proof (rule lockOkI)
    show "w_flock (setProc p (Opened (w_nextIno w) n)
          (w\<lparr>w_path := Some (w_nextIno w), w_nextIno := w_nextIno w + 1\<rparr>)) j = Some q
        \<longleftrightarrow> heldBy (w_procs (setProc p (Opened (w_nextIno w) n)
          (w\<lparr>w_path := Some (w_nextIno w), w_nextIno := w_nextIno w + 1\<rparr>)) q) = Some j" for q j
      using lockOk_flock [OF assms, of j q] Attempt by auto
  qed (use lockOk_path [OF assms] that in \<open>auto split: if_splits\<close>)
  then show ?thesis
    using assms Attempt by (auto simp: openLock_def intro: lockOk_move split: option.split)
qed (use assms in \<open>simp_all add: openLock_def\<close>)

lemma flock_ok [inv_intros]:
  assumes "lockOk w" shows "lockOk (tryFlock p ok w)"
proof (cases "w_procs w p")
  case (Opened i n)
  with assms lockOk_grant [of w p i n] show ?thesis
    by (auto simp: tryFlock_def intro: lockOk_move)
qed (use assms in \<open>simp_all add: tryFlock_def\<close>)

lemma check_path_ok [inv_intros]:
  assumes "lockOk w" shows "lockOk (checkPath p w)"
proof (cases "w_procs w p")
  case (Granted i n)
  with assms lockOk_drop [of w p i "Attempt (n + 1)"] show ?thesis
    by (auto simp: checkPath_def pathNames_def intro: lockOk_move)
qed (use assms in \<open>simp_all add: checkPath_def\<close>)

text \<open>Only the holder of the file the path names removes it, so no other holder loses it.\<close>

lemma unlink_ok [inv_intros]:
  assumes "lockOk w" shows "lockOk (releaseUnlink p w)"
proof (cases "w_procs w p")
  case (Holding i)
  then have path: "w_path w = Some i" using lockOk_path [OF assms] by simp
  have "lockOk (setProc p (Unlinked i) (w\<lparr>w_path := None\<rparr>))"
  proof (rule lockOkI)
    show "w_path (setProc p (Unlinked i) (w\<lparr>w_path := None\<rparr>)) = Some j"
      if "w_procs (setProc p (Unlinked i) (w\<lparr>w_path := None\<rparr>)) q = Holding j" for q j
    proof -
      from that have q: "q \<noteq> p" "w_procs w q = Holding j" by (auto split: if_splits)
      then have "j = i" using lockOk_path [OF assms] path by fastforce
      with q Holding held_unique [OF assms, of p i q] show ?thesis by simp
    qed
  qed (use lockOk_flock [OF assms] Holding in auto)
  with Holding path show ?thesis by (simp add: releaseUnlink_def pathNames_def)
qed (use assms in \<open>simp_all add: releaseUnlink_def\<close>)

lemma close_ok [inv_intros]:
  assumes "lockOk w" shows "lockOk (releaseClose p w)"
  using assms lockOk_drop [of w p _ Gone] by (auto simp: releaseClose_def split: proc.split)

lemma killed_ok [inv_intros]:
  assumes "lockOk w" shows "lockOk (killed p w)"
  using assms lockOk_drop [of w p _ Gone] lockOk_move [of w Gone p]
  by (auto simp: killed_def split: option.split)

interpretation lock_system: invariant_system lockInit lockStep lockOk
proof
  show "lockOk w" if "lockInit w" for w
    using that by (simp add: lockInit_def lockOk_def)
  show "lockOk v" if "lockOk w" "lockStep w v" for w v
    using that(2,1)
  proof (induction rule: lockStep.induct)
    case (lock_restart w p e) then show ?case by (auto intro: lockOk_move)
  qed (auto intro: inv_intros)
qed

section \<open>Properties\<close>

text \<open>
  C18: at no point of any interleaving of any number of starting, stopping and dying
  processes do two of them hold the instance lock, and the lock file the path names is the
  one the holder locked.
\<close>
theorem lock_mutual_exclusion:
  assumes "reach lockInit lockStep w" and "w_procs w p = Holding i" and "w_procs w q = Holding j"
  shows "p = q \<and> i = j \<and> w_path w = Some i \<and> w_flock w i = Some p"
proof -
  have ok: "lockOk w" using lock_system.reach_inv [OF assms(1)] .
  have "w_path w = Some i" "w_path w = Some j" using lockOk_path [OF ok assms(2)] lockOk_path [OF ok assms(3)] .
  then have "i = j" by simp
  with held_unique [OF ok, of p i q] assms(2,3) lockOk_flock [OF ok, of i p] \<open>w_path w = Some i\<close>
  show ?thesis by simp
qed

definition demoDirectory :: lock_world where
  "demoDirectory = \<lparr>w_path = None, w_nextIno = 1, w_flock = (\<lambda>_. None), w_procs = (\<lambda>_. Attempt 0)\<rparr>"

lemma demoWorld_reach: "reach lockInit lockStep demoDirectory"
  by (rule reach_init) (simp add: lockInit_def demoDirectory_def)

lemma demoHeld_reach: "reach lockInit lockStep (checkPath 5 (tryFlock 5 True (openLock 5 True demoDirectory)))"
  by (meson demoWorld_reach lock_check lock_flock lock_open reach_step)

theorem lock_mutual_exclusion_witness:
  "w_procs (checkPath 5 (tryFlock 5 True (openLock 5 True demoDirectory))) 5 = Holding 1
   \<and> w_path (checkPath 5 (tryFlock 5 True (openLock 5 True demoDirectory))) = Some 1"
proof -
  let ?w = "checkPath 5 (tryFlock 5 True (openLock 5 True demoDirectory))"
  have "reach lockInit lockStep ?w" by (rule demoHeld_reach)
  moreover have "w_procs ?w 5 = Holding 1"
    by (simp add: demoDirectory_def openLock_def tryFlock_def checkPath_def pathNames_def kAcquireAttempts_def)
  ultimately show ?thesis using lock_mutual_exclusion [of ?w 5 1 5 1] by simp
qed

text \<open>
  A process that starts while nobody holds the lock gets it, whatever file an earlier
  holder left behind, as long as the calls on the file succeed and nobody comes between.
\<close>
lemma lock_acquired_when_free:
  assumes "w_procs w p = Attempt n" and "n < 8" and "\<forall>i. w_flock w i = None"
  shows "\<exists>i. w_procs (checkPath p (tryFlock p True (openLock p True w))) p = Holding i"
  using assms
  by (auto simp: openLock_def tryFlock_def checkPath_def pathNames_def kAcquireAttempts_def split: option.split)

text \<open>
  A process that tries while another holds the lock is refused as a second instance at
  its lock attempt, and what the path names and who holds the lock are left as they were.
\<close>
lemma second_instance_refused:
  assumes "reach lockInit lockStep w" and "w_procs w q = Holding i" and "w_procs w p = Attempt n" and "n < 8"
  shows "w_procs (tryFlock p True (openLock p True w)) p = Refused AnotherInstance
       \<and> w_path (tryFlock p True (openLock p True w)) = w_path w
       \<and> w_flock (tryFlock p True (openLock p True w)) = w_flock w
       \<and> w_procs (tryFlock p True (openLock p True w)) q = Holding i"
proof -
  have ok: "lockOk w" using lock_system.reach_inv [OF assms(1)] .
  have "w_path w = Some i" "w_flock w i = Some q"
    using lockOk_path [OF ok assms(2)] lockOk_flock [OF ok, of i q] assms(2) by simp_all
  then show ?thesis
    using assms(2-4) by (auto simp: openLock_def tryFlock_def kAcquireAttempts_def)
qed

end
