(* ===== verification/Plugin_Directory.thy ===== *)
theory Plugin_Directory
  imports Prelude
begin

text \<open>
  \<^verbatim>\<open>agent/src/backend/PluginDirectory.cpp\<close>: where the card plugins are loaded from, and the lines that say
  so in the log. A path is a string, as the code prints it; of \<^verbatim>\<open>std::filesystem\<close> the model has the split
  into components, the parent, the join and the lexical normal form of a path that ends in a name. Whether a directory is
  there and what became of each plugin file are arguments.
\<close>

section \<open>Paths\<close>

record path =
  pt_rooted :: bool
  pt_components :: "string list"

text \<open>The components of a path that ends in a name: what stands between its separators, empty parts dropped.\<close>

fun splitSlash :: "string \<Rightarrow> string \<Rightarrow> string list" where
  "splitSlash part [] = (if part = [] then [] else [rev part])"
| "splitSlash part (c # cs) =
     (if c = CHR ''/'' then (if part = [] then [] else [rev part]) @ splitSlash [] cs
      else splitSlash (c # part) cs)"

definition pathOf :: "string \<Rightarrow> path" where
  "pathOf s = \<lparr>pt_rooted = (s \<noteq> [] \<and> hd s = CHR ''/''), pt_components = splitSlash [] s\<rparr>"

definition parentPath :: "path \<Rightarrow> path" where
  "parentPath p = p\<lparr>pt_components := butlast (pt_components p)\<rparr>"

definition joinPath :: "path \<Rightarrow> string \<Rightarrow> path" where
  "joinPath p c = p\<lparr>pt_components := pt_components p @ [c]\<rparr>"

text \<open>
  A dot disappears, a component takes a following dot-dot with it, and a dot-dot right under the root
  disappears; the leading ones of a relative path stay. The accumulator holds the result, last first.
\<close>

fun normalComponents :: "bool \<Rightarrow> string list \<Rightarrow> string list \<Rightarrow> string list" where
  "normalComponents rooted acc [] = rev acc"
| "normalComponents rooted acc (c # cs) =
     (if c = ''.'' then normalComponents rooted acc cs
      else if c = ''..'' then
        (case acc of
           [] \<Rightarrow> normalComponents rooted (if rooted then [] else [c]) cs
         | a # rest \<Rightarrow> normalComponents rooted (if a = ''..'' then c # acc else rest) cs)
      else normalComponents rooted (c # acc) cs)"

definition lexicallyNormal :: "path \<Rightarrow> path" where
  "lexicallyNormal p = p\<lparr>pt_components := normalComponents (pt_rooted p) [] (pt_components p)\<rparr>"

fun joinWith :: "string list \<Rightarrow> string" where
  "joinWith [] = []"
| "joinWith [c] = c"
| "joinWith (c # cs) = c @ ''/'' @ joinWith cs"

definition pathString :: "path \<Rightarrow> string" where
  "pathString p = (if pt_rooted p then ''/'' else []) @ joinWith (pt_components p)"

section \<open>The cascade\<close>

datatype Source = Override | BundleRelative | CompiledDefault

datatype Verdict = Chosen | Unset | NotADirectory

record PluginDirCandidate =
  ca_source :: Source
  ca_path :: string
  ca_verdict :: Verdict

record PluginDirResolution =
  re_dir :: string
  re_candidates :: "PluginDirCandidate list"

record PluginDirInputs =
  pin_override :: string
  pin_executable :: "string option"
  pin_compiledDefault :: string

definition bundledDir :: "string \<Rightarrow> string" where
  "bundledDir exe =
     pathString (lexicallyNormal
       (joinPath (joinPath (joinPath (parentPath (pathOf exe)) ''..'') ''PlugIns'') ''librescrs''))"

definition resolvePluginDir :: "(string \<Rightarrow> bool) \<Rightarrow> PluginDirInputs \<Rightarrow> PluginDirResolution" where
  "resolvePluginDir isDirectory inputs =
     (if pin_override inputs \<noteq> []
      then \<lparr>re_dir = pin_override inputs,
            re_candidates = [\<lparr>ca_source = Override, ca_path = pin_override inputs, ca_verdict = Chosen\<rparr>]\<rparr>
      else
          let first = \<lparr>ca_source = Override, ca_path = [], ca_verdict = Unset\<rparr>;
              fallback = (\<lambda>tried. \<lparr>re_dir = pin_compiledDefault inputs,
                 re_candidates = tried @ [\<lparr>ca_source = CompiledDefault, ca_path = pin_compiledDefault inputs,
                                         ca_verdict = Chosen\<rparr>]\<rparr>)
          in case pin_executable inputs of
               Some exe \<Rightarrow>
                 (let bundled = bundledDir exe
                  in if isDirectory bundled
                     then \<lparr>re_dir = bundled,
                           re_candidates = [first, \<lparr>ca_source = BundleRelative, ca_path = bundled, ca_verdict = Chosen\<rparr>]\<rparr>
                     else fallback [first, \<lparr>ca_source = BundleRelative, ca_path = bundled, ca_verdict = NotADirectory\<rparr>])
             | None \<Rightarrow> fallback [first, \<lparr>ca_source = BundleRelative, ca_path = [], ca_verdict = Unset\<rparr>])"

text \<open>The running binary: unknown, or canonical when the file system can say so.\<close>

definition currentExecutablePath :: "string option \<Rightarrow> (string \<Rightarrow> string option) \<Rightarrow> string option" where
  "currentExecutablePath reported canonical =
     (case reported of
        None \<Rightarrow> None
      | Some p \<Rightarrow> (case canonical p of None \<Rightarrow> Some p | Some q \<Rightarrow> Some q))"

section \<open>The report\<close>

datatype Level = Trace | Info | Warn | Error

datatype LoadStatus = Loaded | DlopenFailed | MissingFactory | AbiMismatch | FactoryThrew

record LoadOutcome =
  lo_soPath :: string
  lo_status :: LoadStatus
  lo_diagnostic :: string

definition kTag :: string where
  "kTag = ''card plugins''"

fun sourceName :: "Source \<Rightarrow> string" where
  "sourceName Override = ''--plugin-dir''"
| "sourceName BundleRelative = ''the bundled plugin directory''"
| "sourceName CompiledDefault = ''the compiled-in default''"

fun statusName :: "LoadStatus \<Rightarrow> string" where
  "statusName Loaded = ''loaded''"
| "statusName DlopenFailed = ''dlopen failed''"
| "statusName MissingFactory = ''no plugin entry points''"
| "statusName AbiMismatch = ''plugin ABI mismatch''"
| "statusName FactoryThrew = ''the plugin factory failed''"

text \<open>The dash of the log lines is three bytes of UTF-8.\<close>

definition emDash :: string where
  "emDash = [char_of (226 :: nat), char_of (128 :: nat), char_of (148 :: nat)]"

definition rejectionLine :: "PluginDirCandidate \<Rightarrow> string" where
  "rejectionLine c =
     (case ca_source c of
        Override \<Rightarrow> kTag @ '': --plugin-dir was not given''
      | BundleRelative \<Rightarrow>
          if ca_verdict c = Unset
          then kTag @ '': no bundled plugin directory '' @ emDash @ '' this binary''
                 @ [char_of (39 :: nat)] @ ''s own path is unknown''
          else kTag @ '': no bundled plugin directory at '' @ ca_path c
      | CompiledDefault \<Rightarrow> kTag @ '': '' @ sourceName (ca_source c) @ '' did not supply a directory'')"

definition candidateLine :: "PluginDirCandidate \<Rightarrow> Level \<times> string" where
  "candidateLine c =
     (Info, if ca_verdict c = Chosen
            then kTag @ '': using '' @ ca_path c @ '' ('' @ sourceName (ca_source c) @ '')''
            else rejectionLine c)"

definition loadedLine :: "string \<Rightarrow> nat \<Rightarrow> Level \<times> string" where
  "loadedLine dir loaded =
     (if loaded = 0
      then (Warn, kTag @ '': loaded 0 plugins from '' @ dir @ '' '' @ emDash
              @ '' no card can be used until this directory holds plugins'')
      else (Info, kTag @ '': loaded '' @ showNat loaded @ '' plugins from '' @ dir))"

definition outcomeLine :: "LoadOutcome \<Rightarrow> (Level \<times> string) list" where
  "outcomeLine out =
     (if lo_status out = Loaded then []
      else [(Warn, kTag @ '': '' @ lo_soPath out @ '' was not loaded ('' @ statusName (lo_status out) @ '')''
               @ (if lo_diagnostic out \<noteq> [] then '': '' @ lo_diagnostic out else []))])"

definition pluginLoadReportLines :: "PluginDirResolution \<Rightarrow> nat \<Rightarrow> LoadOutcome list \<Rightarrow> (Level \<times> string) list" where
  "pluginLoadReportLines r loaded report =
     map candidateLine (re_candidates r) @ [loadedLine (re_dir r) loaded] @ concat (map outcomeLine report)"

text \<open>Each line at its level over the log; a trace line would be dropped.\<close>

definition reportPluginLoad :: "PluginDirResolution \<Rightarrow> nat \<Rightarrow> LoadOutcome list \<Rightarrow> (Level \<times> string) list" where
  "reportPluginLoad r loaded report = filter (\<lambda>l. fst l \<noteq> Trace) (pluginLoadReportLines r loaded report)"

section \<open>Properties\<close>

text \<open>
  The search for the plugin directory cannot come up empty and its record is true: the sources are
  tried in the documented order, the last one tried is the chosen one and names the directory, none
  before it was chosen, a given argument is never overridden, and a bundle is used only if its
  directory is there.
\<close>
lemma plugin_dir_trail:
  "\<exists>tried final. re_candidates (resolvePluginDir isDir inputs) = tried @ [final]
     \<and> ca_verdict final = Chosen \<and> ca_path final = re_dir (resolvePluginDir isDir inputs)
     \<and> list_all (\<lambda>c. ca_verdict c \<noteq> Chosen) tried
     \<and> map ca_source (tried @ [final]) = take (Suc (length tried)) [Override, BundleRelative, CompiledDefault]
     \<and> (ca_source final = Override \<longleftrightarrow> pin_override inputs \<noteq> [])
     \<and> (ca_source final = BundleRelative
          \<longleftrightarrow> pin_override inputs = [] \<and> (\<exists>exe. pin_executable inputs = Some exe \<and> isDir (bundledDir exe)))"
proof -
  define r where "r = resolvePluginDir isDir inputs"
  have "re_candidates r \<noteq> []" "re_candidates r = butlast (re_candidates r) @ [last (re_candidates r)]"
    by (auto simp: r_def resolvePluginDir_def Let_def split: option.split)
  moreover have "ca_verdict (last (re_candidates r)) = Chosen" "ca_path (last (re_candidates r)) = re_dir r"
    "list_all (\<lambda>c. ca_verdict c \<noteq> Chosen) (butlast (re_candidates r))"
    by (auto simp: r_def resolvePluginDir_def Let_def split: option.split)
  ultimately show ?thesis
    unfolding r_def
    by (intro exI [of _ "butlast (re_candidates r)"] exI [of _ "last (re_candidates r)"])
      (auto simp: r_def resolvePluginDir_def Let_def split: option.split)
qed

lemma normal_plain:
  "list_all (\<lambda>c. c \<noteq> ''.'' \<and> c \<noteq> ''..'') cs \<Longrightarrow> normalComponents rooted acc (cs @ ds) = normalComponents rooted (rev cs @ acc) ds"
  by (induction cs arbitrary: acc) simp_all

text \<open>In a bundle the plugins are looked for beside the directory of the binary.\<close>

lemma bundled_dir_beside_binary:
  assumes "pt_components (pathOf exe) = contents @ [macos, binary]"
    and "list_all (\<lambda>c. c \<noteq> ''.'' \<and> c \<noteq> ''..'') (contents @ [macos])"
  shows "bundledDir exe = pathString ((pathOf exe)\<lparr>pt_components := contents @ [''PlugIns'', ''librescrs'']\<rparr>)"
  using assms normal_plain [of "contents @ [macos]" "pt_rooted (pathOf exe)" "[]" "[''..'', ''PlugIns'', ''librescrs'']"]
  by (simp add: bundledDir_def parentPath_def joinPath_def lexicallyNormal_def butlast_append)

text \<open>
  The log says what went wrong and nothing else at warning level: one warning when no plugin was
  loaded at all, and one for every file that was not loaded, in the order of the report.
\<close>
lemma plugin_report_warnings:
  "length (filter (\<lambda>l. fst l = Warn) (reportPluginLoad r loaded report))
     = (if loaded = 0 then 1 else 0) + length (filter (\<lambda>out. lo_status out \<noteq> Loaded) report)
   \<and> reportPluginLoad r loaded report = pluginLoadReportLines r loaded report"
proof -
  have "list_all (\<lambda>l. fst l \<noteq> Trace) (pluginLoadReportLines r loaded report)"
    by (auto simp: pluginLoadReportLines_def list_all_iff candidateLine_def loadedLine_def outcomeLine_def split: if_splits)
  then have all: "reportPluginLoad r loaded report = pluginLoadReportLines r loaded report"
    by (auto simp: reportPluginLoad_def filter_id_conv list_all_iff)
  have "filter (\<lambda>l. fst l = Warn) (map candidateLine cs) = []" for cs
    by (induction cs) (simp_all add: candidateLine_def)
  moreover have "length (filter (\<lambda>l. fst l = Warn) (concat (map outcomeLine report)))
      = length (filter (\<lambda>out. lo_status out \<noteq> Loaded) report)"
    by (induction report) (simp_all add: outcomeLine_def)
  ultimately show ?thesis
    unfolding all by (simp add: pluginLoadReportLines_def loadedLine_def)
qed

end
