(* ===== verification/Startup.thy ===== *)
theory Startup
  imports Instance_Lock Plugin_Directory
begin

text \<open>
  How the two processes come up and go down: \<^verbatim>\<open>agent/src/main.cpp\<close>, \<^verbatim>\<open>ProcessHardening.cpp\<close>,
  \<^verbatim>\<open>AppGroupPaths.cpp\<close> and \<^verbatim>\<open>prompter/PrompterComposition.cpp\<close>. A start is a function of what the system
  answers, recorded in \<open>boot\<close>, to the steps taken in order and the exit code, if the process ends
  there. The steps that build the agent core and its collaborators are calls into the agent library
  and into components modelled elsewhere; here they are the events of the trace, in the order the
  code makes them.
\<close>

section \<open>Environment, limits and paths\<close>

definition entryName :: "string \<Rightarrow> string" where
  "entryName entry = takeWhile (\<lambda>c. c \<noteq> CHR ''='') entry"

text \<open>\<^verbatim>\<open>unsetenv\<close> refuses an empty name and otherwise removes every entry of that name.\<close>

definition unsetenv :: "string \<Rightarrow> string list \<Rightarrow> string list" where
  "unsetenv name env = (if name = [] then env else filter (\<lambda>e. entryName e \<noteq> name) env)"

definition restrictEnvironment :: "string list \<Rightarrow> string list \<Rightarrow> string list" where
  "restrictEnvironment keep env =
     (let dropped = map entryName (filter (\<lambda>e. entryName e \<notin> set keep) env)
      in fold unsetenv dropped env)"

definition kAgentEnvironment :: "string list" where
  "kAgentEnvironment = [''HOME'', ''TMPDIR'', ''TZ'']"

definition hardenSecretProcess :: "bool \<Rightarrow> bool \<Rightarrow> bool" where
  "hardenSecretProcess denied limited = (denied \<and> limited)"

text \<open>The soft and the hard limit on open files, when they can be read, and whether the new one is accepted.\<close>

definition raiseFileLimit :: "nat \<Rightarrow> bool \<Rightarrow> (nat \<times> nat) option \<Rightarrow> (nat \<times> nat) option \<times> bool" where
  "raiseFileLimit openMax accepted limits =
     (case limits of
        None \<Rightarrow> (None, False)
      | Some (cur, hard) \<Rightarrow>
          let want = min hard openMax
          in if cur < want then (if accepted then (Some (want, hard), False) else (Some (cur, hard), True))
             else (Some (cur, hard), False))"

definition realHomeDir :: "string option \<Rightarrow> string option \<Rightarrow> string \<Rightarrow> string" where
  "realHomeDir passwdDir home tempDir =
     (case passwdDir of
        Some d \<Rightarrow> d
      | None \<Rightarrow> (case home of
                  None \<Rightarrow> tempDir
                | Some h \<Rightarrow> if h = [] then tempDir else h))"

text \<open>The path join, for a relative right side: one separator between the parts, none after an empty left side.\<close>

definition slash :: "string \<Rightarrow> string \<Rightarrow> string" where
  "slash a b = (if a = [] \<or> last a = CHR ''/'' then a @ b else a @ ''/'' @ b)"

definition appGroupContainerDir :: "string \<Rightarrow> string \<Rightarrow> string" where
  "appGroupContainerDir home appGroup = slash (slash (slash home ''Library'') ''Group Containers'') appGroup"

definition agentSocketPath :: "string \<Rightarrow> string \<Rightarrow> string" where
  "agentSocketPath container kAgentSocketName = slash container kAgentSocketName"

definition getenv :: "string \<Rightarrow> string list \<Rightarrow> string option" where
  "getenv name env = map_option (\<lambda>e. drop (Suc (length name)) e) (find (\<lambda>e. entryName e = name) env)"

section \<open>Arguments\<close>

fun parseFrom :: "string \<Rightarrow> string list \<Rightarrow> string option" where
  "parseFrom pluginDir [] = Some pluginDir"
| "parseFrom pluginDir [arg] = None"
| "parseFrom pluginDir (arg # dir # rest) =
     (if arg \<noteq> ''--plugin-dir'' then None
      else if dir = [] then None
      else if pluginDir \<noteq> [] then None
      else parseFrom dir rest)"

definition parseArguments :: "string list \<Rightarrow> string option" where
  "parseArguments argv = parseFrom [] (drop 1 argv)"

section \<open>The agent\<close>

datatype boot_step =
    EnvironmentRestricted "string list"
  | HardeningTried bool
  | SigpipeIgnored
  | LogOpened
  | FileLimitSet "(nat \<times> nat) option"
  | SelfCheckPassed
  | SmartcardEntitlementPassed
  | ContainerCreated string
  | SocketBound string
  | CardTrustUnavailable string
  | PluginsLoaded string bool
  | AuthorizerBuilt
  | PrompterReset string
  | CoreBuilt
  | ReaderIdentityInstalled
  | AnchorsPublished
  | FrontendBuilt
  | ConfirmProviderSet
  | FrontendStarted
  | PresenceObserversSet
  | CardRemovalHookSet
  | ConfigHookSet
  | DisconnectHandlersSet "string list"
  | MonitorStarted
  | LifecycleStarted
  | LifecycleStopped
  | MonitorStopped
  | CryptoShutdownRequested
  | PromptsCancelled "string list"
  | PresenceObserversCleared
  | RunLoopStopped
  | LoopQuiesced
  | LoopDrained
  | FrontendReleased

record boot =
  bo_environment :: "string list"
  bo_denied :: bool
  bo_noCore :: bool
  bo_limits :: "(nat \<times> nat) option"
  bo_openMax :: nat
  bo_limitAccepted :: bool
  bo_selfMatches :: bool
  bo_smartcard :: bool
  bo_argv :: "string list"
  bo_passwdDir :: "string option"
  bo_tempDir :: string
  bo_appGroup :: string
  bo_containerCreated :: bool
  bo_socketName :: string
  bo_created :: "start_error option"
  bo_isDirectory :: "string \<Rightarrow> bool"
  bo_executable :: "string option"
  bo_cardTrustError :: "string option"
  bo_defaultPluginDir :: string

text \<open>The disconnect handlers, in the order they are registered.\<close>

definition disconnectHandlers :: "string list" where
  "disconnectHandlers = [''cancel operations'', ''revoke leases'', ''evict from frontend'']"

definition bootContainer :: "boot \<Rightarrow> string" where
  "bootContainer b =
     appGroupContainerDir
       (realHomeDir (bo_passwdDir b) (getenv ''HOME'' (restrictEnvironment kAgentEnvironment (bo_environment b))) (bo_tempDir b))
       (bo_appGroup b)"

definition earlySteps :: "boot \<Rightarrow> boot_step list" where
  "earlySteps b =
     [EnvironmentRestricted (restrictEnvironment kAgentEnvironment (bo_environment b)),
      HardeningTried (hardenSecretProcess (bo_denied b) (bo_noCore b)), SigpipeIgnored, LogOpened,
      FileLimitSet (fst (raiseFileLimit (bo_openMax b) (bo_limitAccepted b) (bo_limits b)))]"

definition composeSteps :: "boot \<Rightarrow> string \<Rightarrow> boot_step list" where
  "composeSteps b pluginDir =
     (case bo_cardTrustError b of None \<Rightarrow> [] | Some msg \<Rightarrow> [CardTrustUnavailable msg])
     @ [PluginsLoaded pluginDir (bo_cardTrustError b = None), AuthorizerBuilt, PrompterReset (slash (bootContainer b) ''prompter.sock''), CoreBuilt,
      ReaderIdentityInstalled, AnchorsPublished, FrontendBuilt, ConfirmProviderSet, FrontendStarted,
      PresenceObserversSet, CardRemovalHookSet, ConfigHookSet, DisconnectHandlersSet disconnectHandlers,
      MonitorStarted, LifecycleStarted]"

definition bootAgent :: "boot \<Rightarrow> boot_step list \<times> nat option" where
  "bootAgent b =
     (let s1 = earlySteps b
      in if \<not> bo_selfMatches b then (s1, Some 4)
         else let s2 = s1 @ [SelfCheckPassed]
         in if \<not> bo_smartcard b then (s2, Some 5)
         else let s3 = s2 @ [SmartcardEntitlementPassed]
         in case parseArguments (bo_argv b) of
              None \<Rightarrow> (s3, Some 2)
            | Some overrideDir \<Rightarrow>
                if \<not> bo_containerCreated b then (s3, Some 1)
                else
                  let s4 = s3 @ [ContainerCreated (bootContainer b)];
                      dir = re_dir (resolvePluginDir (bo_isDirectory b)
                              \<lparr>pin_override = overrideDir, pin_executable = bo_executable b,
                               pin_compiledDefault = bo_defaultPluginDir b\<rparr>)
                  in case bo_created b of
                       Some AnotherInstance \<Rightarrow> (s4, Some 3)
                     | Some StartFailed \<Rightarrow> (s4, Some 1)
                     | None \<Rightarrow> (s4 @ [SocketBound (agentSocketPath (bootContainer b) (bo_socketName b))] @ composeSteps b dir, None))"

text \<open>The shutdown closure, which a signal runs; the prompts standing then are dismissed one by one.\<close>

record running =
  ru_quiesced :: bool
  ru_steps :: "boot_step list"

definition quiesce :: "string list \<Rightarrow> running \<Rightarrow> running" where
  "quiesce livePrompts r =
     (if ru_quiesced r then r
      else r\<lparr>ru_quiesced := True,
             ru_steps := ru_steps r @
               [LifecycleStopped, MonitorStopped, CryptoShutdownRequested, PromptsCancelled livePrompts,
                PresenceObserversCleared, RunLoopStopped]\<rparr>)"

definition teardown :: "running \<Rightarrow> running" where
  "teardown r = r\<lparr>ru_steps := ru_steps r @ [LoopQuiesced, LoopDrained, FrontendReleased]\<rparr>"

text \<open>
  The whole process: the signals delivered while it runs, each with the prompts that stand then. The
  run loop returns once a signal stopped it, so a process that got none is still running.
\<close>

definition agentMain :: "boot \<Rightarrow> string list list \<Rightarrow> boot_step list \<times> nat option" where
  "agentMain b signals =
     (case bootAgent b of
        (steps, Some code) \<Rightarrow> (steps, Some code)
      | (steps, None) \<Rightarrow>
          let r = fold quiesce signals \<lparr>ru_quiesced = False, ru_steps = steps\<rparr>
          in if ru_quiesced r then (ru_steps (teardown r), Some 0) else (ru_steps r, None))"

section \<open>The prompter\<close>

datatype prompter_step = Warned string | AppInitialised | Bound | LoopRan

record hooks =
  hk_harden :: bool
  hk_selfCheck :: bool
  hk_bind :: "(start_error \<times> string) option"

definition runPrompter :: "hooks \<Rightarrow> prompter_step list \<times> nat" where
  "runPrompter h =
     (let s0 = (if hk_harden h then [] else [Warned ''process hardening incomplete (PT_DENY_ATTACH / RLIMIT_CORE=0 failed)''])
      in if \<not> hk_selfCheck h
         then (s0 @ [Warned ''signature does not match this build (team or App Group); refusing to start''], 4)
         else
           let s1 = s0 @ [AppInitialised]
           in case hk_bind h of
                Some (AnotherInstance, msg) \<Rightarrow>
                  (s1 @ [Warned (''another prompter is already serving its socket; refusing to start a second one ('' @ msg @ '')'')], 3)
              | Some (StartFailed, msg) \<Rightarrow> (s1 @ [Warned msg], 1)
              | None \<Rightarrow> (s1 @ [Bound, LoopRan], 0))"

section \<open>Properties\<close>

lemma unsetenv_all:
  "fold unsetenv names env = filter (\<lambda>e. entryName e = [] \<or> entryName e \<notin> set names) env"
  by (induction names arbitrary: env) (auto simp: unsetenv_def intro!: filter_cong)

text \<open>
  Of the environment exactly the named variables stay, each with its value and in order, whatever
  else was set and however often; the one other thing that can stay is an entry with no name at all,
  which names no variable.
\<close>
lemma environment_restricted:
  "restrictEnvironment keep env = filter (\<lambda>e. entryName e = [] \<or> entryName e \<in> set keep) env"
proof -
  have "entryName e \<notin> set (map entryName (filter (\<lambda>e. entryName e \<notin> set keep) env)) \<longleftrightarrow> entryName e \<in> set keep"
    if "e \<in> set env" for e
    using that by auto
  then show ?thesis
    unfolding restrictEnvironment_def Let_def unsetenv_all by (intro filter_cong refl) blast
qed

text \<open>
  The agent takes no argument or a plugin directory, given once and not empty, and refuses every
  other command line.
\<close>
lemma arguments_accepted:
  "parseArguments argv = Some dir \<longleftrightarrow>
     (drop 1 argv = [] \<and> dir = []) \<or> (drop 1 argv = [''--plugin-dir'', dir] \<and> dir \<noteq> [])"
proof -
  have given: "parseFrom d xs = Some e \<longleftrightarrow> xs = [] \<and> e = d" if "d \<noteq> []" for d xs e
    using that by (cases "(d, xs)" rule: parseFrom.cases) auto
  show ?thesis
    unfolding parseArguments_def
    by (cases "([] :: string, drop 1 argv)" rule: parseFrom.cases) (auto simp: given)
qed

lemma bind_step: "SocketBound p \<notin> set (earlySteps b)"
  by (simp add: earlySteps_def)


text \<open>
  What the composed loop relies on: a started agent had its confirmation provider before its frontend took
  requests, and its disconnect handlers before the monitor could announce a card.
\<close>

lemma started_in_order:
  assumes "snd (bootAgent b) = None"
  shows "ConfirmProviderSet \<in> set (takeWhile (\<lambda>s. s \<noteq> FrontendStarted) (fst (bootAgent b)))"
    and "DisconnectHandlersSet disconnectHandlers \<in> set (takeWhile (\<lambda>s. s \<noteq> MonitorStarted) (fst (bootAgent b)))"
  using assms
  by (auto simp: bootAgent_def Let_def earlySteps_def composeSteps_def split: option.splits start_error.splits if_splits)

lemma quiesce_again: "ru_quiesced r \<Longrightarrow> fold quiesce signals r = r"
  by (induction signals) (simp_all add: quiesce_def)


text \<open>
  The prompter's exit code names its cause as the agent's does, nothing is built before its own
  signature was found to match, and its run loop starts only with the socket bound; incomplete
  hardening is reported first and stops nothing.
\<close>
lemma prompter_start_causes:
  "(snd (runPrompter h) = 4 \<longleftrightarrow> \<not> hk_selfCheck h)
   \<and> (snd (runPrompter h) = 3 \<longleftrightarrow> hk_selfCheck h \<and> (\<exists>m. hk_bind h = Some (AnotherInstance, m)))
   \<and> (snd (runPrompter h) = 1 \<longleftrightarrow> hk_selfCheck h \<and> (\<exists>m. hk_bind h = Some (StartFailed, m)))
   \<and> (snd (runPrompter h) = 0 \<longleftrightarrow> LoopRan \<in> set (fst (runPrompter h)))
   \<and> (LoopRan \<in> set (fst (runPrompter h)) \<longleftrightarrow> hk_selfCheck h \<and> hk_bind h = None)
   \<and> (AppInitialised \<in> set (fst (runPrompter h)) \<longleftrightarrow> hk_selfCheck h)"
  by (auto simp: runPrompter_def Let_def split: option.splits start_error.splits if_splits)

end
