(* ===== verification/Log_Sink.thy ===== *)
theory Log_Sink
  imports Prelude
begin

text \<open>
  The log sink of \<^verbatim>\<open>agent/src/backend/OsLogSink.cpp\<close>: the four levels of the logging facade on the types of the
  platform's log, and the line as the C string that reaches it. Both scales are ordered by severity, so that
  a threshold on one side is a threshold on the other.
\<close>

datatype Level = Trace | Info | Warn | Error

datatype os_log_type = OsDebug | OsInfo | OsDefault | OsError

fun levelRank :: "Level \<Rightarrow> nat" where
  "levelRank Trace = 0"
| "levelRank Info = 1"
| "levelRank Warn = 2"
| "levelRank Error = 3"

fun typeRank :: "os_log_type \<Rightarrow> nat" where
  "typeRank OsDebug = 0"
| "typeRank OsInfo = 1"
| "typeRank OsDefault = 2"
| "typeRank OsError = 3"

lemma rank_inj [simp]: "levelRank a = levelRank b \<longleftrightarrow> a = b" "typeRank c = typeRank d \<longleftrightarrow> c = d"
  by (cases a; cases b; simp) (cases c; cases d; simp)

instantiation Level :: linorder
begin

definition less_eq_Level :: "Level \<Rightarrow> Level \<Rightarrow> bool" where
  "a \<le> b \<longleftrightarrow> levelRank a \<le> levelRank b"

definition less_Level :: "Level \<Rightarrow> Level \<Rightarrow> bool" where
  "a < b \<longleftrightarrow> levelRank a < levelRank b"

instance
  by standard (auto simp: less_eq_Level_def less_Level_def dest: order.antisym)

end

instantiation os_log_type :: linorder
begin

definition less_eq_os_log_type :: "os_log_type \<Rightarrow> os_log_type \<Rightarrow> bool" where
  "a \<le> b \<longleftrightarrow> typeRank a \<le> typeRank b"

definition less_os_log_type :: "os_log_type \<Rightarrow> os_log_type \<Rightarrow> bool" where
  "a < b \<longleftrightarrow> typeRank a < typeRank b"

instance
  by standard (auto simp: less_eq_os_log_type_def less_os_log_type_def dest: order.antisym)

end

definition osLogType :: "Level \<Rightarrow> os_log_type" where
  "osLogType level =
     (case level of Trace \<Rightarrow> OsDebug | Info \<Rightarrow> OsInfo | Warn \<Rightarrow> OsDefault | Error \<Rightarrow> OsError)"

text \<open>What one call of the sink appends to the platform's log.\<close>

definition makeOsLogSink :: "Level \<Rightarrow> string \<Rightarrow> (os_log_type \<times> string) list \<Rightarrow> (os_log_type \<times> string) list" where
  "makeOsLogSink level line entries = entries @ [(osLogType level, takeWhile (\<lambda>c. c \<noteq> char_of (0 :: nat)) line)]"

lemma osLogType_rank [simp]: "typeRank (osLogType level) = levelRank level"
  by (cases level) (simp_all add: osLogType_def)

lemma osLogType_strict_mono: "strict_mono osLogType"
  by (rule strict_monoI) (simp add: less_Level_def less_os_log_type_def)

text \<open>Filtering the platform's log at a severity is filtering the facade's lines at the level behind it.\<close>

lemma sink_threshold:
  "filter (\<lambda>e. osLogType level \<le> fst e) (fold (\<lambda>(l, s). makeOsLogSink l s) calls [])
     = fold (\<lambda>(l, s). makeOsLogSink l s) (filter (\<lambda>c. level \<le> fst c) calls) []"
proof -
  have run: "fold (\<lambda>(l, s). makeOsLogSink l s) cs entries
      = entries @ map (\<lambda>(l, s). (osLogType l, takeWhile (\<lambda>c. c \<noteq> char_of (0 :: nat)) s)) cs" for cs entries
    by (induction cs arbitrary: entries) (auto simp: makeOsLogSink_def)
  have "osLogType a \<le> osLogType b \<longleftrightarrow> a \<le> b" for a b
    using osLogType_strict_mono by (simp add: strict_mono_less_eq)
  then show ?thesis unfolding run by (induction calls) auto
qed

end
