(* ===== verification/Prompter_Client.thy ===== *)
theory Prompter_Client
  imports Prompter_Protocol
begin

text \<open>
  The agent's side of the prompter socket, \<^verbatim>\<open>agent/src/backend/MacPrompterClient.cpp\<close>: one
  blocking request and reply per call. What the operating system and the peer do to a call is
  its environment (\<open>client_env\<close>); a call answers its result, the effects it had on the socket
  in order, and what is left in every buffer that held a secret. The reading of a reply word,
  the interface tokens and the change-PIN kind word are the agent library's and are arguments.
\<close>

section \<open>Environment and results\<close>

datatype frame_error = WouldBlock | FrameFailed

datatype sockopt_result = OptOk | OptEinval | OptFailed

text \<open>A \<^verbatim>\<open>timeval\<close>, seconds and microseconds.\<close>

type_synonym timeval = "int \<times> int"

record client_env =
  ce_pathLength :: nat
  ce_socket :: bool
  ce_connect :: bool
  ce_verified :: bool
  ce_setsockopt :: "timeval \<Rightarrow> sockopt_result"
  ce_sendFrame :: "cbor \<Rightarrow> bool"
  ce_recvFrame :: "frame_error + bytes"

text \<open>The calls on the socket: the option set, \<^verbatim>\<open>sendFrame\<close> called, a frame received.\<close>

datatype effect = SetReceiveTimeout timeval | Sent cbor | Received

datatype PromptStatus = PsOk | PsCancelled | PsTimeout | PsError | PsHelperTooOld

record PromptResult =
  res_status :: PromptStatus
  res_secret :: bytes
  res_userMessage :: string

record PinChangePromptResult =
  pcr_status :: PromptStatus
  pcr_current :: bytes
  pcr_newPin :: bytes
  pcr_userMessage :: string

record 'i PromptOptions =
  po_title :: string
  po_description :: string
  po_requester :: string
  po_artifact :: string
  po_minLength :: u32
  po_maxLength :: u32
  po_artifacts :: "string list"
  po_attempt :: u32
  po_lastError :: string
  po_promptId :: string
  po_deadlineMs :: u32
  po_altDeadlineMs :: u32
  po_readerModel :: string
  po_readerIface :: 'i
  po_readerFull :: string
  po_pinLabel :: string

record 'i prompt_lib =
  promptStatusFor :: "PromptReplyStatus \<Rightarrow> bool \<Rightarrow> PromptStatus"
  readerInterfaceToken :: "'i \<Rightarrow> string"
  kKindChangePin :: string

section \<open>The socket\<close>

definition clientSunPathSize :: nat where
  "clientSunPathSize = 104"

definition connectPrompter :: "client_env \<Rightarrow> bool" where
  "connectPrompter env =
     (if ce_pathLength env \<ge> clientSunPathSize then False
      else if \<not> ce_socket env then False
      else ce_connect env)"

definition kResetReplyBudgetMs :: int where
  "kResetReplyBudgetMs = 500"

definition kMinReceiveBudgetUs :: int where
  "kMinReceiveBudgetUs = 1000"

definition kPromptReceiveBudgetMs :: int where
  "kPromptReceiveBudgetMs = 330 * 1000"

datatype BoundedReceiveError = TimedOut | RecvFailed

text \<open>\<^verbatim>\<open>duration_cast\<close> and the division of the source truncate toward zero.\<close>

definition durationCast :: "int \<Rightarrow> int \<Rightarrow> int" where
  "durationCast unit n = (if n \<ge> 0 then n div unit else - ((- n) div unit))"

definition budgetTimeval :: "int \<Rightarrow> timeval" where
  "budgetTimeval budgetMs =
     (durationCast 1000 budgetMs, (budgetMs - 1000 * durationCast 1000 budgetMs) * 1000)"

definition setReceiveBudget :: "client_env \<Rightarrow> int \<Rightarrow> bool" where
  "setReceiveBudget env budgetMs = (ce_setsockopt env (budgetTimeval budgetMs) = OptOk)"

definition recvFrameBounded :: "client_env \<Rightarrow> BoundedReceiveError + bytes" where
  "recvFrameBounded env =
     (case ce_recvFrame env of
        Inl WouldBlock \<Rightarrow> Inl TimedOut
      | Inl FrameFailed \<Rightarrow> Inl RecvFailed
      | Inr body \<Rightarrow> Inr body)"

text \<open>
  \<^verbatim>\<open>waitReadable\<close>: the clock in nanoseconds, read before and after each poll, and what each
  poll answers, by iteration. The loop only repeats on
  \<^verbatim>\<open>EINTR\<close>; an endless run is the value \<open>None\<close> of the outer option.
\<close>

datatype poll_result = PollReady | PollTimeout | PollEintr | PollError

record poll_env =
  pe_before :: "nat \<Rightarrow> int"
  pe_poll :: "nat \<Rightarrow> int \<Rightarrow> poll_result"
  pe_after :: "nat \<Rightarrow> int"

partial_function (option) waitReadable :: "poll_env \<Rightarrow> int \<Rightarrow> nat \<Rightarrow> int option option" where
  "waitReadable pe deadline i =
     (let left = durationCast 1000000 (deadline - pe_before pe i)
      in if left \<le> 0 then Some None
         else case pe_poll pe i left of
           PollReady \<Rightarrow> Some (Some (durationCast 1000 (deadline - pe_after pe i)))
         | PollTimeout \<Rightarrow> Some None
         | PollError \<Rightarrow> Some None
         | PollEintr \<Rightarrow> waitReadable pe deadline (i + 1))"

section \<open>Building the requests\<close>

definition buildRequest :: "'i prompt_lib \<Rightarrow> PromptKind \<Rightarrow> 'i PromptOptions \<Rightarrow> PromptRequest" where
  "buildRequest lib kind opts =
     \<lparr>pr_kind = kind, pr_title = po_title opts, pr_description = po_description opts,
      pr_requester = po_requester opts, pr_artifact = po_artifact opts,
      pr_minLength = po_minLength opts, pr_maxLength = po_maxLength opts,
      pr_artifacts = po_artifacts opts, pr_attempt = po_attempt opts, pr_lastError = po_lastError opts,
      pr_promptId = po_promptId opts, pr_deadlineMs = po_deadlineMs opts,
      pr_altDeadlineMs = po_altDeadlineMs opts, pr_readerModel = po_readerModel opts,
      pr_readerInterface = readerInterfaceToken lib (po_readerIface opts), pr_readerFull = po_readerFull opts\<rparr>"

definition buildChangeRequest :: "'i prompt_lib \<Rightarrow> 'i PromptOptions \<Rightarrow> RequestSecrets" where
  "buildChangeRequest lib opts =
     \<lparr>rs_kind = kKindChangePin lib,
      rs_title = (if po_title opts = [] \<and> po_pinLabel opts \<noteq> [] then po_pinLabel opts else po_title opts),
      rs_description = po_description opts, rs_requester = po_requester opts,
      rs_artifact = po_artifact opts,
      rs_primaryMinLength = po_minLength opts, rs_primaryMaxLength = po_maxLength opts,
      rs_newMinLength = po_minLength opts, rs_newMaxLength = po_maxLength opts,
      rs_promptId = po_promptId opts, rs_deadlineMs = po_deadlineMs opts\<rparr>"

definition errorResult :: "string \<Rightarrow> PromptResult" where
  "errorResult msg = \<lparr>res_status = PsError, res_secret = [], res_userMessage = msg\<rparr>"

definition changeErrorResult :: "string \<Rightarrow> PinChangePromptResult" where
  "changeErrorResult msg =
     \<lparr>pcr_status = PsError, pcr_current = [], pcr_newPin = [], pcr_userMessage = msg\<rparr>"

definition refuse :: "string \<Rightarrow> ConfirmReply" where
  "refuse why = \<lparr>cr_status = StError, cr_userMessage = why, cr_protocolVersion = None\<rparr>"

text \<open>The test \<^verbatim>\<open>!v || *v < kPrompterProtocolVersion\<close> of the three reply paths.\<close>

definition tooOld :: "u32 option \<Rightarrow> bool" where
  "tooOld v = (case v of None \<Rightarrow> True | Some n \<Rightarrow> n < kPrompterProtocolVersion)"

definition replyMessage :: "PromptReplyStatus \<Rightarrow> string \<Rightarrow> string" where
  "replyMessage status msg =
     (let own = (if status = StUnauthorized then ''prompter rejected the agent (unauthorized)'' else [])
      in if msg \<noteq> [] \<and> own = [] then msg else own)"

section \<open>The calls\<close>

text \<open>
  The outcome of a call: its result, the effects on the socket in order, and the residue of
  the buffers: what the decoder left, the frame body after \<^verbatim>\<open>secureZero\<close>, and each inline secret
  after its \<^verbatim>\<open>std::fill\<close>.
\<close>

type_synonym 'r call = "'r \<times> effect list \<times> residue list"

definition requestConfirmation :: "prompter_vocab \<Rightarrow> codec \<Rightarrow> client_env \<Rightarrow> ConfirmAction \<Rightarrow> ConfirmReply call" where
  "requestConfirmation voc cd env act =
     (if \<not> connectPrompter env then (refuse ''prompter unavailable'', [], [])
      else if \<not> ce_verified env then (refuse ''prompter peer verification failed'', [], [])
      else
        let body = toCborConfirmAction act
        in if \<not> ce_sendFrame env body then (refuse ''prompter send failed'', [Sent body], [])
           else case ce_recvFrame env of
             Inl e \<Rightarrow> (refuse ''prompter recv failed'', [Sent body], [])
           | Inr frame \<Rightarrow>
               (case parseConfirmReply voc cd frame of
                  (Inl e, res) \<Rightarrow> (refuse ''prompter reply malformed'', [Sent body, Received], res)
                | (Inr reply, res) \<Rightarrow>
                    ((if tooOld (cr_protocolVersion reply) then refuse ''prompter too old to confirm'' else reply),
                     [Sent body, Received], res)))"

definition promptOutcome :: "'i prompt_lib \<Rightarrow> PromptReply \<Rightarrow> PromptResult" where
  "promptOutcome lib reply =
     (if tooOld (re_protocolVersion reply)
      then \<lparr>res_status = PsHelperTooOld, res_secret = [], res_userMessage = []\<rparr>
      else
        let status = promptStatusFor lib (re_status reply) False
        in \<lparr>res_status = status, res_secret = (if status = PsOk then re_secret reply else []),
            res_userMessage = replyMessage (re_status reply) (re_userMessage reply)\<rparr>)"

definition request ::
    "prompter_vocab \<Rightarrow> codec \<Rightarrow> 'i prompt_lib \<Rightarrow> int \<Rightarrow> client_env \<Rightarrow> PromptKind \<Rightarrow> 'i PromptOptions
       \<Rightarrow> PromptResult call" where
  "request voc cd lib budget env kind opts =
     (if \<not> connectPrompter env then (errorResult ''prompter unavailable'', [], [])
      else if \<not> ce_verified env then (errorResult ''prompter peer verification failed'', [], [])
      else
        let bound = SetReceiveTimeout (budgetTimeval budget);
            body = toCborPromptRequest voc (buildRequest lib kind opts)
        in if \<not> setReceiveBudget env budget
           then (errorResult ''prompter reply wait could not be bounded'', [bound], [])
           else if \<not> ce_sendFrame env body then (errorResult ''prompter send failed'', [bound, Sent body], [])
           else case recvFrameBounded env of
             Inl TimedOut \<Rightarrow>
               (\<lparr>res_status = PsTimeout, res_secret = [], res_userMessage = []\<rparr>, [bound, Sent body], [])
           | Inl RecvFailed \<Rightarrow> (errorResult ''prompter recv failed'', [bound, Sent body], [])
           | Inr frame \<Rightarrow>
               (case parsePromptReply voc cd frame of
                  (Inl e, res) \<Rightarrow>
                    (errorResult ''prompter reply malformed'', [bound, Sent body, Received],
                     res @ [DeadCopy (zeroed frame)])
                | (Inr reply, res) \<Rightarrow>
                    (promptOutcome lib reply, [bound, Sent body, Received],
                     res @ [DeadCopy (zeroed frame), DeadCopy (zeroed (re_secret reply))])))"

definition requestPin ::
    "prompter_vocab \<Rightarrow> codec \<Rightarrow> 'i prompt_lib \<Rightarrow> int \<Rightarrow> client_env \<Rightarrow> 'i PromptOptions \<Rightarrow> PromptResult call" where
  "requestPin voc cd lib budget env opts = request voc cd lib budget env Pin opts"

definition requestCan ::
    "prompter_vocab \<Rightarrow> codec \<Rightarrow> 'i prompt_lib \<Rightarrow> int \<Rightarrow> client_env \<Rightarrow> 'i PromptOptions \<Rightarrow> PromptResult call" where
  "requestCan voc cd lib budget env opts = request voc cd lib budget env Can opts"

definition requestMrz ::
    "prompter_vocab \<Rightarrow> codec \<Rightarrow> 'i prompt_lib \<Rightarrow> int \<Rightarrow> client_env \<Rightarrow> 'i PromptOptions \<Rightarrow> PromptResult call" where
  "requestMrz voc cd lib budget env opts = request voc cd lib budget env Mrz opts"

definition changeOutcome :: "'i prompt_lib \<Rightarrow> MultiPromptReply \<Rightarrow> PinChangePromptResult" where
  "changeOutcome lib reply =
     (if tooOld (mr_protocolVersion reply)
      then \<lparr>pcr_status = PsHelperTooOld, pcr_current = [], pcr_newPin = [], pcr_userMessage = []\<rparr>
      else
        let status = promptStatusFor lib (mr_status reply) False
        in \<lparr>pcr_status = status, pcr_current = (if status = PsOk then mr_primary reply else []),
            pcr_newPin = (if status = PsOk then mr_secondary reply else []),
            pcr_userMessage = replyMessage (mr_status reply) (mr_userMessage reply)\<rparr>)"

definition requestPinChange ::
    "prompter_vocab \<Rightarrow> codec \<Rightarrow> 'i prompt_lib \<Rightarrow> int \<Rightarrow> client_env \<Rightarrow> 'i PromptOptions
       \<Rightarrow> PinChangePromptResult call" where
  "requestPinChange voc cd lib budget env opts =
     (if \<not> connectPrompter env then (changeErrorResult ''prompter unavailable'', [], [])
      else if \<not> ce_verified env then (changeErrorResult ''prompter peer verification failed'', [], [])
      else
        let bound = SetReceiveTimeout (budgetTimeval budget);
            body = toCborRequestSecrets (buildChangeRequest lib opts)
        in if \<not> setReceiveBudget env budget
           then (changeErrorResult ''prompter reply wait could not be bounded'', [bound], [])
           else if \<not> ce_sendFrame env body then (changeErrorResult ''prompter send failed'', [bound, Sent body], [])
           else case recvFrameBounded env of
             Inl TimedOut \<Rightarrow>
               (\<lparr>pcr_status = PsTimeout, pcr_current = [], pcr_newPin = [], pcr_userMessage = []\<rparr>,
                [bound, Sent body], [])
           | Inl RecvFailed \<Rightarrow> (changeErrorResult ''prompter recv failed'', [bound, Sent body], [])
           | Inr frame \<Rightarrow>
               (case parseMultiPromptReply voc cd frame of
                  (Inl e, res) \<Rightarrow>
                    (changeErrorResult ''prompter reply malformed'', [bound, Sent body, Received],
                     res @ [DeadCopy (zeroed frame)])
                | (Inr reply, res) \<Rightarrow>
                    (changeOutcome lib reply, [bound, Sent body, Received],
                     res @ [DeadCopy (zeroed frame), DeadCopy (zeroed (mr_primary reply)),
                            DeadCopy (zeroed (mr_secondary reply))])))"

definition cancel :: "client_env \<Rightarrow> string \<Rightarrow> effect list" where
  "cancel env promptId =
     (if \<not> connectPrompter env \<or> \<not> ce_verified env then []
      else [Sent (toCborPromptCancel \<lparr>pc_promptId = promptId\<rparr>)])"

text \<open>The line \<^verbatim>\<open>reset\<close> logs, and with it the effects; \<open>None\<close> if the wait never ends.\<close>

datatype reset_log =
    NotRunning | PeerUnverified | NotSent | NoAnswer | Unbounded | Unreadable | UnknownAnswer | Closed u32

definition resetTimeval :: "int \<Rightarrow> timeval" where
  "resetTimeval leftUs = (0, max leftUs kMinReceiveBudgetUs)"

definition reset :: "codec \<Rightarrow> client_env \<Rightarrow> poll_env \<Rightarrow> int \<Rightarrow> (reset_log \<times> effect list) option" where
  "reset cd env pe now =
     (if \<not> connectPrompter env then Some (NotRunning, [])
      else if \<not> ce_verified env then Some (PeerUnverified, [])
      else if \<not> ce_sendFrame env toCborPromptReset then Some (NotSent, [Sent toCborPromptReset])
      else
        case waitReadable pe (now + kResetReplyBudgetMs * 1000000) 0 of
          None \<Rightarrow> None
        | Some None \<Rightarrow> Some (NoAnswer, [Sent toCborPromptReset])
        | Some (Some left) \<Rightarrow>
            let tv = resetTimeval left; asked = [Sent toCborPromptReset, SetReceiveTimeout tv]
            in if ce_setsockopt env tv = OptFailed then Some (Unbounded, asked)
               else case ce_recvFrame env of
                 Inl e \<Rightarrow> Some (Unreadable, asked)
               | Inr frame \<Rightarrow>
                   (case fst (parseResetDone cd frame) of
                      Inl e \<Rightarrow> Some (UnknownAnswer, asked @ [Received])
                    | Inr d \<Rightarrow> Some (Closed (rd_closed d), asked @ [Received])))"

section \<open>The reply paths\<close>

lemma recvFrameBounded_iff:
  "recvFrameBounded env = Inr frame \<longleftrightarrow> ce_recvFrame env = Inr frame"
  by (auto simp: recvFrameBounded_def split: sum.splits frame_error.splits)

text \<open>The conditions under which a call came back with a frame from the peer it verified.\<close>

definition answered :: "client_env \<Rightarrow> int \<Rightarrow> cbor \<Rightarrow> bytes \<Rightarrow> bool" where
  "answered env budget body frame \<longleftrightarrow>
     connectPrompter env \<and> ce_verified env \<and> setReceiveBudget env budget \<and> ce_sendFrame env body
     \<and> ce_recvFrame env = Inr frame"

definition statusReading :: "'i prompt_lib \<Rightarrow> bool" where
  "statusReading lib \<longleftrightarrow>
     list_all (\<lambda>s. promptStatusFor lib s False = PsOk \<longleftrightarrow> s = StOk)
       [StOk, StOkMrz, StCancelled, StTimeout, StError, StUnauthorized]"

lemma statusReading_iff: "statusReading lib \<Longrightarrow> promptStatusFor lib s False = PsOk \<longleftrightarrow> s = StOk"
  by (cases s) (auto simp: statusReading_def)

lemma request_answered:
  assumes "answered env budget (toCborPromptRequest voc (buildRequest lib kind opts)) frame"
  shows "request voc cd lib budget env kind opts
     = (let body = toCborPromptRequest voc (buildRequest lib kind opts);
            effects = [SetReceiveTimeout (budgetTimeval budget), Sent body, Received]
        in case parsePromptReply voc cd frame of
             (Inl e, res) \<Rightarrow> (errorResult ''prompter reply malformed'', effects, res @ [DeadCopy (zeroed frame)])
           | (Inr reply, res) \<Rightarrow> (promptOutcome lib reply, effects,
               res @ [DeadCopy (zeroed frame), DeadCopy (zeroed (re_secret reply))]))"
proof -
  have "recvFrameBounded env = Inr frame" using assms by (simp add: answered_def recvFrameBounded_iff)
  then show ?thesis using assms by (simp add: request_def answered_def Let_def)
qed

lemma request_unanswered:
  assumes "\<And>frame. \<not> answered env budget (toCborPromptRequest voc (buildRequest lib kind opts)) frame"
  shows "res_status (fst (request voc cd lib budget env kind opts)) \<in> {PsError, PsTimeout}
       \<and> res_secret (fst (request voc cd lib budget env kind opts)) = []
       \<and> snd (snd (request voc cd lib budget env kind opts)) = []"
  using assms
  by (auto simp: request_def answered_def Let_def errorResult_def recvFrameBounded_iff
      split: sum.split BoundedReceiveError.split)

lemma pinChange_answered:
  assumes "answered env budget (toCborRequestSecrets (buildChangeRequest lib opts)) frame"
  shows "requestPinChange voc cd lib budget env opts
     = (let body = toCborRequestSecrets (buildChangeRequest lib opts);
            effects = [SetReceiveTimeout (budgetTimeval budget), Sent body, Received]
        in case parseMultiPromptReply voc cd frame of
             (Inl e, res) \<Rightarrow>
               (changeErrorResult ''prompter reply malformed'', effects, res @ [DeadCopy (zeroed frame)])
           | (Inr reply, res) \<Rightarrow> (changeOutcome lib reply, effects,
               res @ [DeadCopy (zeroed frame), DeadCopy (zeroed (mr_primary reply)),
                      DeadCopy (zeroed (mr_secondary reply))]))"
proof -
  have "recvFrameBounded env = Inr frame" using assms by (simp add: answered_def recvFrameBounded_iff)
  then show ?thesis using assms by (simp add: requestPinChange_def answered_def Let_def)
qed

lemma pinChange_unanswered:
  assumes "\<And>frame. \<not> answered env budget (toCborRequestSecrets (buildChangeRequest lib opts)) frame"
  shows "pcr_status (fst (requestPinChange voc cd lib budget env opts)) \<in> {PsError, PsTimeout}
       \<and> pcr_current (fst (requestPinChange voc cd lib budget env opts)) = []
       \<and> pcr_newPin (fst (requestPinChange voc cd lib budget env opts)) = []
       \<and> snd (snd (requestPinChange voc cd lib budget env opts)) = []"
  using assms
  by (auto simp: requestPinChange_def answered_def Let_def changeErrorResult_def recvFrameBounded_iff
      split: sum.split BoundedReceiveError.split)

lemma not_tooOld: "\<not> tooOld v \<longleftrightarrow> (\<exists>n. v = Some n \<and> 2 \<le> n)"
  by (cases v) (simp_all add: tooOld_def kPrompterProtocolVersion_def not_less)

lemma promptOutcome_ok:
  assumes "statusReading lib"
  shows "res_status (promptOutcome lib reply) = PsOk
           \<longleftrightarrow> \<not> tooOld (re_protocolVersion reply) \<and> re_status reply = StOk"
    and "res_secret (promptOutcome lib reply)
           = (if \<not> tooOld (re_protocolVersion reply) \<and> re_status reply = StOk then re_secret reply else [])"
  using statusReading_iff [OF assms] by (auto simp: promptOutcome_def Let_def)

lemma changeOutcome_ok:
  assumes "statusReading lib"
  shows "pcr_status (changeOutcome lib reply) = PsOk
           \<longleftrightarrow> \<not> tooOld (mr_protocolVersion reply) \<and> mr_status reply = StOk"
    and "pcr_current (changeOutcome lib reply)
           = (if \<not> tooOld (mr_protocolVersion reply) \<and> mr_status reply = StOk then mr_primary reply else [])"
    and "pcr_newPin (changeOutcome lib reply)
           = (if \<not> tooOld (mr_protocolVersion reply) \<and> mr_status reply = StOk then mr_secondary reply else [])"
  using statusReading_iff [OF assms] by (auto simp: changeOutcome_def Let_def)

section \<open>The wait of the start-up reset\<close>

lemma waitReadable_returns:
  assumes "deadline - pe_before pe n < 1000000" and "i \<le> n"
  shows "\<exists>r. waitReadable pe deadline i = Some r"
  using assms(2)
proof (induction "n - i" arbitrary: i)
  case 0
  then have "durationCast 1000000 (deadline - pe_before pe i) \<le> 0"
    using assms(1) by (auto simp: durationCast_def)
  then show ?case by (subst waitReadable.simps) (simp add: Let_def)
next
  case (Suc k)
  then have "\<exists>r. waitReadable pe deadline (i + 1) = Some r" by simp
  then show ?case by (subst waitReadable.simps) (auto simp: Let_def split: poll_result.split)
qed

lemma waitReadable_left:
  assumes "waitReadable pe deadline i = Some (Some left)"
  shows "\<exists>j. left = durationCast 1000 (deadline - pe_after pe j)"
proof -
  let ?P = "\<lambda>pe deadline (i :: nat) r. \<forall>left. r = Some left \<longrightarrow> (\<exists>j. left = durationCast 1000 (deadline - pe_after pe j))"
  have "?P pe deadline i (Some left)"
    by (rule waitReadable.raw_induct [of ?P, OF _ assms])
      (auto simp: Let_def split: poll_result.splits if_splits)
  then show ?thesis by blast
qed

lemma durationCast_bounds:
  "x \<le> 500000000 \<Longrightarrow> durationCast 1000 x \<le> 500000" "1000 * durationCast 1000 x \<le> max x 0"
  by (auto simp: durationCast_def)

section \<open>Properties\<close>

text \<open>
  C25: nothing crosses the socket to a peer that is not the verified prompter, and nothing is
  taken from it: every call then makes no effect at all, the prompts answer an error without a
  secret, and a confirmation is refused.
\<close>
theorem unverified_peer_gets_nothing:
  assumes "\<not> connectPrompter env \<or> \<not> ce_verified env"
  shows "snd (request voc cd lib budget env kind opts) = ([], [])
       \<and> res_status (fst (request voc cd lib budget env kind opts)) = PsError
       \<and> res_secret (fst (request voc cd lib budget env kind opts)) = []
       \<and> snd (requestPinChange voc cd lib budget env opts) = ([], [])
       \<and> pcr_status (fst (requestPinChange voc cd lib budget env opts)) = PsError
       \<and> snd (requestConfirmation voc cd env act) = ([], [])
       \<and> cr_status (fst (requestConfirmation voc cd env act)) = StError
       \<and> cancel env promptId = [] \<and> map_option snd (reset cd env pe now) = Some []"
  using assms
  by (auto simp: request_def requestPinChange_def requestConfirmation_def cancel_def reset_def
      errorResult_def changeErrorResult_def refuse_def)

definition demoLib :: "nat prompt_lib" where
  "demoLib = \<lparr>promptStatusFor = (\<lambda>s _. case s of StOk \<Rightarrow> PsOk | StCancelled \<Rightarrow> PsCancelled | StTimeout \<Rightarrow> PsTimeout | _ \<Rightarrow> PsError),
     readerInterfaceToken = (\<lambda>_. ''unknown''), kKindChangePin = ''change_pin''\<rparr>"

definition demoOptions :: "nat PromptOptions" where
  "demoOptions = \<lparr>po_title = ''Sign'', po_description = [], po_requester = ''Mail'', po_artifact = [],
     po_minLength = 4, po_maxLength = 8, po_artifacts = [], po_attempt = 0, po_lastError = [],
     po_promptId = ''p1'', po_deadlineMs = 60000, po_altDeadlineMs = 0, po_readerModel = [],
     po_readerIface = 0, po_readerFull = [], po_pinLabel = []\<rparr>"

definition demoClient :: client_env where
  "demoClient = \<lparr>ce_pathLength = 60, ce_socket = True, ce_connect = True, ce_verified = True,
     ce_setsockopt = (\<lambda>_. OptOk), ce_sendFrame = (\<lambda>_. True), ce_recvFrame = Inr [1, 2, 3]\<rparr>"

lemma demoLib_reading: "statusReading demoLib"
  by (simp add: statusReading_def demoLib_def)

theorem unverified_peer_gets_nothing_witness:
  "cancel (demoClient\<lparr>ce_verified := False\<rparr>) ''p1'' = []
   \<and> snd (request demoVocab (constCodec (toCborPromptReply demoVocab demoReply)) demoLib 330000
            (demoClient\<lparr>ce_verified := False\<rparr>) Pin demoOptions) = ([], [])"
  using unverified_peer_gets_nothing [of "demoClient\<lparr>ce_verified := False\<rparr>" demoVocab
      "constCodec (toCborPromptReply demoVocab demoReply)" demoLib 330000 Pin demoOptions undefined "''p1''"]
  by simp


lemma demo_answered: "answered demoClient budget body [1, 2, 3]"
  by (simp add: answered_def demoClient_def connectPrompter_def clientSunPathSize_def setReceiveBudget_def)

lemma demo_parsed:
  "fst (parsePromptReply demoVocab (constCodec (toCborPromptReply demoVocab demoReply)) [1, 2, 3]) = Inr (replyWire demoReply)"
  by (rule roundtrip_reply [OF decode_constCodec demoVocab_ok]) (simp add: demoReply_def demoVocab_def)


text \<open>
  The same for a PIN change, over both secrets: they are taken together, from an Ok reply of
  the verified peer in a current protocol, or not at all.
\<close>
lemma pin_change_secrets_origin:
  assumes "statusReading lib" and "call = requestPinChange voc cd lib budget env opts"
  shows "(pcr_status (fst call) = PsOk \<longleftrightarrow>
           (\<exists>frame reply. answered env budget (toCborRequestSecrets (buildChangeRequest lib opts)) frame
              \<and> fst (parseMultiPromptReply voc cd frame) = Inr reply \<and> (\<exists>n. mr_protocolVersion reply = Some n \<and> 2 \<le> n)
              \<and> mr_status reply = StOk \<and> pcr_current (fst call) = mr_primary reply
              \<and> pcr_newPin (fst call) = mr_secondary reply))
       \<and> (pcr_status (fst call) \<noteq> PsOk \<longrightarrow> pcr_current (fst call) = [] \<and> pcr_newPin (fst call) = [])"
proof (cases "\<exists>frame. answered env budget (toCborRequestSecrets (buildChangeRequest lib opts)) frame")
  case False
  with pinChange_unanswered [of env budget lib opts voc cd] assms(2) show ?thesis by auto
next
  case True
  then obtain frame where
    ans: "answered env budget (toCborRequestSecrets (buildChangeRequest lib opts)) frame" by blast
  then have only: "answered env budget (toCborRequestSecrets (buildChangeRequest lib opts)) f \<longleftrightarrow> f = frame" for f
    by (auto simp: answered_def)
  obtain p res where parsed: "parseMultiPromptReply voc cd frame = (p, res)" by fastforce
  show ?thesis
    by (cases p)
      (use pinChange_answered [OF ans, of voc cd] parsed only changeOutcome_ok [OF assms(1)] assms(2) in
        \<open>auto simp: changeErrorResult_def not_tooOld Let_def split: if_splits\<close>)
qed

text \<open>
  C27: whatever a reply frame that decodes to a map holds, a prompt and a PIN change leave none
  of it behind: the decoded tree is scrubbed, and the frame body and every secret copied out of
  it are overwritten with zeros on every exit, refusals included.
\<close>
theorem client_leaves_no_secret:
  assumes "ce_recvFrame env = Inr frame" and "decode cd frame = Some (CMap m)"
  shows "list_all (cleanResidue cd (CMap m)) (snd (snd (request voc cd lib budget env kind opts)))
       \<and> list_all (cleanResidue cd (CMap m)) (snd (snd (requestPinChange voc cd lib budget env opts)))
       \<and> (answered env budget (toCborPromptRequest voc (buildRequest lib kind opts)) frame
            \<longrightarrow> DeadCopy (zeroed frame) \<in> set (snd (snd (request voc cd lib budget env kind opts))))"
proof -
  have single: "list_all (cleanResidue cd (CMap m)) (snd (parsePromptReply voc cd frame))"
    and double: "list_all (cleanResidue cd (CMap m)) (snd (parseMultiPromptReply voc cd frame))"
    by (simp_all add: parsePromptReply_def parseMultiPromptReply_def withHoldScrub_clean [OF assms(2)]
        reply_residue_clean)
  have only: "f = frame" if "answered env budget body f" for body f
    using that assms(1) by (simp add: answered_def)
  have "list_all (cleanResidue cd (CMap m)) (snd (snd (request voc cd lib budget env kind opts)))
      \<and> (answered env budget (toCborPromptRequest voc (buildRequest lib kind opts)) frame
            \<longrightarrow> DeadCopy (zeroed frame) \<in> set (snd (snd (request voc cd lib budget env kind opts))))"
  proof (cases "answered env budget (toCborPromptRequest voc (buildRequest lib kind opts)) frame")
    case True
    from request_answered [OF this, of cd] single show ?thesis
      by (auto simp: Let_def split: prod.split sum.split)
  next
    case False
    with only have "\<not> answered env budget (toCborPromptRequest voc (buildRequest lib kind opts)) f" for f by blast
    from request_unanswered [OF this] False show ?thesis by simp
  qed
  moreover have "list_all (cleanResidue cd (CMap m)) (snd (snd (requestPinChange voc cd lib budget env opts)))"
  proof (cases "answered env budget (toCborRequestSecrets (buildChangeRequest lib opts)) frame")
    case True
    from pinChange_answered [OF this, of voc cd] double show ?thesis
      by (auto simp: Let_def split: prod.split sum.split)
  next
    case False
    with only have "\<not> answered env budget (toCborRequestSecrets (buildChangeRequest lib opts)) f" for f by blast
    from pinChange_unanswered [OF this] show ?thesis by simp
  qed
  ultimately show ?thesis by blast
qed

theorem client_leaves_no_secret_witness:
  "DeadCopy [0, 0, 0] \<in> set (snd (snd (request demoVocab (constCodec (CMap [(''secret'', CBytes [7])])) demoLib 330000
     demoClient Pin demoOptions)))"
  using client_leaves_no_secret [of demoClient "[1, 2, 3]" "constCodec (CMap [(''secret'', CBytes [7])])"
      "[(''secret'', CBytes [7])]" demoVocab demoLib 330000 Pin demoOptions] demo_answered
  by (simp add: demoClient_def zeroed_def numeral_3_eq_3)

text \<open>
  An approval is never assumed: a confirmation answers Ok only if the verified peer was
  sent exactly this action and its reply parses, says Ok, announces a protocol at least as new
  as the agent's, and is returned as it is.
\<close>
lemma approval_only_from_prompter:
  assumes "cr_status (fst (requestConfirmation voc cd env act)) = StOk"
  shows "connectPrompter env \<and> ce_verified env
       \<and> fst (snd (requestConfirmation voc cd env act)) = [Sent (toCborConfirmAction act), Received]
       \<and> (\<exists>frame. ce_recvFrame env = Inr frame
            \<and> fst (parseConfirmReply voc cd frame) = Inr (fst (requestConfirmation voc cd env act)))
       \<and> (\<exists>n. cr_protocolVersion (fst (requestConfirmation voc cd env act)) = Some n \<and> 2 \<le> n)"
  using assms
  by (auto simp: requestConfirmation_def refuse_def Let_def tooOld_def kPrompterProtocolVersion_def
      split: if_splits sum.splits prod.splits option.splits)


definition demoPolls :: poll_env where
  "demoPolls = \<lparr>pe_before = (\<lambda>i. 300000000 * int i), pe_poll = (\<lambda>i _. if i = 0 then PollEintr else PollReady),
                pe_after = (\<lambda>i. 300000000 * int i + 199999900)\<rparr>"


end
