(* ===== verification/Peer_Identity.thy ===== *)
theory Peer_Identity
  imports Prompter_Client
begin

text \<open>
  Who the three processes hold each other to: the identity of \<^verbatim>\<open>agent/include/.../backend/PeerPolicy.h\<close> and the
  checks built from it in \<^verbatim>\<open>PeerPolicy.cpp\<close>, \<^verbatim>\<open>prompter/PrompterMain.mm\<close>, the constructor of the prompter client
  and \<^verbatim>\<open>pkcs11-module/src/SocketAgentClientFactory.cpp\<close>. Reading a peer's code signature and comparing it are
  the agent library's and are arguments, as are the names and the team the build compiled in.
\<close>

record ExpectedPeerIdentity =
  ei_signingId :: string
  ei_appGroup :: string
  ei_teamId :: "string option"

record ('cred, 'code) peer_lib =
  pe_prompterSigningId :: string
  pe_appGroup :: string
  pe_configuredTeamId :: "string option"
  pe_expectedAgentIdentity :: ExpectedPeerIdentity
  pe_resolvePeerCodeSigning :: "'cred \<Rightarrow> string option \<Rightarrow> 'code"
  pe_matchesExpectedPeer :: "'code \<Rightarrow> ExpectedPeerIdentity \<Rightarrow> bool"
  pe_verifyConnectedPeer :: "nat \<Rightarrow> ExpectedPeerIdentity \<Rightarrow> bool"

definition expectedPrompterIdentity :: "('cred, 'code) peer_lib \<Rightarrow> ExpectedPeerIdentity" where
  "expectedPrompterIdentity lib =
     \<lparr>ei_signingId = pe_prompterSigningId lib, ei_appGroup = pe_appGroup lib, ei_teamId = pe_configuredTeamId lib\<rparr>"

text \<open>The agent's check of whoever serves the prompter socket.\<close>

definition makeDefaultPrompterVerifier :: "('cred, 'code) peer_lib \<Rightarrow> nat \<Rightarrow> bool" where
  "makeDefaultPrompterVerifier lib connectedFd = pe_verifyConnectedPeer lib connectedFd (expectedPrompterIdentity lib)"

text \<open>The helper's check of whoever connects to it.\<close>

definition makePeerAuth :: "('cred, 'code) peer_lib \<Rightarrow> 'cred \<Rightarrow> bool" where
  "makePeerAuth lib creds =
     (let expected = pe_expectedAgentIdentity lib
      in pe_matchesExpectedPeer lib (pe_resolvePeerCodeSigning lib creds (ei_teamId expected)) expected)"

text \<open>The prompter client as it is constructed: without a verifier of the caller's it takes the default.\<close>

record mac_prompter_client =
  mp_socketPath :: string
  mp_peerVerifier :: "nat \<Rightarrow> bool"
  mp_promptReceiveBudget :: int

definition macPrompterClient ::
    "('cred, 'code) peer_lib \<Rightarrow> string \<Rightarrow> (nat \<Rightarrow> bool) option \<Rightarrow> int option \<Rightarrow> mac_prompter_client" where
  "macPrompterClient lib path verifier budget =
     \<lparr>mp_socketPath = path,
      mp_peerVerifier = (case verifier of None \<Rightarrow> makeDefaultPrompterVerifier lib | Some v \<Rightarrow> v),
      mp_promptReceiveBudget = (case budget of None \<Rightarrow> kPromptReceiveBudgetMs | Some ms \<Rightarrow> ms)\<rparr>"

text \<open>A call of the constructed client: the socket is the one it was built for, and its verifier judges the descriptor.\<close>

definition clientCall :: "mac_prompter_client \<Rightarrow> nat \<Rightarrow> client_env \<Rightarrow> client_env" where
  "clientCall mp fd env = env\<lparr>ce_pathLength := length (mp_socketPath mp), ce_verified := mp_peerVerifier mp fd\<rparr>"

text \<open>The PKCS#11 module's client for the agent socket.\<close>

record agent_client =
  ac_socketPath :: string
  ac_verify :: "nat \<Rightarrow> bool"

definition makeAgentClientAt :: "('cred, 'code) peer_lib \<Rightarrow> string \<Rightarrow> agent_client" where
  "makeAgentClientAt lib socketPath =
     \<lparr>ac_socketPath = socketPath, ac_verify = (\<lambda>fd. pe_verifyConnectedPeer lib fd (pe_expectedAgentIdentity lib))\<rparr>"

definition makeAgentClient :: "('cred, 'code) peer_lib \<Rightarrow> string \<Rightarrow> agent_client" where
  "makeAgentClient lib agentSocketPath = makeAgentClientAt lib agentSocketPath"

text \<open>
  The client \<^verbatim>\<open>main\<close> builds and one built without a verifier are the same: there is no way to construct a
  client that skips the check by leaving it out.
\<close>

lemma verifier_default:
  "macPrompterClient lib path None budget = macPrompterClient lib path (Some (makeDefaultPrompterVerifier lib)) budget"
  by (simp add: macPrompterClient_def)

text \<open>
  What the client built that way takes, a peer that matches the compiled-in identity of the prompter gave: a
  secret or an approval.
\<close>

lemma default_client_trusts_prompter:
  assumes "env' = clientCall (macPrompterClient lib path None budget) fd env"
    and "\<not> pe_verifyConnectedPeer lib fd (expectedPrompterIdentity lib)"
  shows "res_secret (fst (request voc cd pl ms env' kind opts)) = []"
    and "res_status (fst (request voc cd pl ms env' kind opts)) \<noteq> PsOk"
    and "cr_status (fst (requestConfirmation voc cd env' act)) \<noteq> StOk"
proof -
  have unverified: "\<not> ce_verified env'"
    using assms by (simp add: clientCall_def macPrompterClient_def makeDefaultPrompterVerifier_def)
  then have "\<not> answered env' ms body frame" for body frame by (simp add: answered_def)
  from request_unanswered [of env' ms voc pl kind opts cd, OF this]
  show "res_secret (fst (request voc cd pl ms env' kind opts)) = []"
    and "res_status (fst (request voc cd pl ms env' kind opts)) \<noteq> PsOk" by auto
  show "cr_status (fst (requestConfirmation voc cd env' act)) \<noteq> StOk"
    using approval_only_from_prompter [of voc cd env' act] unverified by blast
qed

end
