(* ===== verification/Prompter_Server.thy ===== *)
theory Prompter_Server
  imports Prompter_Protocol Listener
begin

text \<open>
  The prompter's socket server, \<^verbatim>\<open>prompter/PrompterServer.cpp\<close>: its listening side over the
  listener state of the transport, the admission of peers, and the one request each
  connection may make. The blocking providers run on a worker queue, so a dispatched request
  becomes a task, and \<open>runTask\<close> is what the worker does with it. The providers, the peer
  check and the frame reassembler are arguments.
\<close>

section \<open>Listening\<close>

definition bindListenSocket :: "bind_sys \<Rightarrow> listener \<Rightarrow> bool \<times> listener" where
  "bindListenSocket sys l =
     (case bindContainerSocket sys l of
        (None, l') \<Rightarrow> (False, l')
      | (Some (fd, ino), l') \<Rightarrow> (True, l'\<lparr>l_listenFd := Some fd, l_listenIdentity := Some ino\<rparr>))"

definition psInstallAcceptSource :: "listener \<Rightarrow> listener" where
  "psInstallAcceptSource l = l\<lparr>l_acceptSource := l_listenFd l, l_suspended := False\<rparr>"

definition psInstallPathGuard :: "listener \<Rightarrow> listener" where
  "psInstallPathGuard l = l\<lparr>l_pathGuardTimer := True\<rparr>"

definition psCancelAcceptSource :: "listener \<Rightarrow> listener" where
  "psCancelAcceptSource l =
     l\<lparr>l_cancelledListener := l_listenFd l, l_cancelPending := True, l_acceptSource := None,
       l_crashed := (l_crashed l \<or> l_suspended l)\<rparr>"

definition psRebindListenSocket :: "bind_sys \<Rightarrow> listener \<Rightarrow> listener" where
  "psRebindListenSocket sys l =
     (case bindListenSocket sys l of
        (False, l') \<Rightarrow> l'\<lparr>l_listenFd := None\<rparr>
      | (True, l') \<Rightarrow> psInstallAcceptSource (l'\<lparr>l_rebindPending := False\<rparr>))"

definition psCheckSocketPath :: "bind_sys \<Rightarrow> listener \<Rightarrow> listener" where
  "psCheckSocketPath sys l =
     (if l_stopping l then l
      else if l_rebindPending l then
        (if l_listenFd l = None then psRebindListenSocket sys l else l)
      else if l_acceptSource l = None \<or> stillNames (l_listenIdentity l) (l_path l) then l
      else psCancelAcceptSource (l\<lparr>l_rebindPending := True\<rparr>))"

definition psOnAcceptSourceCancelled :: "bind_sys \<Rightarrow> listener \<Rightarrow> listener" where
  "psOnAcceptSourceCancelled sys l =
     (let l1 = (if \<not> stillHeldBy (l_cancelledListener l) (l_listenFd l)
                then l\<lparr>l_closedListenFdAtCancel := l_closedListenFdAtCancel l + 1\<rparr> else l);
          l2 = l1\<lparr>l_cancelledListener := None, l_listenFd := None, l_cancelPending := False\<rparr>
      in if l_stopping l2 then l2
         else
           let l3 = l2\<lparr>l_listenIdentity := None\<rparr>
           in if l_rebindPending l3 then psRebindListenSocket sys l3 else l3)"

section \<open>Serving\<close>

datatype task =
    TaskRefuseVersion nat
  | TaskSecret PromptRequest nat
  | TaskSecrets RequestSecrets nat
  | TaskRefuseConfirm nat
  | TaskConfirm ConfirmAction nat
  | TaskReset nat

datatype outcome =
    SentSecret nat PromptReply
  | SentSecrets nat MultiPromptReply
  | SentConfirm nat ConfirmReply
  | SentResetDone nat ResetDone

record providers =
  pv_secret :: "PromptRequest \<Rightarrow> PromptReply"
  pv_secrets :: "RequestSecrets \<Rightarrow> MultiPromptReply"
  pv_confirm :: "ConfirmAction \<Rightarrow> ConfirmReply"
  pv_reset :: u32

record pserver =
  ps_listener :: listener
  ps_started :: bool
  ps_lockHeld :: bool
  ps_nextConnId :: nat
  ps_connections :: "(nat, nat) smap"
  ps_tasks :: "task list"
  ps_outcomes :: "outcome list"
  ps_cancels :: "string list"

definition unauthorizedReply :: PromptReply where
  "unauthorizedReply = \<lparr>re_status = StUnauthorized, re_secret = [], re_userMessage = ''caller is not the agent'',
                        re_protocolVersion = None\<rparr>"

definition unsupportedVersionReply :: PromptReply where
  "unsupportedVersionReply = \<lparr>re_status = StError, re_secret = [],
     re_userMessage = ''prompter protocol version not supported by this helper'', re_protocolVersion = None\<rparr>"

text \<open>Start: the lock, the bind, then the sources; a server that runs already answers at once.\<close>

definition psStart :: "bool \<Rightarrow> bind_sys \<Rightarrow> pserver \<Rightarrow> bool \<times> pserver" where
  "psStart lockFree sys s =
     (if ps_started s then (True, s)
      else if \<not> lockFree then (False, s)
      else case bindListenSocket sys (ps_listener s) of
        (False, l) \<Rightarrow> (False, s\<lparr>ps_listener := l\<rparr>)
      | (True, l) \<Rightarrow>
          (True, s\<lparr>ps_lockHeld := True, ps_started := True,
                   ps_listener := psInstallPathGuard (psInstallAcceptSource
                     (l\<lparr>l_stopping := False, l_rebindPending := False\<rparr>))\<rparr>))"

text \<open>Stop: everything is cancelled on the loop, the cancel handler runs, the file goes, the lock last.\<close>

definition psStopLoop :: "pserver \<Rightarrow> pserver" where
  "psStopLoop s =
     (let l = (ps_listener s)\<lparr>l_stopping := True, l_pathGuardTimer := False\<rparr>
      in s\<lparr>ps_started := False, ps_connections := [],
           ps_listener := (if l_acceptSource l \<noteq> None then psCancelAcceptSource l else l)\<rparr>)"

definition psStop :: "bind_sys \<Rightarrow> pserver \<Rightarrow> pserver" where
  "psStop sys s =
     (if \<not> ps_started s then s
      else
        let s1 = psStopLoop s;
            l1 = (if l_cancelPending (ps_listener s1) then psOnAcceptSourceCancelled sys (ps_listener s1)
                  else ps_listener s1);
            l2 = (if stillNames (l_listenIdentity l1) (l_path l1) then l1\<lparr>l_path := None\<rparr> else l1)
        in s1\<lparr>ps_listener := l2\<lparr>l_listenIdentity := None\<rparr>, ps_lockHeld := False\<rparr>)"

definition psAcceptOne :: "('cred \<Rightarrow> bool) \<Rightarrow> nat \<Rightarrow> 'cred option \<Rightarrow> pserver \<Rightarrow> pserver" where
  "psAcceptOne peerAuth fd creds s =
     (if (case creds of None \<Rightarrow> True | Some c \<Rightarrow> \<not> peerAuth c)
      then s\<lparr>ps_outcomes := ps_outcomes s @ [SentSecret fd unauthorizedReply]\<rparr>
      else s\<lparr>ps_nextConnId := ps_nextConnId s + 1,
             ps_connections := sm_emplace (ps_nextConnId s) fd (ps_connections s)\<rparr>)"

text \<open>
  The accept loop: an interrupted call is tried again, and any other failure ends the loop as if nothing
  were waiting. \<open>creds\<close> is what the platform captures for a connected socket.
\<close>

fun psAcceptLoop ::
    "('cred \<Rightarrow> bool) \<Rightarrow> (nat \<Rightarrow> 'cred option) \<Rightarrow> accept_result list \<Rightarrow> pserver \<Rightarrow> pserver" where
  "psAcceptLoop peerAuth creds [] s = s"
| "psAcceptLoop peerAuth creds (Drained # rs) s = s"
| "psAcceptLoop peerAuth creds (OutOfDescriptors # rs) s = s"
| "psAcceptLoop peerAuth creds (AcceptIntr # rs) s = psAcceptLoop peerAuth creds rs s"
| "psAcceptLoop peerAuth creds (Accepted c # rs) s = psAcceptLoop peerAuth creds rs (psAcceptOne peerAuth c (creds c) s)"

definition psOnAcceptReady ::
    "bind_sys \<Rightarrow> ('cred \<Rightarrow> bool) \<Rightarrow> (nat \<Rightarrow> 'cred option) \<Rightarrow> accept_result list \<Rightarrow> pserver \<Rightarrow> pserver" where
  "psOnAcceptReady sys peerAuth creds rs s =
     (let s1 = psAcceptLoop peerAuth creds rs s in s1\<lparr>ps_listener := psCheckSocketPath sys (ps_listener s1)\<rparr>)"

definition psCloseConnection :: "nat \<Rightarrow> pserver \<Rightarrow> pserver" where
  "psCloseConnection cid s = s\<lparr>ps_connections := sm_erase cid (ps_connections s)\<rparr>"

definition kConfigureTrust :: string where
  "kConfigureTrust = ''configure_trust''"

definition addTask :: "task \<Rightarrow> pserver \<Rightarrow> pserver" where
  "addTask t s = s\<lparr>ps_tasks := ps_tasks s @ [t]\<rparr>"

fun dispatchRequest :: "nat \<Rightarrow> PrompterRequest \<Rightarrow> pserver \<Rightarrow> pserver" where
  "dispatchRequest fd (ReqCancel c) s = s\<lparr>ps_cancels := ps_cancels s @ [pc_promptId c]\<rparr>"
| "dispatchRequest fd (ReqPrompt r) s = addTask (TaskSecret r fd) s"
| "dispatchRequest fd (ReqSecrets r) s = addTask (TaskSecrets r fd) s"
| "dispatchRequest fd (ReqConfirm r) s =
     (if ca_kind r \<noteq> kConfigureTrust then addTask (TaskRefuseConfirm fd) s else addTask (TaskConfirm r fd) s)"
| "dispatchRequest fd ReqReset s = addTask (TaskReset fd) s"

definition psOnReadReady ::
    "prompter_vocab \<Rightarrow> codec \<Rightarrow> nat \<Rightarrow> bytes list \<Rightarrow> bool \<Rightarrow> pserver \<Rightarrow> pserver" where
  "psOnReadReady voc cd cid frames ok s =
     (case sm_find (ps_connections s) cid of None \<Rightarrow> s
      | Some fd \<Rightarrow>
     (case frames of
        [] \<Rightarrow> if ok then s else psCloseConnection cid s
      | body # _ \<Rightarrow>
          let s1 = psCloseConnection cid s
          in case parsePrompterRequest voc cd body of
               Inl e \<Rightarrow> if e = UnsupportedVersion then addTask (TaskRefuseVersion fd) s1 else s1
             | Inr req \<Rightarrow> dispatchRequest fd req s1))"

fun runTask :: "providers \<Rightarrow> task \<Rightarrow> outcome" where
  "runTask pv (TaskRefuseVersion fd) = SentSecret fd unsupportedVersionReply"
| "runTask pv (TaskSecret r fd) = SentSecret fd (pv_secret pv r)"
| "runTask pv (TaskSecrets r fd) = SentSecrets fd (pv_secrets pv r)"
| "runTask pv (TaskRefuseConfirm fd) =
     SentConfirm fd \<lparr>cr_status = StError, cr_userMessage = ''unsupported confirmation'', cr_protocolVersion = None\<rparr>"
| "runTask pv (TaskConfirm r fd) = SentConfirm fd (pv_confirm pv r)"
| "runTask pv (TaskReset fd) = SentResetDone fd \<lparr>rd_closed = pv_reset pv\<rparr>"

text \<open>The worker queue is concurrent: any waiting task may be the next to finish.\<close>

definition finishTask :: "providers \<Rightarrow> nat \<Rightarrow> pserver \<Rightarrow> pserver" where
  "finishTask pv i s =
     (if i < length (ps_tasks s)
      then s\<lparr>ps_tasks := take i (ps_tasks s) @ drop (Suc i) (ps_tasks s),
             ps_outcomes := ps_outcomes s @ [runTask pv (ps_tasks s ! i)]\<rparr>
      else s)"

section \<open>The server as a transition system\<close>

text \<open>
  A connected socket is a number that is never used again. The state is watched by two
  lists of such numbers: every socket that connected, and those whose peer passed the check.
\<close>

fun taskFd :: "task \<Rightarrow> nat" where
  "taskFd (TaskRefuseVersion fd) = fd"
| "taskFd (TaskSecret r fd) = fd"
| "taskFd (TaskSecrets r fd) = fd"
| "taskFd (TaskRefuseConfirm fd) = fd"
| "taskFd (TaskConfirm r fd) = fd"
| "taskFd (TaskReset fd) = fd"

fun outcomeFd :: "outcome \<Rightarrow> nat" where
  "outcomeFd (SentSecret fd r) = fd"
| "outcomeFd (SentSecrets fd r) = fd"
| "outcomeFd (SentConfirm fd r) = fd"
| "outcomeFd (SentResetDone fd r) = fd"

record watched =
  wa_server :: pserver
  wa_seen :: "nat list"
  wa_admitted :: "nat list"

definition withListener :: "(listener \<Rightarrow> listener) \<Rightarrow> watched \<Rightarrow> watched" where
  "withListener f w = w\<lparr>wa_server := (wa_server w)\<lparr>ps_listener := f (ps_listener (wa_server w))\<rparr>\<rparr>"

definition withServer :: "(pserver \<Rightarrow> pserver) \<Rightarrow> watched \<Rightarrow> watched" where
  "withServer f w = w\<lparr>wa_server := f (wa_server w)\<rparr>"

inductive serverStep ::
    "prompter_vocab \<Rightarrow> codec \<Rightarrow> ('cred \<Rightarrow> bool) \<Rightarrow> providers \<Rightarrow> watched \<Rightarrow> watched \<Rightarrow> bool"
  for voc cd peerAuth pv where
  sv_start: "serverStep voc cd peerAuth pv w (withServer (\<lambda>s. snd (psStart free sys s)) w)"
| sv_stop: "serverStep voc cd peerAuth pv w (withServer (psStop sys) w)"
| sv_guard: "l_pathGuardTimer (ps_listener (wa_server w)) \<or> l_acceptSource (ps_listener (wa_server w)) \<noteq> None
     \<Longrightarrow> serverStep voc cd peerAuth pv w (withListener (psCheckSocketPath sys) w)"
| sv_cancelled: "l_cancelPending (ps_listener (wa_server w))
     \<Longrightarrow> serverStep voc cd peerAuth pv w (withListener (psOnAcceptSourceCancelled sys) w)"
| sv_removed: "serverStep voc cd peerAuth pv w (withListener (\<lambda>l. l\<lparr>l_path := None\<rparr>) w)"
| sv_replaced: "serverStep voc cd peerAuth pv w
     (withListener (\<lambda>l. l\<lparr>l_path := Some (l_nextIno l), l_nextIno := l_nextIno l + 1\<rparr>) w)"
| sv_admit: "fd \<notin> set (wa_seen w) \<Longrightarrow> creds = Some c \<Longrightarrow> peerAuth c \<Longrightarrow> serverStep voc cd peerAuth pv w
     ((withServer (psAcceptOne peerAuth fd creds) w)\<lparr>wa_seen := fd # wa_seen w, wa_admitted := fd # wa_admitted w\<rparr>)"
| sv_reject: "fd \<notin> set (wa_seen w) \<Longrightarrow> (case creds of None \<Rightarrow> True | Some c \<Rightarrow> \<not> peerAuth c)
     \<Longrightarrow> serverStep voc cd peerAuth pv w
     ((withServer (psAcceptOne peerAuth fd creds) w)\<lparr>wa_seen := fd # wa_seen w\<rparr>)"
| sv_read: "serverStep voc cd peerAuth pv w (withServer (psOnReadReady voc cd cid frames ok) w)"
| sv_finish: "serverStep voc cd peerAuth pv w (withServer (finishTask pv i) w)"

definition serverInit :: "watched \<Rightarrow> bool" where
  "serverInit w \<longleftrightarrow> wa_seen w = [] \<and> wa_admitted w = []
     \<and> wa_server w = \<lparr>ps_listener = freshListener, ps_started = False, ps_lockHeld = False, ps_nextConnId = 1,
          ps_connections = [], ps_tasks = [], ps_outcomes = [], ps_cancels = []\<rparr>"

text \<open>
  One wake-up of the accept source is a run of the steps above: the sockets it takes are admitted or
  turned away one by one, and then the path is looked at.
\<close>

fun taken :: "accept_result list \<Rightarrow> nat list" where
  "taken (AcceptIntr # rs) = taken rs"
| "taken (Accepted c # rs) = c # taken rs"
| "taken _ = []"

lemma accept_step:
  assumes "fd \<notin> set (wa_seen w)"
  obtains w' where "serverStep voc cd peerAuth pv w w'"
    and "wa_server w' = psAcceptOne peerAuth fd creds (wa_server w)" and "wa_seen w' = fd # wa_seen w"
proof (cases "\<exists>c. creds = Some c \<and> peerAuth c")
  case True
  then obtain c where "creds = Some c" "peerAuth c" by blast
  from sv_admit [where peerAuth = peerAuth, OF assms this] show ?thesis
    by (rule that) (simp_all add: withServer_def)
next
  case False
  then have "case creds of None \<Rightarrow> True | Some c \<Rightarrow> \<not> peerAuth c" by (auto split: option.split)
  from sv_reject [where peerAuth = peerAuth, OF assms this] show ?thesis
    by (rule that) (simp_all add: withServer_def)
qed

lemma psAcceptOne_listener [simp]: "ps_listener (psAcceptOne peerAuth fd creds s) = ps_listener s"
  by (simp add: psAcceptOne_def)

lemma accept_loop_steps:
  assumes "distinct (taken rs)" and "set (taken rs) \<inter> set (wa_seen w) = {}"
  shows "\<exists>w'. (serverStep voc cd peerAuth pv)\<^sup>*\<^sup>* w w' \<and> wa_server w' = psAcceptLoop peerAuth creds rs (wa_server w)
           \<and> ps_listener (wa_server w') = ps_listener (wa_server w)"
  using assms
proof (induction rs arbitrary: w rule: taken.induct)
  case (2 c rs)
  from "2.prems" have "c \<notin> set (wa_seen w)" by simp
  then obtain v where v: "serverStep voc cd peerAuth pv w v"
    "wa_server v = psAcceptOne peerAuth c (creds c) (wa_server w)" "wa_seen v = c # wa_seen w" by (rule accept_step)
  with "2.prems" have "\<exists>w'. (serverStep voc cd peerAuth pv)\<^sup>*\<^sup>* v w' \<and> wa_server w' = psAcceptLoop peerAuth creds rs (wa_server v)
           \<and> ps_listener (wa_server w') = ps_listener (wa_server v)" by (intro "2.IH") auto
  with v show ?case by (auto intro: converse_rtranclp_into_rtranclp)
qed (auto intro: exI [of _ w])

lemma accept_ready_steps:
  assumes "distinct (taken rs)" and "set (taken rs) \<inter> set (wa_seen w) = {}"
    and "l_acceptSource (ps_listener (wa_server w)) \<noteq> None"
  shows "\<exists>w'. (serverStep voc cd peerAuth pv)\<^sup>*\<^sup>* w w' \<and> wa_server w' = psOnAcceptReady sys peerAuth creds rs (wa_server w)"
proof -
  obtain v where v: "(serverStep voc cd peerAuth pv)\<^sup>*\<^sup>* w v" "wa_server v = psAcceptLoop peerAuth creds rs (wa_server w)"
    "ps_listener (wa_server v) = ps_listener (wa_server w)" using accept_loop_steps [OF assms(1,2)] by blast
  with assms(3) have "serverStep voc cd peerAuth pv v (withListener (psCheckSocketPath sys) v)" by (intro sv_guard) simp
  with v show ?thesis
    by (intro exI [of _ "withListener (psCheckSocketPath sys) v"])
      (auto simp: psOnAcceptReady_def withListener_def Let_def)
qed

text \<open>
  Out of descriptors, the wake-up changes nothing: the source is neither paused nor retired, so it is woken
  again for the connection that still waits. The transport of the agent pauses its source there.
\<close>

lemma exhausted_accept_not_paused:
  assumes "stillNames (l_listenIdentity (ps_listener s)) (l_path (ps_listener s))" and "\<not> l_rebindPending (ps_listener s)"
  shows "psOnAcceptReady sys peerAuth creds [OutOfDescriptors] s = s"
  using assms by (simp add: psOnAcceptReady_def psCheckSocketPath_def Let_def)

section \<open>Who is served\<close>

definition fdsOf :: "pserver \<Rightarrow> nat set" where
  "fdsOf s = {fd. \<exists>k. sm_find (ps_connections s) k = Some fd}"

definition servedOk :: "watched \<Rightarrow> bool" where
  "servedOk w \<longleftrightarrow>
     (let s = wa_server w; T = set (map taskFd (ps_tasks s)); D = set (map outcomeFd (ps_outcomes s)) in
      (\<forall>k. sm_find (ps_connections s) k \<noteq> None \<longrightarrow> k < ps_nextConnId s)
      \<and> (\<forall>k k' fd. sm_find (ps_connections s) k = Some fd \<longrightarrow> sm_find (ps_connections s) k' = Some fd \<longrightarrow> k = k')
      \<and> distinct (map taskFd (ps_tasks s)) \<and> distinct (map outcomeFd (ps_outcomes s))
      \<and> fdsOf s \<inter> T = {} \<and> fdsOf s \<inter> D = {} \<and> T \<inter> D = {}
      \<and> fdsOf s \<subseteq> set (wa_admitted w) \<and> T \<subseteq> set (wa_admitted w)
      \<and> set (wa_admitted w) \<subseteq> set (wa_seen w) \<and> D \<subseteq> set (wa_seen w)
      \<and> (\<forall>out \<in> set (ps_outcomes s). outcomeFd out \<in> set (wa_admitted w)
            \<or> out = SentSecret (outcomeFd out) unauthorizedReply))"

lemma servedOk_listener [simp]: "servedOk (withListener f w) = servedOk w"
  by (simp add: servedOk_def withListener_def fdsOf_def Let_def)

lemma servedOk_same:
  assumes "ps_connections s = ps_connections (wa_server w)" "ps_nextConnId s = ps_nextConnId (wa_server w)"
    "ps_tasks s = ps_tasks (wa_server w)" "ps_outcomes s = ps_outcomes (wa_server w)"
  shows "servedOk (w\<lparr>wa_server := s\<rparr>) = servedOk w"
  using assms by (simp add: servedOk_def fdsOf_def Let_def)

lemma taskFd_runTask [simp]: "outcomeFd (runTask pv t) = taskFd t"
  by (cases t) simp_all

lemma admit_ok:
  assumes "servedOk w" "fd \<notin> set (wa_seen w)" "peerAuth c"
  shows "servedOk ((withServer (psAcceptOne peerAuth fd (Some c)) w)
           \<lparr>wa_seen := fd # wa_seen w, wa_admitted := fd # wa_admitted w\<rparr>)"
proof -
  let ?s = "wa_server w"
  have none: "sm_find (ps_connections ?s) (ps_nextConnId ?s) = None"
    using assms(1) by (auto simp: servedOk_def Let_def)
  have sub: "fdsOf ?s \<subseteq> set (wa_seen w)" "set (map taskFd (ps_tasks ?s)) \<subseteq> set (wa_seen w)"
    "set (map outcomeFd (ps_outcomes ?s)) \<subseteq> set (wa_seen w)"
    using assms(1) by (auto simp: servedOk_def Let_def)
  then have new: "sm_find (ps_connections ?s) k \<noteq> Some fd" "fd \<notin> taskFd ` set (ps_tasks ?s)"
    "fd \<notin> outcomeFd ` set (ps_outcomes ?s)" for k
    using assms(2) by (auto simp: fdsOf_def)
  let ?s' = "psAcceptOne peerAuth fd (Some c) ?s"
  have conns: "sm_find (ps_connections ?s') k
      = (if k = ps_nextConnId ?s then Some fd else sm_find (ps_connections ?s) k)" for k
    using none assms(3) by (simp add: psAcceptOne_def sm_find_emplace)
  have rest: "ps_nextConnId ?s' = ps_nextConnId ?s + 1" "ps_tasks ?s' = ps_tasks ?s" "ps_outcomes ?s' = ps_outcomes ?s"
    using assms(3) by (simp_all add: psAcceptOne_def)
  have fds: "fdsOf ?s' = insert fd (fdsOf ?s)"
    using none by (auto simp: fdsOf_def conns split: if_splits) (metis option.distinct(1))+
  show ?thesis
    using assms(1) new
    by (auto simp: servedOk_def Let_def withServer_def rest fds conns less_SucI split: if_splits)
qed

lemma reject_ok:
  assumes "servedOk w" "fd \<notin> set (wa_seen w)" "case creds of None \<Rightarrow> True | Some c \<Rightarrow> \<not> peerAuth c"
  shows "servedOk ((withServer (psAcceptOne peerAuth fd creds) w)\<lparr>wa_seen := fd # wa_seen w\<rparr>)"
  using assms by (auto simp: servedOk_def Let_def withServer_def psAcceptOne_def fdsOf_def)

lemma close_connection_ok:
  assumes "servedOk w" shows "servedOk (withServer (psCloseConnection cid) w)"
  using assms by (auto simp: servedOk_def Let_def withServer_def psCloseConnection_def fdsOf_def split: if_splits)

lemma add_task_ok:
  assumes "servedOk w" "taskFd t \<notin> fdsOf (wa_server w)" "taskFd t \<in> set (wa_admitted w)"
    "taskFd t \<notin> taskFd ` set (ps_tasks (wa_server w))" "taskFd t \<notin> outcomeFd ` set (ps_outcomes (wa_server w))"
  shows "servedOk (withServer (addTask t) w)"
  using assms by (auto simp: servedOk_def Let_def withServer_def addTask_def fdsOf_def)

lemma finish_ok:
  assumes "servedOk w" shows "servedOk (withServer (finishTask pv i) w)"
proof (cases "i < length (ps_tasks (wa_server w))")
  case True
  let ?ts = "ps_tasks (wa_server w)"
  have split: "?ts = take i ?ts @ ?ts ! i # drop (Suc i) ?ts" using True by (rule id_take_nth_drop)
  obtain xs t ys where ts: "?ts = xs @ t # ys" "xs = take i ?ts" "t = ?ts ! i" "ys = drop (Suc i) ?ts"
    using split by blast
  have "withServer (finishTask pv i) w
      = w\<lparr>wa_server := (wa_server w)\<lparr>ps_tasks := xs @ ys,
           ps_outcomes := ps_outcomes (wa_server w) @ [runTask pv t]\<rparr>\<rparr>"
    using True ts(2-4) by (simp add: withServer_def finishTask_def)
  with assms ts(1) show ?thesis by (auto simp: servedOk_def Let_def fdsOf_def)
qed (simp add: withServer_def finishTask_def assms)

lemma dispatch_ok:
  assumes "servedOk w" "fd \<notin> fdsOf (wa_server w)" "fd \<in> set (wa_admitted w)"
    "fd \<notin> taskFd ` set (ps_tasks (wa_server w))" "fd \<notin> outcomeFd ` set (ps_outcomes (wa_server w))"
  shows "servedOk (withServer (dispatchRequest fd req) w)"
proof (cases req)
  case (ReqCancel c)
  have "withServer (dispatchRequest fd req) w
      = w\<lparr>wa_server := (wa_server w)\<lparr>ps_cancels := ps_cancels (wa_server w) @ [pc_promptId c]\<rparr>\<rparr>"
    by (simp add: withServer_def ReqCancel)
  with assms(1) show ?thesis by (simp add: servedOk_same)
next
  case (ReqConfirm r)
  then have "withServer (dispatchRequest fd req) w
      = withServer (addTask (if ca_kind r \<noteq> kConfigureTrust then TaskRefuseConfirm fd else TaskConfirm r fd)) w"
    by (simp add: withServer_def)
  with add_task_ok [OF assms(1)] assms(2-) show ?thesis by simp
qed (use add_task_ok [OF assms(1)] assms(2-) in \<open>simp_all add: withServer_def\<close>)

lemma read_ok:
  assumes "servedOk w" shows "servedOk (withServer (psOnReadReady voc cd cid frames ok) w)"
proof (cases "sm_find (ps_connections (wa_server w)) cid")
  case None
  then show ?thesis using assms by (simp add: withServer_def psOnReadReady_def)
next
  case (Some fd)
  let ?w = "withServer (psCloseConnection cid) w"
  note closed = close_connection_ok [OF assms, of cid]
  have fd: "fd \<notin> fdsOf (wa_server ?w)" "fd \<in> set (wa_admitted ?w)"
    "fd \<notin> taskFd ` set (ps_tasks (wa_server ?w))" "fd \<notin> outcomeFd ` set (ps_outcomes (wa_server ?w))"
    using assms Some
    by (auto simp: servedOk_def Let_def withServer_def psCloseConnection_def fdsOf_def split: if_splits)
  show ?thesis
  proof (cases frames)
    case Nil
    with Some assms closed show ?thesis by (simp add: withServer_def psOnReadReady_def)
  next
    case (Cons body rest)
    show ?thesis
    proof (cases "parsePrompterRequest voc cd body")
      case (Inl e)
      then have "withServer (psOnReadReady voc cd cid frames ok) w
          = (if e = UnsupportedVersion then withServer (addTask (TaskRefuseVersion fd)) ?w else ?w)"
        using Some Cons by (simp add: withServer_def psOnReadReady_def Let_def)
      with closed add_task_ok [OF closed, of "TaskRefuseVersion fd"] fd show ?thesis by simp
    next
      case (Inr req)
      then have "withServer (psOnReadReady voc cd cid frames ok) w = withServer (dispatchRequest fd req) ?w"
        using Some Cons by (simp add: withServer_def psOnReadReady_def Let_def)
      with dispatch_ok [OF closed fd] show ?thesis by simp
    qed
  qed
qed

lemma start_served: "servedOk w \<Longrightarrow> servedOk (withServer (\<lambda>s. snd (psStart free sys s)) w)"
  by (simp add: withServer_def psStart_def servedOk_same split: prod.split bool.split)

lemma stop_served:
  assumes "servedOk w" shows "servedOk (withServer (psStop sys) w)"
proof -
  have "servedOk (w\<lparr>wa_server := (wa_server w)\<lparr>ps_connections := []\<rparr>\<rparr>)"
    using assms by (simp add: servedOk_def Let_def fdsOf_def)
  then have "servedOk (w\<lparr>wa_server := s\<rparr>)"
    if "ps_connections s = []" "ps_nextConnId s = ps_nextConnId (wa_server w)"
      "ps_tasks s = ps_tasks (wa_server w)" "ps_outcomes s = ps_outcomes (wa_server w)" for s
    using that servedOk_same [of s "w\<lparr>wa_server := (wa_server w)\<lparr>ps_connections := []\<rparr>\<rparr>"] by simp
  then show ?thesis
    using assms by (auto simp: withServer_def psStop_def psStopLoop_def Let_def)
qed

section \<open>The prompter's listener\<close>

definition idleListener :: "listener \<Rightarrow> bool" where
  "idleListener l \<longleftrightarrow> l_acceptSource l = None \<and> l_listenFd l = None \<and> \<not> l_cancelPending l \<and> \<not> l_crashed l
     \<and> l_closedListenFdAtCancel l = 0 \<and> \<not> l_suspended l \<and> \<not> l_acceptPaused l \<and> l_listenIdentity l = None
     \<and> \<not> l_pathGuardTimer l
     \<and> (\<forall>i. l_path l = Some i \<longrightarrow> i < l_nextIno l)"

definition psListenerOk :: "pserver \<Rightarrow> bool" where
  "psListenerOk s \<longleftrightarrow> ps_lockHeld s = ps_started s
     \<and> (if ps_started s then listenerOk (ps_listener s) \<and> \<not> l_acceptPaused (ps_listener s) \<and> \<not> l_stopping (ps_listener s)
        else idleListener (ps_listener s))"

text \<open>Without pausing, the prompter's cancel and rebind are the transport's.\<close>

lemma psRebind_eq: "l_listenFd l = None \<Longrightarrow> psRebindListenSocket sys l = rebindListenSocket sys l"
  by (cases rule: bind_cases [of sys l])
    (auto simp: psRebindListenSocket_def rebindListenSocket_def bindListenSocket_def psInstallAcceptSource_def
      installAcceptSource_def)

lemma psCheck_eq:
  "listenerOk l \<Longrightarrow> \<not> l_acceptPaused l \<Longrightarrow> psCheckSocketPath sys l = checkSocketPath sys l"
  by (simp add: psCheckSocketPath_def checkSocketPath_def psRebind_eq psCancelAcceptSource_def
      cancelAcceptSource_def resumeAccepting_def Let_def)

lemma psCancelled_eq: "psOnAcceptSourceCancelled sys l = onAcceptSourceCancelled sys l"
  by (simp add: psOnAcceptSourceCancelled_def onAcceptSourceCancelled_def psRebind_eq Let_def)

lemma rebind_flags:
  "l_acceptPaused (rebindListenSocket sys l) = l_acceptPaused l"
  "l_stopping (rebindListenSocket sys l) = l_stopping l"
  by (cases rule: bind_cases [of sys l]; auto simp: rebindListenSocket_def installAcceptSource_def)+

lemma listener_flags:
  "\<not> l_acceptPaused l \<Longrightarrow> \<not> l_acceptPaused (checkSocketPath sys l)"
  "\<not> l_acceptPaused l \<Longrightarrow> \<not> l_acceptPaused (onAcceptSourceCancelled sys l)"
  "l_stopping (checkSocketPath sys l) = l_stopping l"
  "l_stopping (onAcceptSourceCancelled sys l) = l_stopping l"
  by (auto simp: checkSocketPath_def onAcceptSourceCancelled_def cancelAcceptSource_def resumeAccepting_def
      rebind_flags Let_def)

lemma start_listener:
  assumes "psListenerOk s" shows "psListenerOk (snd (psStart free sys s))"
proof (cases "ps_started s \<or> \<not> free")
  case True
  then show ?thesis using assms by (auto simp: psStart_def)
next
  case False
  then have idle: "idleListener (ps_listener s)" using assms by (simp add: psListenerOk_def)
  show ?thesis
  proof (cases rule: bind_cases [of sys "ps_listener s"])
    case (fail l')
    then obtain n where l': "l' = (ps_listener s)\<lparr>l_path := l_path l', l_nextIno := l_nextIno l', l_nextSocket := n\<rparr>"
      by blast
    have "idleListener ((ps_listener s)\<lparr>l_path := l_path l', l_nextIno := l_nextIno l', l_nextSocket := n\<rparr>)"
      using idle fail(2) by (auto simp: idleListener_def)
    with False fail(1) l' assms show ?thesis by (simp add: psStart_def bindListenSocket_def psListenerOk_def)
  next
    case (bound fd)
    with False idle show ?thesis
      by (auto simp: psStart_def bindListenSocket_def psListenerOk_def psInstallAcceptSource_def
          psInstallPathGuard_def listenerOk_def idleListener_def)
  qed
qed

lemma stop_idle:
  assumes "listenerOk l" "\<not> l_acceptPaused l" "\<not> l_stopping l"
    and "l0 = l\<lparr>l_stopping := True, l_pathGuardTimer := False\<rparr>"
    and "l1 = (if l_acceptSource l0 \<noteq> None then psCancelAcceptSource l0 else l0)"
    and "l2 = (if l_cancelPending l1 then psOnAcceptSourceCancelled sys l1 else l1)"
  shows "idleListener (l2\<lparr>l_listenIdentity := None\<rparr>)"
proof (cases "l_acceptSource l")
  case None
  with assms show ?thesis
    by (auto simp: listenerOk_def idleListener_def psOnAcceptSourceCancelled_def stillHeldBy_def Let_def)
next
  case (Some a)
  with assms show ?thesis
    by (auto simp: listenerOk_def idleListener_def psCancelAcceptSource_def psOnAcceptSourceCancelled_def
        stillHeldBy_def Let_def)
qed

lemma stop_listener:
  assumes "psListenerOk s" shows "psListenerOk (psStop sys s)"
proof (cases "ps_started s")
  case True
  define l0 where "l0 = (ps_listener s)\<lparr>l_stopping := True, l_pathGuardTimer := False\<rparr>"
  define l1 where "l1 = (if l_acceptSource l0 \<noteq> None then psCancelAcceptSource l0 else l0)"
  define l2 where "l2 = (if l_cancelPending l1 then psOnAcceptSourceCancelled sys l1 else l1)"
  have "ps_listener (psStopLoop s) = l1" "ps_started (psStopLoop s) = False"
    by (simp_all add: psStopLoop_def Let_def l0_def l1_def)
  then have "ps_listener (psStop sys s)
      = (if stillNames (l_listenIdentity l2) (l_path l2) then l2\<lparr>l_path := None\<rparr> else l2)\<lparr>l_listenIdentity := None\<rparr>"
    "\<not> ps_started (psStop sys s)" "\<not> ps_lockHeld (psStop sys s)"
    using True by (simp_all add: psStop_def Let_def l2_def)
  moreover have "idleListener (l2\<lparr>l_listenIdentity := None\<rparr>)"
    by (rule stop_idle [OF _ _ _ l0_def l1_def l2_def]) (use assms True in \<open>simp_all add: psListenerOk_def\<close>)
  then have "idleListener (l2\<lparr>l_path := None, l_listenIdentity := None\<rparr>)"
    by (simp add: idleListener_def)
  ultimately show ?thesis using \<open>idleListener (l2\<lparr>l_listenIdentity := None\<rparr>)\<close> by (simp add: psListenerOk_def)
qed (use assms in \<open>simp add: psStop_def\<close>)

lemma check_listener:
  assumes "psListenerOk s" "l_pathGuardTimer (ps_listener s) \<or> l_acceptSource (ps_listener s) \<noteq> None"
  shows "psListenerOk (s\<lparr>ps_listener := psCheckSocketPath sys (ps_listener s)\<rparr>)"
  using assms
  by (auto simp: psListenerOk_def psCheck_eq check_ok listener_flags idleListener_def split: if_splits)

lemma cancelled_listener:
  assumes "psListenerOk s" "l_cancelPending (ps_listener s)"
  shows "psListenerOk (s\<lparr>ps_listener := psOnAcceptSourceCancelled sys (ps_listener s)\<rparr>)"
  using assms
  by (auto simp: psListenerOk_def psCancelled_eq cancelled_ok listener_flags idleListener_def split: if_splits)

lemma psListenerOk_path:
  assumes "psListenerOk s" "\<And>i. x = Some i \<Longrightarrow> i < n" "l_nextIno (ps_listener s) \<le> n"
  shows "psListenerOk (s\<lparr>ps_listener := (ps_listener s)\<lparr>l_path := x, l_nextIno := n\<rparr>\<rparr>)"
  using assms by (auto simp: psListenerOk_def listenerOk_def idleListener_def dest: less_le_trans)

lemma psListenerOk_same:
  "ps_listener s' = ps_listener s \<Longrightarrow> ps_started s' = ps_started s \<Longrightarrow> ps_lockHeld s' = ps_lockHeld s
     \<Longrightarrow> psListenerOk s' = psListenerOk s"
  by (simp add: psListenerOk_def)

lemma serve_listener [simp]:
  "psListenerOk (psAcceptOne peerAuth fd creds s) = psListenerOk s"
  "psListenerOk (psOnReadReady voc cd cid frames ok s) = psListenerOk s"
  "psListenerOk (finishTask pv i s) = psListenerOk s"
proof -
  have disp: "ps_listener (dispatchRequest fd req s) = ps_listener s \<and> ps_started (dispatchRequest fd req s) = ps_started s
      \<and> ps_lockHeld (dispatchRequest fd req s) = ps_lockHeld s" for fd req s
    by (cases req) (simp_all add: addTask_def)
  show "psListenerOk (psAcceptOne peerAuth fd creds s) = psListenerOk s"
    by (rule psListenerOk_same) (simp_all add: psAcceptOne_def)
  show "psListenerOk (psOnReadReady voc cd cid frames ok s) = psListenerOk s"
    by (rule psListenerOk_same)
      (simp_all add: psOnReadReady_def psCloseConnection_def addTask_def disp Let_def
        split: option.split list.split sum.split)
  show "psListenerOk (finishTask pv i s) = psListenerOk s"
    by (rule psListenerOk_same) (simp_all add: finishTask_def)
qed

definition serverOk :: "watched \<Rightarrow> bool" where
  "serverOk w \<longleftrightarrow> servedOk w \<and> psListenerOk (wa_server w)"

lemma serverOk_step:
  assumes "serverStep voc cd peerAuth pv w v" "serverOk w" shows "serverOk v"
  using assms
proof (induction rule: serverStep.induct)
  case (sv_start w free sys)
  then show ?case using start_served start_listener by (simp add: serverOk_def withServer_def)
next
  case (sv_stop w sys)
  then show ?case using stop_served [of w sys] stop_listener by (simp add: serverOk_def withServer_def)
next
  case (sv_guard w sys)
  then show ?case using check_listener by (simp add: serverOk_def withListener_def [of _ w])
      (simp add: servedOk_listener [unfolded withListener_def])
next
  case (sv_cancelled w sys)
  then show ?case using cancelled_listener by (simp add: serverOk_def withListener_def [of _ w])
      (simp add: servedOk_listener [unfolded withListener_def])
next
  case (sv_removed w)
  have "psListenerOk (wa_server w)" using sv_removed by (simp add: serverOk_def)
  from psListenerOk_path [OF this, of None "l_nextIno (ps_listener (wa_server w))"] sv_removed
  show ?case by (simp add: serverOk_def) (simp add: withListener_def)
next
  case (sv_replaced w)
  have "psListenerOk (wa_server w)" using sv_replaced by (simp add: serverOk_def)
  from psListenerOk_path [OF this, of "Some (l_nextIno (ps_listener (wa_server w)))"
      "l_nextIno (ps_listener (wa_server w)) + 1"] sv_replaced
  show ?case by (simp add: serverOk_def) (simp add: withListener_def)
next
  case (sv_admit fd w creds c)
  then show ?case using admit_ok [of w fd peerAuth c] by (simp add: serverOk_def) (simp add: withServer_def)
next
  case (sv_reject fd w creds)
  then show ?case using reject_ok [of w fd peerAuth creds] by (simp add: serverOk_def) (simp add: withServer_def)
next
  case (sv_read w cid frames ok)
  then show ?case using read_ok [of w] by (simp add: serverOk_def) (simp add: withServer_def)
next
  case (sv_finish w i)
  then show ?case using finish_ok [of w] by (simp add: serverOk_def) (simp add: withServer_def)
qed

interpretation server_system: invariant_system serverInit "serverStep voc cd peerAuth pv" serverOk
  for voc cd peerAuth pv
proof
  show "serverOk w" if "serverInit w" for w
    using that
    by (auto simp: serverInit_def serverOk_def servedOk_def fdsOf_def psListenerOk_def idleListener_def
        freshListener_def)
qed (rule serverOk_step)

section \<open>Properties\<close>

definition demoProviders :: providers where
  "demoProviders = \<lparr>pv_secret = (\<lambda>r. demoReply), pv_secrets = (\<lambda>r. demoMulti),
     pv_confirm = (\<lambda>r. \<lparr>cr_status = StOk, cr_userMessage = [], cr_protocolVersion = None\<rparr>), pv_reset = 3\<rparr>"

definition demoServer :: watched where
  "demoServer = \<lparr>wa_server = \<lparr>ps_listener = freshListener, ps_started = False, ps_lockHeld = False, ps_nextConnId = 1,
      ps_connections = [], ps_tasks = [], ps_outcomes = [], ps_cancels = []\<rparr>, wa_seen = [], wa_admitted = []\<rparr>"

lemma demoServer_reach: "reach serverInit (serverStep voc cd peerAuth pv) demoServer"
  by (rule reach_init) (simp add: serverInit_def demoServer_def)

text \<open>
  C10: only the agent drives the prompter: every request that waits for a provider came over a
  connection whose peer passed the check, a peer that did not pass is sent the one
  unauthorised refusal, and no connection is answered twice.
\<close>
theorem prompter_serves_only_agent:
  assumes "reach serverInit (serverStep voc cd peerAuth pv) w"
  shows "list_all (\<lambda>t. taskFd t \<in> set (wa_admitted w)) (ps_tasks (wa_server w))
       \<and> list_all (\<lambda>out. outcomeFd out \<in> set (wa_admitted w) \<or> out = SentSecret (outcomeFd out) unauthorizedReply)
           (ps_outcomes (wa_server w))
       \<and> distinct (map outcomeFd (ps_outcomes (wa_server w)))"
proof -
  have "servedOk w" using server_system.reach_inv [OF assms] by (simp add: serverOk_def)
  then show ?thesis by (auto simp: servedOk_def Let_def list_all_iff)
qed

theorem prompter_serves_only_agent_witness:
  "ps_outcomes (psAcceptOne (\<lambda>c. c = (42 :: nat)) 9 (Some 7) (wa_server demoServer)) = [SentSecret 9 unauthorizedReply]
   \<and> distinct (map outcomeFd (ps_outcomes (psAcceptOne (\<lambda>c. c = (42 :: nat)) 9 (Some 7) (wa_server demoServer))))"
proof -
  let ?w = "(withServer (psAcceptOne (\<lambda>c. c = (42 :: nat)) 9 (Some 7)) demoServer)\<lparr>wa_seen := 9 # wa_seen demoServer\<rparr>"
  have "serverStep demoVocab (constCodec (CUInt 0)) (\<lambda>c. c = (42 :: nat)) demoProviders demoServer ?w"
    by (rule sv_reject) (simp_all add: demoServer_def)
  with demoServer_reach
  have "reach serverInit (serverStep demoVocab (constCodec (CUInt 0)) (\<lambda>c. c = (42 :: nat)) demoProviders) ?w"
    by (rule reach_step)
  from prompter_serves_only_agent [OF this] show ?thesis
    by (simp add: withServer_def psAcceptOne_def demoServer_def)
qed

text \<open>
  A request travels from the agent to the provider and its answer back unchanged: the
  server hands the provider the request the agent encoded, once, after it retired the
  connection's read side, and the reply frame the worker sends is parsed by the agent as
  the provider's reply.
\<close>
lemma prompt_end_to_end:
  assumes "sm_find (ps_connections s) cid = Some fd" and "vocab_ok voc" and "pr_kind r \<noteq> ChangePin"
    and "decode cd body = Some (toCborPromptRequest voc r)"
    and "ReqPrompt r' = wireForm voc (ReqPrompt r)" and "reply = pv_secret pv r'"
    and "length (re_secret reply) \<le> kMaxSecretBytes voc" and "decode cd body' = Some (toCborPromptReply voc reply)"
  shows "ps_tasks (psOnReadReady voc cd cid (body # later) ok s) = ps_tasks s @ [TaskSecret r' fd]
       \<and> sm_find (ps_connections (psOnReadReady voc cd cid (body # later) ok s)) cid = None
       \<and> runTask pv (TaskSecret r' fd) = SentSecret fd reply
       \<and> fst (parsePromptReply voc cd body') = Inr (replyWire reply)"
proof -
  have "parsePrompterRequest voc cd body = Inr (ReqPrompt r')"
    using roundtrip_prompt [OF assms(4,2,3)] assms(5) by simp
  moreover have "fst (parsePromptReply voc cd body') = Inr (replyWire reply)"
    using assms(8,2,7) by (rule roundtrip_reply)
  ultimately show ?thesis
    using assms(1,6) by (simp add: psOnReadReady_def addTask_def psCloseConnection_def Let_def)
qed

text \<open>
  A frame the server cannot parse reaches no provider: the connection is retired, and
  only a request from a newer protocol is answered at all, with an error that carries no
  secret.
\<close>
lemma bad_request_reaches_no_provider:
  assumes "sm_find (ps_connections s) cid = Some fd" and "parsePrompterRequest voc cd body = Inl e"
  shows "psOnReadReady voc cd cid (body # later) ok s
           = (if e = UnsupportedVersion then addTask (TaskRefuseVersion fd) (psCloseConnection cid s)
              else psCloseConnection cid s)
       \<and> runTask pv (TaskRefuseVersion fd) = SentSecret fd unsupportedVersionReply
       \<and> re_secret unsupportedVersionReply = []"
  using assms by (simp add: psOnReadReady_def unsupportedVersionReply_def Let_def)

text \<open>
  A confirmation of a kind this build does not implement is refused without asking
  anyone, and one it implements is the only kind that reaches the confirmation provider.
\<close>
lemma confirm_kinds:
  assumes "TaskConfirm r fd \<in> set (ps_tasks (dispatchRequest g req s))"
    and "TaskConfirm r fd \<notin> set (ps_tasks s)"
  shows "req = ReqConfirm r \<and> fd = g \<and> ca_kind r = ''configure_trust''"
  using assms by (cases req) (auto simp: addTask_def kConfigureTrust_def split: if_splits)

text \<open>
  Over any sequence of starts, stops, replacements and cancellations the prompter keeps
  the listener discipline, holds the instance lock exactly while it runs, and a stopped
  server has no listening socket.
\<close>
lemma prompter_listener_discipline:
  assumes "reach serverInit (serverStep voc cd peerAuth pv) w"
  shows "l_closedListenFdAtCancel (ps_listener (wa_server w)) = 0 \<and> \<not> l_crashed (ps_listener (wa_server w))
       \<and> ps_lockHeld (wa_server w) = ps_started (wa_server w)
       \<and> (\<not> ps_started (wa_server w) \<longrightarrow> l_listenFd (ps_listener (wa_server w)) = None)"
  using server_system.reach_inv [OF assms]
  by (auto simp: serverOk_def psListenerOk_def listenerOk_def idleListener_def split: if_splits)

end
