(* ===== verification/Display_Names.thy ===== *)
theory Display_Names
  imports Prelude "HOL-Library.Sublist"
begin

text \<open>
  The rendering of untrusted document names for the consent window, from the end of
  \<^verbatim>\<open>agent/src/backend/wire/PrompterProtocol.cpp\<close>: \<^verbatim>\<open>neutralizeDisplayName\<close> and
  \<^verbatim>\<open>formatUntrustedArtifactList\<close>. A \<^verbatim>\<open>std::string\<close> is its bytes, a \<^typ>\<open>string\<close> here.
\<close>

unbundle bit_operations_syntax

section \<open>The code\<close>

definition byteOf :: "char \<Rightarrow> nat" where
  "byteOf c = of_char c"

definition blankControl :: "char \<Rightarrow> char" where
  "blankControl c = (if byteOf c < 0x20 \<or> byteOf c = 0x7F then CHR '' '' else c)"

definition lineSeparators :: "string list" where
  "lineSeparators =
    [[CHR 0xE2, CHR 0x80, CHR 0xA8],
     [CHR 0xE2, CHR 0x80, CHR 0xA9],
     [CHR 0xC2, CHR 0x85],
     [CHR 0xE2, CHR 0x80, CHR 0x8E],
     [CHR 0xE2, CHR 0x80, CHR 0x8F],
     [CHR 0xE2, CHR 0x80, CHR 0xAA],
     [CHR 0xE2, CHR 0x80, CHR 0xAB],
     [CHR 0xE2, CHR 0x80, CHR 0xAC],
     [CHR 0xE2, CHR 0x80, CHR 0xAD],
     [CHR 0xE2, CHR 0x80, CHR 0xAE],
     [CHR 0xE2, CHR 0x81, CHR 0xA6],
     [CHR 0xE2, CHR 0x81, CHR 0xA7],
     [CHR 0xE2, CHR 0x81, CHR 0xA8],
     [CHR 0xE2, CHR 0x81, CHR 0xA9]]"

text \<open>\<^verbatim>\<open>name.find(sep, pos)\<close>.\<close>

function findFrom :: "string \<Rightarrow> string \<Rightarrow> nat \<Rightarrow> nat option" where
  "findFrom sep s pos =
     (if pos + length sep > length s then None
      else if take (length sep) (drop pos s) = sep then Some pos
      else findFrom sep s (Suc pos))"
  by pat_completeness auto
termination
  by (relation "measure (\<lambda>(sep, s, pos). Suc (length s) - pos)") auto

declare findFrom.simps [simp del]

lemma findFrom_Some:
  "findFrom sep s pos = Some p \<Longrightarrow>
     pos \<le> p \<and> p + length sep \<le> length s \<and> take (length sep) (drop p s) = sep \<and>
     (\<forall>q. pos \<le> q \<and> q < p \<longrightarrow> take (length sep) (drop q s) \<noteq> sep)"
proof (induction sep s pos rule: findFrom.induct)
  case (1 sep s pos)
  show ?case
  proof (cases "take (length sep) (drop pos s) = sep")
    case True
    with "1.prems" show ?thesis by (auto simp: findFrom.simps [of sep s pos] split: if_splits)
  next
    case False
    with "1.prems" have "findFrom sep s (Suc pos) = Some p" "\<not> pos + length sep > length s"
      by (auto simp: findFrom.simps [of sep s pos] split: if_splits)
    with "1.IH" False show ?thesis by (metis Suc_leD Suc_leI le_neq_implies_less)
  qed
qed

lemma findFrom_None:
  "findFrom sep s pos = None \<Longrightarrow> pos \<le> q \<Longrightarrow> q + length sep \<le> length s
     \<Longrightarrow> take (length sep) (drop q s) \<noteq> sep"
proof (induction sep s pos rule: findFrom.induct)
  case (1 sep s pos)
  then show ?case
    by (cases "q = pos") (auto simp: findFrom.simps [of sep s pos] split: if_splits)
qed

text \<open>The replacing loop over one separator; the separators of the code are not empty.\<close>

function replaceFrom :: "string \<Rightarrow> string \<Rightarrow> nat \<Rightarrow> string" where
  "replaceFrom sep s pos =
     (if sep = [] then s
      else case findFrom sep s pos of
        None \<Rightarrow> s
      | Some p \<Rightarrow> replaceFrom sep (take p s @ '' '' @ drop (p + length sep) s) (Suc p))"
  by pat_completeness auto
termination
proof (relation "measure (\<lambda>(sep, s, pos). Suc (length s) - pos)", goal_cases)
  case (2 sep s pos p)
  then have "sep \<noteq> []" "pos \<le> p" "p + length sep \<le> length s"
    using findFrom_Some by blast+
  then show ?case by (cases sep) auto
qed simp

declare replaceFrom.simps [simp del]

definition kMaxBytes :: nat where
  "kMaxBytes = 128"

definition isContinuation :: "char \<Rightarrow> bool" where
  "isContinuation c \<longleftrightarrow> (of_char c :: byte) AND 0xC0 = 0x80"

fun cutBack :: "string \<Rightarrow> nat \<Rightarrow> nat" where
  "cutBack s 0 = 0"
| "cutBack s (Suc n) = (if isContinuation (s ! Suc n) then cutBack s n else Suc n)"

definition ellipsis :: string where
  "ellipsis = [CHR 0xE2, CHR 0x80, CHR 0xA6]"

definition elide :: "string \<Rightarrow> string" where
  "elide name =
     (if length name > kMaxBytes then take (cutBack name kMaxBytes) name @ ellipsis else name)"

definition neutralizeDisplayName :: "string \<Rightarrow> string" where
  "neutralizeDisplayName name =
     elide (fold (\<lambda>sep s. replaceFrom sep s 0) lineSeparators (map blankControl name))"

record UntrustedArtifactList =
  block :: string
  omitted :: nat

definition bullet :: string where
  "bullet = '' '' @ '' '' @ [CHR 0xE2, CHR 0x80, CHR 0xA2] @ '' ''"

definition appendName :: "string \<Rightarrow> string \<Rightarrow> string" where
  "appendName name out =
     (if out \<noteq> [] then out @ [CHR 0x0A] else out) @ bullet @ neutralizeDisplayName name"

definition formatUntrustedArtifactList :: "string list \<Rightarrow> nat \<Rightarrow> UntrustedArtifactList" where
  "formatUntrustedArtifactList names maxItems =
     (if names = [] then \<lparr>block = [], omitted = 0\<rparr>
      else let shown = (if maxItems = 0 then length names else min (length names) maxItems)
           in \<lparr>block = fold appendName (take shown names) [], omitted = length names - shown\<rparr>)"

section \<open>The replacing loop as one pass\<close>

function collapse :: "string \<Rightarrow> string \<Rightarrow> string" where
  "collapse sep s =
     (if sep = [] \<or> s = [] then s
      else if prefix sep s then CHR '' '' # collapse sep (drop (length sep) s)
      else hd s # collapse sep (tl s))"
  by pat_completeness auto
termination
  by (relation "measure (\<lambda>(sep, s). length s)") auto

declare collapse.simps [simp del]

lemma prefix_take: "prefix xs ys \<longleftrightarrow> take (length xs) ys = xs"
  by (metis append_eq_conv_conj prefix_def)

lemma collapse_Nil [simp]: "collapse sep [] = []"
  by (simp add: collapse.simps [of sep "[]"])

lemma collapse_miss: "\<not> prefix sep (c # u) \<Longrightarrow> collapse sep (c # u) = c # collapse sep u"
  by (subst collapse.simps) auto

lemma collapse_hit: "sep \<noteq> [] \<Longrightarrow> collapse sep (sep @ u) = CHR '' '' # collapse sep u"
  by (simp add: collapse.simps [of sep "sep @ u"])

lemma collapse_skip:
  assumes "sep \<noteq> []" "n \<le> length t" "\<And>q. q < n \<Longrightarrow> \<not> prefix sep (drop q t)"
  shows "collapse sep t = take n t @ collapse sep (drop n t)"
  using assms(2,3)
proof (induction n arbitrary: t)
  case (Suc n)
  then obtain c u where t: "t = c # u" by (cases t) auto
  have "\<not> prefix sep t" using Suc.prems(2) [of 0] by simp
  moreover have "collapse sep u = take n u @ collapse sep (drop n u)"
    using Suc.IH [of u] Suc.prems t by (metis Suc_less_eq Suc_le_mono drop_Suc_Cons length_Cons)
  ultimately show ?case using t by (simp add: collapse_miss)
qed simp

text \<open>The pass up to the next occurrence, as the search of the loop finds it.\<close>

lemma collapse_none:
  assumes "findFrom sep s pos = None" and "sep \<noteq> []" and "pos \<le> length s"
  shows "collapse sep (drop pos s) = drop pos s"
proof -
  have "\<not> prefix sep (drop q (drop pos s))" if "q < length (drop pos s)" for q
  proof
    assume "prefix sep (drop q (drop pos s))"
    then have "take (length sep) (drop (pos + q) s) = sep" "pos + q + length sep \<le> length s"
      using prefix_length_le [of sep "drop q (drop pos s)"] that by (auto simp: prefix_take add.commute)
    with findFrom_None [OF assms(1), of "pos + q"] show False by simp
  qed
  then show ?thesis using collapse_skip [of sep "length (drop pos s)" "drop pos s"] assms(2,3) by simp
qed

lemma collapse_first:
  assumes "findFrom sep s pos = Some p" and "sep \<noteq> []"
  shows "take pos s @ collapse sep (drop pos s) = take p s @ CHR '' '' # collapse sep (drop (p + length sep) s)"
proof -
  note p = findFrom_Some [OF assms(1)]
  have "\<not> prefix sep (drop q (drop pos s))" if "q < p - pos" for q
    using p that by (auto simp: prefix_take add.commute)
  moreover have "p - pos \<le> length (drop pos s)" using p by (simp add: diff_le_mono add_leD1)
  ultimately have "collapse sep (drop pos s) = take (p - pos) (drop pos s) @ collapse sep (drop p s)"
    using collapse_skip [of sep "p - pos" "drop pos s"] assms(2) p by simp
  moreover have "collapse sep (drop p s) = CHR '' '' # collapse sep (drop (p + length sep) s)"
    using p assms(2) collapse_hit [of sep "drop (p + length sep) s"] by (metis add.commute append_take_drop_id drop_drop)
  moreover have "take p s = take pos s @ take (p - pos) (drop pos s)" using p by (metis le_add_diff_inverse take_add)
  ultimately show ?thesis by simp
qed

lemma replaceFrom_collapse:
  "sep \<noteq> [] \<Longrightarrow> pos \<le> length s \<Longrightarrow> replaceFrom sep s pos = take pos s @ collapse sep (drop pos s)"
proof (induction sep s pos rule: replaceFrom.induct)
  case (1 sep s pos)
  show ?case
  proof (cases "findFrom sep s pos")
    case None
    with collapse_none [OF None] "1.prems" show ?thesis by (simp add: replaceFrom.simps [of sep s pos])
  next
    case (Some p)
    let ?s' = "take p s @ '' '' @ drop (p + length sep) s"
    note p = findFrom_Some [OF Some]
    have "replaceFrom sep s pos = replaceFrom sep ?s' (Suc p)"
      using Some "1.prems" by (simp add: replaceFrom.simps [of sep s pos])
    also have "\<dots> = take (Suc p) ?s' @ collapse sep (drop (Suc p) ?s')"
      using "1.IH" [OF _ Some] "1.prems" p by (cases sep) auto
    also have "\<dots> = take p s @ CHR '' '' # collapse sep (drop (p + length sep) s)"
      using p by (simp add: min_def Suc_diff_le)
    finally show ?thesis using collapse_first [OF Some] "1.prems" by simp
  qed
qed

section \<open>What the pass removes\<close>

lemma collapse_induct [case_names Nil hit miss]:
  assumes "P []"
    and "\<And>u. P u \<Longrightarrow> P (sep @ u)"
    and "\<And>c u. \<not> prefix sep (c # u) \<Longrightarrow> P u \<Longrightarrow> P (c # u)"
    and "sep \<noteq> []"
  shows "P s"
proof (induction s rule: length_induct)
  case (1 s)
  show ?case
  proof (cases s)
    case (Cons c u)
    show ?thesis
    proof (cases "prefix sep s")
      case True
      then obtain v where "s = sep @ v" by (auto simp: prefix_def)
      with 1 assms(2,4) show ?thesis by simp
    next
      case False
      with 1 assms(3) Cons show ?thesis by simp
    qed
  qed (simp add: assms(1))
qed

lemma collapse_prefix:
  assumes "sep \<noteq> []" shows "CHR '' '' \<notin> set t \<Longrightarrow> prefix t (collapse sep s) \<Longrightarrow> prefix t s"
proof (induction s arbitrary: t rule: collapse_induct [of _ sep])
  case (hit u)
  then show ?case using assms by (cases t) (auto simp: collapse_hit)
next
  case (miss c u)
  then show ?case by (cases t) (auto simp: collapse_miss)
qed (use assms in auto)

lemma collapse_sublist:
  assumes "sep \<noteq> []" "CHR '' '' \<notin> set t" "t \<noteq> []"
  shows "sublist t (collapse sep s) \<Longrightarrow> sublist t s"
proof (induction s rule: collapse_induct [of _ sep])
  case (hit u)
  then have "sublist t u"
    using assms by (cases t) (auto simp: collapse_hit sublist_Cons_right)
  then show ?case by (simp add: sublist_append)
next
  case (miss c u)
  then show ?case
    using collapse_prefix [OF assms(1,2), of "c # u"]
    by (auto simp: collapse_miss sublist_Cons_right)
qed (use assms in auto)

lemma collapse_gone:
  assumes "sep \<noteq> []" "CHR '' '' \<notin> set sep" shows "\<not> sublist sep (collapse sep s)"
proof (induction s rule: collapse_induct [of _ sep])
  case (hit u)
  have "\<not> prefix sep (CHR '' '' # collapse sep u)" using assms by (cases sep) auto
  with hit show ?case by (simp add: collapse_hit [OF assms(1)] sublist_Cons_right)
next
  case (miss c u)
  then show ?case
    using collapse_prefix [OF assms, of "c # u"] by (auto simp: collapse_miss sublist_Cons_right)
qed (use assms in auto)

lemma collapse_bytes:
  assumes "sep \<noteq> []" shows "set (collapse sep s) \<subseteq> insert (CHR '' '') (set s)"
proof (induction s rule: collapse_induct [of _ sep])
qed (use assms in \<open>auto simp: collapse_hit collapse_miss\<close>)

text \<open>The separators are code points without a space, and none begins inside the ellipsis.\<close>

lemma separator_facts:
  "list_all (\<lambda>t. t \<noteq> [] \<and> CHR '' '' \<notin> set t \<and> CHR 0xE2 \<notin> set (tl t) \<and> \<not> prefix t ellipsis
     \<and> \<not> sublist t ellipsis) lineSeparators"
  by (simp add: lineSeparators_def ellipsis_def sublist_Cons_right)

lemma fold_replace:
  "list_all (\<lambda>t. t \<noteq> []) seps \<Longrightarrow>
     fold (\<lambda>sep s. replaceFrom sep s 0) seps s = fold collapse seps s"
  by (induction seps arbitrary: s) (auto simp: replaceFrom_collapse)

lemma fold_collapse_gone:
  assumes "list_all (\<lambda>t. t \<noteq> [] \<and> CHR '' '' \<notin> set t) seps"
    and "\<forall>t \<in> T. t \<noteq> [] \<and> CHR '' '' \<notin> set t \<and> \<not> sublist t s"
  shows "\<forall>t \<in> T \<union> set seps. \<not> sublist t (fold collapse seps s)"
  using assms
proof (induction seps arbitrary: T s)
  case (Cons sep seps)
  have sep: "sep \<noteq> []" "CHR '' '' \<notin> set sep" using Cons.prems(1) by simp_all
  have "\<not> sublist t (collapse sep s)" if "t \<in> T" for t
    using collapse_sublist [OF sep(1)] Cons.prems(2) that by blast
  then have "\<forall>t \<in> insert sep T. t \<noteq> [] \<and> CHR '' '' \<notin> set t \<and> \<not> sublist t (collapse sep s)"
    using collapse_gone [OF sep] sep Cons.prems(2) by blast
  from Cons.IH [OF _ this] Cons.prems(1) show ?case by simp
qed auto

lemma fold_collapse_bytes:
  "list_all (\<lambda>t. t \<noteq> []) seps \<Longrightarrow> set (fold collapse seps s) \<subseteq> insert (CHR '' '') (set s)"
proof (induction seps arbitrary: s)
  case (Cons sep seps)
  then show ?case using collapse_bytes [of sep s] by fastforce
qed auto

lemma separator_not_ellipsis:
  assumes "t \<in> set lineSeparators" "sublist t (xs @ ellipsis)" shows "sublist t xs"
proof -
  note t = separator_facts [unfolded list_all_iff, rule_format, OF assms(1)]
  have "t = xs1 @ xs2 \<Longrightarrow> suffix xs1 xs \<Longrightarrow> prefix xs2 ellipsis \<Longrightarrow> sublist t xs" for xs1 xs2
    using t by (cases xs2; cases xs1) (auto simp: ellipsis_def intro: suffix_imp_sublist)
  with assms(2) t show ?thesis by (auto simp: sublist_append)
qed

lemma elide_free: "t \<in> set lineSeparators \<Longrightarrow> \<not> sublist t s \<Longrightarrow> \<not> sublist t (elide s)"
  unfolding elide_def
  using separator_not_ellipsis sublist_order.order.trans [OF _ sublist_take] by (metis (full_types))

section \<open>UTF-8\<close>

text \<open>
  Structurally well-formed UTF-8: a sequence of code points, each a lead byte followed by
  as many continuation bytes as it announces.
\<close>

definition cpLength :: "char \<Rightarrow> nat option" where
  "cpLength c =
     (if byteOf c < 0x80 then Some 1
      else if 0xC2 \<le> byteOf c \<and> byteOf c \<le> 0xDF then Some 2
      else if 0xE0 \<le> byteOf c \<and> byteOf c \<le> 0xEF then Some 3
      else if 0xF0 \<le> byteOf c \<and> byteOf c \<le> 0xF4 then Some 4
      else None)"

fun codePoint :: "string \<Rightarrow> bool" where
  "codePoint [] = False"
| "codePoint (c # cs) = (cpLength c = Some (Suc (length cs)) \<and> list_all isContinuation cs)"

inductive utf8 :: "string \<Rightarrow> bool" where
  utf8_Nil [simp]: "utf8 []"
| utf8_Cons: "codePoint cp \<Longrightarrow> utf8 s \<Longrightarrow> utf8 (cp @ s)"

lemma isContinuation_iff: "isContinuation c \<longleftrightarrow> 0x80 \<le> byteOf c \<and> byteOf c < 0xC0"
proof -
  obtain b0 b1 b2 b3 b4 b5 b6 b7 where c: "c = Char b0 b1 b2 b3 b4 b5 b6 b7" by (cases c)
  show ?thesis unfolding c
    by (cases b0; cases b1; cases b2; cases b3; cases b4; cases b5; cases b6; cases b7)
      (simp_all add: isContinuation_def byteOf_def)
qed

lemma codePoint_lead: "codePoint (c # cs) \<Longrightarrow> \<not> isContinuation c"
  by (auto simp: cpLength_def isContinuation_iff split: if_splits)

lemma codePoint_tail: "codePoint cp \<Longrightarrow> 0 < n \<Longrightarrow> n < length cp \<Longrightarrow> isContinuation (cp ! n)"
  by (cases cp; cases n) (auto simp: list_all_length)

lemma codePoint_prefix:
  assumes "codePoint a" "codePoint b" "prefix a (b @ u)" shows "a = b"
proof -
  have "hd a = hd b" "length a = length b"
    using assms by (cases a; cases b; auto)+
  with assms(3) show ?thesis by (metis append_eq_append_conv prefix_def)
qed

lemma utf8_append: "utf8 s \<Longrightarrow> utf8 t \<Longrightarrow> utf8 (s @ t)"
  by (induction rule: utf8.induct) (auto intro: utf8_Cons)

lemma utf8_single: "codePoint cp \<Longrightarrow> utf8 cp"
  using utf8_Cons [of cp "[]"] by simp

lemma codePoint_blank: "codePoint cp \<Longrightarrow> codePoint (map blankControl cp)"
proof (cases cp)
  case (Cons c cs)
  assume cp: "codePoint cp"
  have "map blankControl cs = cs"
    using cp Cons by (auto simp: list_all_iff isContinuation_iff blankControl_def intro!: map_idI)
  moreover have "cpLength (blankControl c) = cpLength c"
    by (auto simp: cpLength_def blankControl_def byteOf_def)
  ultimately show ?thesis using cp Cons by simp
qed simp

lemma utf8_blank: "utf8 s \<Longrightarrow> utf8 (map blankControl s)"
  by (induction rule: utf8.induct) (auto intro: utf8_Cons codePoint_blank)

lemma collapse_codePoint:
  assumes "codePoint sep" "codePoint cp" "cp \<noteq> sep"
  shows "collapse sep (cp @ u) = cp @ collapse sep u"
proof -
  have "\<not> prefix sep (drop q (cp @ u))" if "q < length cp" for q
  proof (cases "q = 0")
    case True
    with assms codePoint_prefix show ?thesis by auto
  next
    case False
    with assms(2) that have "isContinuation (cp ! q)" by (simp add: codePoint_tail)
    moreover have "drop q (cp @ u) = cp ! q # drop (Suc q) (cp @ u)"
      using that by (simp add: Cons_nth_drop_Suc [symmetric])
    ultimately show ?thesis using assms(1) codePoint_lead by (cases sep) auto
  qed
  moreover have "sep \<noteq> []" using assms(1) by auto
  ultimately show ?thesis using collapse_skip [of sep "length cp" "cp @ u"] by simp
qed

lemma utf8_collapse:
  assumes "codePoint sep" shows "utf8 s \<Longrightarrow> utf8 (collapse sep s)"
proof (induction rule: utf8.induct)
  case (utf8_Cons cp s)
  have "utf8 (CHR '' '' # collapse sep s)"
    using utf8.utf8_Cons [of "'' ''", OF _ utf8_Cons.IH] by (simp add: cpLength_def byteOf_def)
  moreover have "sep \<noteq> []" using assms by auto
  ultimately show ?case
    using utf8_Cons assms collapse_codePoint [of sep cp s] utf8.utf8_Cons [of cp]
    by (cases "cp = sep") (auto simp: collapse_hit)
qed simp

lemma utf8_take:
  "utf8 s \<Longrightarrow> n \<le> length s \<Longrightarrow> n = 0 \<or> n = length s \<or> \<not> isContinuation (s ! n) \<Longrightarrow> utf8 (take n s)"
proof (induction arbitrary: n rule: utf8.induct)
  case (utf8_Cons cp s)
  show ?case
  proof (cases "n < length cp")
    case True
    with utf8_Cons codePoint_tail [of cp n] have "n = 0" by (auto simp: nth_append)
    then show ?thesis by simp
  next
    case False
    with utf8_Cons have "utf8 (take (n - length cp) s)"
      by (auto simp: nth_append)
    with False utf8_Cons show ?thesis by (simp add: utf8.utf8_Cons)
  qed
qed simp

lemma cutBack_le: "cutBack s n \<le> n"
  by (induction n) auto

lemma cutBack_boundary: "cutBack s n = 0 \<or> \<not> isContinuation (s ! cutBack s n)"
  by (induction n) auto

lemma utf8_elide: "utf8 s \<Longrightarrow> utf8 (elide s)"
proof -
  assume s: "utf8 s"
  have "utf8 ellipsis"
    by (rule utf8_single) (simp add: ellipsis_def cpLength_def byteOf_def isContinuation_iff)
  moreover have "utf8 (take (cutBack s kMaxBytes) s)" if "length s > kMaxBytes"
    using utf8_take [OF s] cutBack_le [of s kMaxBytes] cutBack_boundary [of s kMaxBytes] that by simp
  ultimately show ?thesis using s by (simp add: elide_def utf8_append)
qed

lemma separators_codePoints: "list_all codePoint lineSeparators"
  by (simp add: lineSeparators_def cpLength_def byteOf_def isContinuation_iff)

lemma utf8_fold: "list_all codePoint seps \<Longrightarrow> utf8 s \<Longrightarrow> utf8 (fold collapse seps s)"
  by (induction seps arbitrary: s) (auto simp: utf8_collapse)

lemma neutralize_collapse:
  "neutralizeDisplayName name = elide (fold collapse lineSeparators (map blankControl name))"
  using separator_facts by (simp add: neutralizeDisplayName_def fold_replace list_all_iff)

section \<open>Properties\<close>

definition controlByte :: "char \<Rightarrow> bool" where
  "controlByte c \<longleftrightarrow> byteOf c < 0x20 \<or> byteOf c = 0x7F"

lemma neutral_no_control: "list_all (\<lambda>c. \<not> controlByte c) (neutralizeDisplayName name)"
proof -
  let ?s = "fold collapse lineSeparators (map blankControl name)"
  have "set ?s \<subseteq> insert (CHR '' '') (blankControl ` set name)"
    using fold_collapse_bytes [of lineSeparators "map blankControl name"] separator_facts
    by (simp add: list_all_iff)
  then have "\<forall>c \<in> set ?s. \<not> controlByte c"
    by (auto simp: blankControl_def controlByte_def byteOf_def)
  moreover have "set (elide ?s) \<subseteq> set ?s \<union> set ellipsis"
    by (auto simp: elide_def dest: in_set_takeD)
  moreover have "\<forall>c \<in> set ellipsis. \<not> controlByte c"
    by (simp add: ellipsis_def controlByte_def byteOf_def)
  ultimately show ?thesis unfolding neutralize_collapse list_all_iff by blast
qed

lemma neutral_no_separator: "t \<in> set lineSeparators \<Longrightarrow> \<not> sublist t (neutralizeDisplayName name)"
  using fold_collapse_gone [of lineSeparators "{}" "map blankControl name"] separator_facts elide_free
  unfolding neutralize_collapse list_all_iff by (metis (no_types, lifting) UnI2 empty_iff)

text \<open>
  An untrusted document name, however crafted, comes out of the neutralisation with no
  control byte, hence no newline, with none of the Unicode line separators and
  bidirectional controls as a substring, and at most 131 bytes long.
\<close>
lemma neutralized_name_inert:
  "list_all (\<lambda>c. \<not> controlByte c) (neutralizeDisplayName name)
   \<and> list_all (\<lambda>t. \<not> sublist t (neutralizeDisplayName name)) lineSeparators
   \<and> length (neutralizeDisplayName name) \<le> 131"
proof (intro conjI)
  show "list_all (\<lambda>t. \<not> sublist t (neutralizeDisplayName name)) lineSeparators"
    by (simp add: list_all_iff neutral_no_separator)
  show "length (neutralizeDisplayName name) \<le> 131"
    using cutBack_le [of "fold collapse lineSeparators (map blankControl name)" kMaxBytes]
    by (auto simp: neutralize_collapse elide_def kMaxBytes_def ellipsis_def min_def)
qed (rule neutral_no_control)

text \<open>
  Neutralising a well-formed UTF-8 name gives well-formed UTF-8: no replacement and no
  elision splits a code point.
\<close>
lemma neutralized_name_utf8:
  assumes "utf8 name"
  shows "utf8 (neutralizeDisplayName name)"
  using assms by (simp add: neutralize_collapse utf8_elide utf8_fold separators_codePoints utf8_blank)

lemma fold_appendName:
  "out \<noteq> [] \<Longrightarrow>
     fold appendName ns out = out @ concat (map (\<lambda>n. CHR 0x0A # bullet @ neutralizeDisplayName n) ns)"
  by (induction ns arbitrary: out) (auto simp: appendName_def)

lemma neutral_no_newline [simp]: "count_list (neutralizeDisplayName n) (CHR 0x0A) = 0"
  using neutral_no_control [of n]
  by (auto simp: count_list_0_iff list_all_iff controlByte_def byteOf_def)

lemma bullet_no_newline [simp]: "count_list bullet (CHR 0x0A) = 0"
  by (simp add: bullet_def)

lemma bullet_nonempty [simp]: "bullet \<noteq> []"
  by (simp add: bullet_def)

lemma lines_newlines:
  "count_list (concat (map (\<lambda>n. CHR 0x0A # bullet @ neutralizeDisplayName n) ns)) (CHR 0x0A) = length ns"
  by (induction ns) (auto simp: count_list_append)

text \<open>
  The consent list has exactly one line per listed name, whatever bytes the names hold:
  a crafted name can neither forge a further line nor swallow one, and the lines shown and
  the names counted as omitted add up to the names of the batch.
\<close>
lemma consent_list_lines:
  assumes "names \<noteq> []"
  shows "count_list (block (formatUntrustedArtifactList names maxItems)) (CHR 0x0A) + 1
           + omitted (formatUntrustedArtifactList names maxItems) = length names"
proof -
  obtain n ns where names: "names = n # ns" using assms by (cases names) auto
  have "count_list (fold appendName (take (Suc k) names) []) (CHR 0x0A) = min k (length ns)" for k
    using fold_appendName [of "bullet @ neutralizeDisplayName n" "take k ns"]
    by (simp add: names appendName_def count_list_append lines_newlines min.commute)
  moreover obtain k where k: "(if maxItems = 0 then length names else min (length names) maxItems) = Suc k"
      and "k \<le> length ns"
    using names by (cases maxItems) auto
  moreover have "formatUntrustedArtifactList names maxItems
      = \<lparr>block = fold appendName (take (Suc k) names) [], omitted = length names - Suc k\<rparr>"
    unfolding formatUntrustedArtifactList_def Let_def k using assms by simp
  ultimately show ?thesis using names by simp
qed

end
