(* ===== verification/Prompt_Text.thy ===== *)
theory Prompt_Text
  imports Display_Names Prompter_Protocol
begin

text \<open>
  The words on a panel of \<^verbatim>\<open>prompter/PromptWindow.mm\<close>, with \<^verbatim>\<open>RequesterText.h\<close> and \<^verbatim>\<open>ArtifactText.h\<close>: titles,
  headings, the retry and reader lines, and the informative text in which the agent's own lines stand above
  the names a requesting application gave its documents. What such a name can do to the text is shown at
  the end.
\<close>

section \<open>Words\<close>

text \<open>
  The catalogue of the host bundle answers the string of a key, empty when it has none; a format puts
  its argument at the first place holder. A byte string is shown up to a zero byte, and not at all when
  it is not UTF-8.
\<close>

definition localized :: "(string \<Rightarrow> string) \<Rightarrow> string \<Rightarrow> string \<Rightarrow> string" where
  "localized catalogue key fallback = (if catalogue key \<noteq> [] then catalogue key else fallback)"

fun formatWith :: "string \<Rightarrow> string \<Rightarrow> string" where
  "formatWith (a # b # rest) arg =
     (if a = CHR ''%'' \<and> b = CHR ''@'' then arg @ rest else a # formatWith (b # rest) arg)"
| "formatWith fmt arg = fmt"

definition nsstr :: "(string \<Rightarrow> bool) \<Rightarrow> string \<Rightarrow> string option" where
  "nsstr utf8Ok s =
     (let t = takeWhile (\<lambda>c. c \<noteq> char_of (0 :: nat)) s in if utf8Ok t then Some t else None)"

definition shown :: "string option \<Rightarrow> string" where
  "shown s = (case s of None \<Rightarrow> ''(null)'' | Some t \<Rightarrow> t)"

definition orEmpty :: "string option \<Rightarrow> string" where
  "orEmpty s = (case s of None \<Rightarrow> [] | Some t \<Rightarrow> t)"

record catalogue =
  ct_words :: "string \<Rightarrow> string"
  ct_utf8 :: "string \<Rightarrow> bool"
  ct_interface :: "string \<Rightarrow> nat"

definition kTokenExtensionSigningId :: string where
  "kTokenExtensionSigningId = ''org.librescrs.LibreMac.LibreMacToken''"

definition wordingForRequester :: "string \<Rightarrow> (string \<times> string) option" where
  "wordingForRequester requester =
     (if requester = kTokenExtensionSigningId then Some (''prompter_requester_keychain'', ''%@ (Keychain)'') else None)"

definition requesterName :: "catalogue \<Rightarrow> string \<Rightarrow> string option" where
  "requesterName ct requester =
     (case wordingForRequester requester of
        Some (key, fallback) \<Rightarrow>
          Some (formatWith (localized (ct_words ct) key fallback) (orEmpty (nsstr (ct_utf8 ct) requester)))
      | None \<Rightarrow> nsstr (ct_utf8 ct) requester)"

definition operationForArtifact :: "string \<Rightarrow> (string \<times> string) option" where
  "operationForArtifact artifact =
     (if artifact = ''pkcs11'' then Some (''prompter_operation_pkcs11'', ''Cryptographic token operation'')
      else if artifact = ''pkcs11-derive''
      then Some (''prompter_operation_pkcs11_derive'', ''Key agreement with the card key'') else None)"

definition kErrorPreReadAuthFailed :: string where
  "kErrorPreReadAuthFailed = ''librescrs.error.preRead.authFailed''"

definition retryErrorLine :: "catalogue \<Rightarrow> u32 \<Rightarrow> string \<Rightarrow> string option" where
  "retryErrorLine ct attempt lastError =
     (if attempt = 0 then None
      else if lastError = []
      then Some (localized (ct_words ct) ''prompter_retry_generic'' ''The value you entered was not accepted. Please try again.'')
      else if lastError = kErrorPreReadAuthFailed
      then Some (localized (ct_words ct) kErrorPreReadAuthFailed ''Card authentication failed before reading could begin.'')
      else Some (localized (ct_words ct) ''prompter_retry_rejected'' ''Your previous entry was not accepted. Please try again.''))"

text \<open>The interface tokens are the agent library's: 1 is contact, 2 contactless, anything else unknown.\<close>

definition readerInterfaceWord :: "catalogue \<Rightarrow> string \<Rightarrow> string" where
  "readerInterfaceWord ct token =
     (if ct_interface ct token = 1 then localized (ct_words ct) ''prompter_reader_contact'' ''contact''
      else if ct_interface ct token = 2 then localized (ct_words ct) ''prompter_reader_contactless'' ''contactless''
      else [])"

definition readerInterfaceGlyph :: "catalogue \<Rightarrow> string \<Rightarrow> string" where
  "readerInterfaceGlyph ct token =
     (if ct_interface ct token = 1 then map char_of [240 :: nat, 159, 146, 179]
      else if ct_interface ct token = 2 then map char_of [240 :: nat, 159, 147, 182]
      else [])"

definition readerLine :: "catalogue \<Rightarrow> string \<Rightarrow> string \<Rightarrow> string option" where
  "readerLine ct model iface =
     (if model = [] then None
      else
        let line = formatWith (localized (ct_words ct) ''prompter_reader'' ''Reader: %@'') (orEmpty (nsstr (ct_utf8 ct) model));
            word = readerInterfaceWord ct iface
        in if word \<noteq> [] then Some (line @ '' '' @ readerInterfaceGlyph ct iface @ '' '' @ word) else Some line)"

definition newline :: string where
  "newline = [char_of (10 :: nat)]"

definition appendLine :: "string \<Rightarrow> string \<Rightarrow> string" where
  "appendLine info line = info @ (if info \<noteq> [] then newline else []) @ line"

definition informativeText ::
    "catalogue \<Rightarrow> string \<Rightarrow> string \<Rightarrow> string \<Rightarrow> string list \<Rightarrow> string option \<Rightarrow> string option \<Rightarrow> string" where
  "informativeText ct description requester artifact artifacts retryError reader =
     (let i0 = orEmpty retryError;
          i1 = (if description \<noteq> [] then appendLine i0 (shown (nsstr (ct_utf8 ct) description)) else i0);
          i2 = (if orEmpty reader \<noteq> [] then appendLine i1 (orEmpty reader) else i1);
          i3 = (if requester \<noteq> []
                then appendLine i2 (localized (ct_words ct) ''prompter_requested_by'' ''Requested by:'' @ '' ''
                       @ shown (requesterName ct requester))
                else i2)
      in if artifacts \<noteq> [] then
           (let listed = formatUntrustedArtifactList artifacts 8
            in if block listed \<noteq> [] then
                 appendLine i3 (localized (ct_words ct) ''prompter_batch_documents''
                     ''Documents (as named by the requesting app):'' @ newline @ shown (nsstr (ct_utf8 ct) (block listed)))
                   @ (if omitted listed > 0
                      then newline @ ''  '' @ formatWith (localized (ct_words ct) ''prompter_batch_more'' ''(+%@ more)'')
                             (showNat (omitted listed))
                      else [])
               else i3)
         else case operationForArtifact artifact of
                Some (key, fallback) \<Rightarrow>
                  appendLine i3 (localized (ct_words ct) ''prompter_operation'' ''Operation:'' @ '' ''
                    @ localized (ct_words ct) key fallback)
              | None \<Rightarrow>
                  if artifact \<noteq> []
                  then appendLine i3 (localized (ct_words ct) ''prompter_document'' ''Document:'' @ '' ''
                         @ shown (nsstr (ct_utf8 ct) artifact))
                  else i3)"

definition windowTitleForKind :: "catalogue \<Rightarrow> PromptKind \<Rightarrow> string" where
  "windowTitleForKind ct kind =
     (case kind of
        Can \<Rightarrow> localized (ct_words ct) ''prompter_title_can'' ''Card Access Number''
      | Mrz \<Rightarrow> localized (ct_words ct) ''prompter_title_mrz'' ''Machine-Readable Zone''
      | _ \<Rightarrow> localized (ct_words ct) ''prompter_title_pin'' ''PIN'')"

definition promptHeading :: "catalogue \<Rightarrow> PromptRequest \<Rightarrow> string" where
  "promptHeading ct req =
     (if pr_title req \<noteq> [] then orEmpty (nsstr (ct_utf8 ct) (pr_title req))
      else case pr_kind req of
             Can \<Rightarrow> localized (ct_words ct) ''prompter_heading_can'' ''Enter your Card Access Number (CAN)''
           | Mrz \<Rightarrow> localized (ct_words ct) ''prompter_heading_mrz'' ''Enter your Machine-Readable Zone (MRZ)''
           | _ \<Rightarrow> localized (ct_words ct) ''prompter_heading_pin'' ''Enter your PIN'')"

text \<open>The countdown, in whole seconds behind a stopwatch glyph.\<close>

definition formatRemaining :: "int \<Rightarrow> string" where
  "formatRemaining remaining =
     (let total = nat remaining; secs = total mod 60
      in map char_of [226 :: nat, 143, 177] @ '' '' @ showNat (total div 60) @ '':''
           @ (if secs < 10 then ''0'' else []) @ showNat secs)"

section \<open>What a document name can do\<close>

text \<open>One row per name, each behind a newline after the first.\<close>

definition nameRow :: "string \<Rightarrow> string" where
  "nameRow name = bullet @ neutralizeDisplayName name"

lemma newline_byte: "newline = [CHR 0x0A]"
  unfolding newline_def by (simp add: of_char_eq_iff [where 'a = nat, symmetric] del: of_char_eq_iff)

lemma zero_byte: "char_of (0 :: nat) = CHR 0x00"
  by (simp add: of_char_eq_iff [where 'a = nat, symmetric] del: of_char_eq_iff)

lemma artifact_rows:
  assumes "names \<noteq> []"
  shows "newline @ block (formatUntrustedArtifactList names 8) = concat (map (\<lambda>n. newline @ nameRow n) (take 8 names))"
    and "omitted (formatUntrustedArtifactList names 8) = length names - 8"
proof -
  obtain n ns where names: "names = n # ns" using assms by (cases names) auto
  have "take (min (length names) 8) names = n # take 7 ns" using names by (cases "length ns < 7") simp_all
  moreover have "fold appendName (n # take 7 ns) []
      = nameRow n @ concat (map (\<lambda>n. newline @ nameRow n) (take 7 ns))"
    using fold_appendName [of "nameRow n" "take 7 ns"] by (simp add: appendName_def nameRow_def newline_byte)
  ultimately show "newline @ block (formatUntrustedArtifactList names 8) = concat (map (\<lambda>n. newline @ nameRow n) (take 8 names))"
    using names by (simp add: formatUntrustedArtifactList_def Let_def)
  show "omitted (formatUntrustedArtifactList names 8) = length names - 8"
    using assms by (simp add: formatUntrustedArtifactList_def Let_def)
qed

lemma nameRow_no_control: "list_all (\<lambda>c. \<not> controlByte c) (nameRow name)"
  using neutral_no_control [of name] by (simp add: nameRow_def bullet_def controlByte_def byteOf_def)

lemma zero_control: "controlByte (char_of (0 :: nat))"
  by (simp add: controlByte_def byteOf_def)

lemma rows_shown:
  assumes "names \<noteq> []" and "ct_utf8 ct (block (formatUntrustedArtifactList names 8))"
  shows "newline @ shown (nsstr (ct_utf8 ct) (block (formatUntrustedArtifactList names 8)))
       = concat (map (\<lambda>n. newline @ nameRow n) (take 8 names))"
proof -
  let ?rows = "concat (map (\<lambda>n. newline @ nameRow n) (take 8 names))"
  have "char_of (0 :: nat) \<notin> set (nameRow n)" for n
    using nameRow_no_control [of n] zero_control by (auto simp: list_all_iff)
  then have "char_of (0 :: nat) \<notin> set ?rows" by (auto simp: newline_def)
  then have "char_of (0 :: nat) \<notin> set (block (formatUntrustedArtifactList names 8))"
    unfolding artifact_rows(1) [OF assms(1), symmetric] by simp
  then have whole: "takeWhile (\<lambda>c. c \<noteq> char_of (0 :: nat)) (block (formatUntrustedArtifactList names 8))
      = block (formatUntrustedArtifactList names 8)" by (auto simp: takeWhile_eq_all_conv)
  show ?thesis
    unfolding nsstr_def Let_def whole using assms(2) artifact_rows(1) [OF assms(1)] by (simp add: shown_def)
qed


text \<open>A batch of two, the first with a newline, a zero byte and a right-to-left override in its name.\<close>

definition demoBatch :: "string list" where
  "demoBatch = [''a.pdf'' @ [CHR 0x0A] @ ''Requested by: you'' @ [CHR 0x00, CHR 0xE2, CHR 0x80, CHR 0xAE], ''b.pdf'']"

definition plainCatalogue :: catalogue where
  "plainCatalogue = \<lparr>ct_words = (\<lambda>_. []), ct_utf8 = (\<lambda>_. True), ct_interface = (\<lambda>_. 0)\<rparr>"


end
