(* ===== verification/Prompt_Window.thy ===== *)
theory Prompt_Window
  imports Prompt_Text
begin

text \<open>
  \<^verbatim>\<open>prompter/PromptWindow.mm\<close>: the panels a person types a secret into; their words are in \<open>Prompt_Text\<close>. Several stand at once, in a registry ordered by prompt id and, under
  one id, by age. A panel is what it holds: its secure fields, the state of its OK button, its
  deadline, the answer and its semaphore. What the person, the clock and the other connections do is a
  step of the window, in any order; the worker that raised a panel takes its answer once the
  semaphore is signalled. Layout, fonts and window levels are left out.
\<close>

section \<open>Panels\<close>

text \<open>The bounds are 32-bit numbers of the wire; a length is compared with them as the number it is.\<close>

definition withinBounds :: "nat \<Rightarrow> u32 \<Rightarrow> u32 \<Rightarrow> bool" where
  "withinBounds len minLen maxLen \<longleftrightarrow> unat minLen \<le> len \<and> (maxLen = 0 \<or> len \<le> unat maxLen)"

record PanelState =
  ps_status :: PromptReplyStatus
  ps_primary :: bytes
  ps_secondary :: bytes
  ps_primaryMinLength :: u32
  ps_primaryMaxLength :: u32
  ps_newMinLength :: u32
  ps_newMaxLength :: u32

definition changeInputsAcceptable :: "PanelState \<Rightarrow> nat \<Rightarrow> nat \<Rightarrow> bool \<Rightarrow> bool" where
  "changeInputsAcceptable st currentLen newLen confirmMatchesNew \<longleftrightarrow>
     withinBounds currentLen (max (ps_primaryMinLength st) 1) (ps_primaryMaxLength st)
     \<and> withinBounds newLen (max (ps_newMinLength st) 1) (ps_newMaxLength st) \<and> confirmMatchesNew"

record panel =
  pl_changeFlow :: bool
  pl_primaryField :: bytes
  pl_newField :: bytes
  pl_confirmField :: bytes
  pl_okEnabled :: bool
  pl_deadlineTimer :: "u32 option"
  pl_countdownTimer :: bool
  pl_onScreen :: bool
  pl_finished :: bool
  pl_state :: PanelState
  pl_signalled :: nat

text \<open>What a field holds, as a C string: nothing after a zero byte.\<close>

definition readSecret :: "bytes \<Rightarrow> bytes" where
  "readSecret field = takeWhile (\<lambda>b. b \<noteq> 0) field"

definition refreshOkGate :: "panel \<Rightarrow> panel" where
  "refreshOkGate p =
     p\<lparr>pl_okEnabled :=
        (if \<not> pl_changeFlow p then length (pl_primaryField p) > 0
         else changeInputsAcceptable (pl_state p) (length (pl_primaryField p)) (length (pl_newField p))
                (pl_confirmField p = pl_newField p))\<rparr>"

definition newPanel :: "bool \<Rightarrow> PanelState \<Rightarrow> panel" where
  "newPanel change st =
     refreshOkGate
       \<lparr>pl_changeFlow = change, pl_primaryField = [], pl_newField = [], pl_confirmField = [], pl_okEnabled = False,
        pl_deadlineTimer = None, pl_countdownTimer = False, pl_onScreen = False, pl_finished = False,
        pl_state = st, pl_signalled = 0\<rparr>"

definition showWithDeadlineMs :: "u32 \<Rightarrow> panel \<Rightarrow> panel" where
  "showWithDeadlineMs deadlineMs p =
     (let p1 = (if deadlineMs \<noteq> 0 then p\<lparr>pl_deadlineTimer := Some deadlineMs, pl_countdownTimer := True\<rparr> else p)
      in p1\<lparr>pl_onScreen := True\<rparr>)"

definition controlTextDidChange :: "bytes \<Rightarrow> bytes \<Rightarrow> bytes \<Rightarrow> panel \<Rightarrow> panel" where
  "controlTextDidChange a b c p =
     refreshOkGate (p\<lparr>pl_primaryField := a, pl_newField := (if pl_changeFlow p then b else []),
                      pl_confirmField := (if pl_changeFlow p then c else [])\<rparr>)"

text \<open>The answer: the secrets are read only for an accepted entry, then every field is cleared.\<close>

definition answerPanel :: "PromptReplyStatus \<Rightarrow> panel \<Rightarrow> panel" where
  "answerPanel status p =
     (let st = pl_state p;
          st1 = (if status = StOk
                 then st\<lparr>ps_primary := readSecret (pl_primaryField p),
                         ps_secondary := (if pl_changeFlow p then readSecret (pl_newField p) else ps_secondary st)\<rparr>
                 else st)
      in p\<lparr>pl_finished := True, pl_state := st1\<lparr>ps_status := status\<rparr>, pl_primaryField := [], pl_newField := [],
           pl_confirmField := [], pl_deadlineTimer := None, pl_countdownTimer := False, pl_onScreen := False,
           pl_signalled := pl_signalled p + 1\<rparr>)"

section \<open>The registry\<close>

text \<open>A multimap: by key, and in order of insertion under one key. A panel is known by its number.\<close>

fun mm_emplace :: "string \<Rightarrow> nat \<Rightarrow> (string \<times> nat) list \<Rightarrow> (string \<times> nat) list" where
  "mm_emplace k v [] = [(k, v)]"
| "mm_emplace k v ((k', v') # m) = (if k < k' then (k, v) # (k', v') # m else (k', v') # mm_emplace k v m)"

record window =
  wi_panels :: "(string \<times> nat) list"
  wi_store :: "(nat, panel) smap"
  wi_next :: nat
  wi_answers :: "(nat \<times> PromptReplyStatus \<times> bytes \<times> bytes) list"

definition windowNew :: window where
  "windowNew = \<lparr>wi_panels = [], wi_store = [], wi_next = 0, wi_answers = []\<rparr>"

definition finishWithStatus :: "PromptReplyStatus \<Rightarrow> nat \<Rightarrow> window \<Rightarrow> window" where
  "finishWithStatus status n w =
     (case sm_find (wi_store w) n of
        None \<Rightarrow> w
      | Some p \<Rightarrow>
          if pl_finished p then w
          else w\<lparr>wi_store := sm_put n (answerPanel status p) (wi_store w),
                 wi_panels := filter (\<lambda>e. snd e \<noteq> n) (wi_panels w)\<rparr>)"

datatype Sweep = Everything | Addressed | Unaddressed

definition selects :: "Sweep \<Rightarrow> string \<Rightarrow> string \<Rightarrow> bool" where
  "selects sweep wanted promptId \<longleftrightarrow>
     (case sweep of
        Everything \<Rightarrow> True
      | Addressed \<Rightarrow> promptId = [] \<or> promptId = wanted
      | Unaddressed \<Rightarrow> promptId = [])"

definition sweepTargets :: "Sweep \<Rightarrow> string \<Rightarrow> (string \<times> nat) list \<Rightarrow> nat list" where
  "sweepTargets sweep wanted panels =
     (let targets = map snd (filter (\<lambda>e. selects sweep wanted (fst e)) panels)
      in if sweep = Unaddressed then take 1 targets else targets)"

definition finishPanels :: "Sweep \<Rightarrow> string \<Rightarrow> window \<Rightarrow> nat \<times> window" where
  "finishPanels sweep wanted w =
     (let targets = sweepTargets sweep wanted (wi_panels w)
      in (length targets, fold (finishWithStatus StCancelled) targets w))"

definition raisePanel :: "string \<Rightarrow> u32 \<Rightarrow> panel \<Rightarrow> window \<Rightarrow> window" where
  "raisePanel promptId deadlineMs p w =
     w\<lparr>wi_panels := mm_emplace promptId (wi_next w) (wi_panels w),
       wi_store := sm_put (wi_next w) (showWithDeadlineMs deadlineMs p) (wi_store w),
       wi_next := wi_next w + 1\<rparr>"

definition freshState :: PanelState where
  "freshState = \<lparr>ps_status = StCancelled, ps_primary = [], ps_secondary = [], ps_primaryMinLength = 0,
     ps_primaryMaxLength = 0, ps_newMinLength = 0, ps_newMaxLength = 0\<rparr>"

text \<open>
  A prompt is refused on the main thread, whose run loop would have to answer it; otherwise a panel is
  raised and the caller waits. The refusal is the reply; a raised panel is answered later.
\<close>

definition showPrompt :: "bool \<Rightarrow> PromptRequest \<Rightarrow> window \<Rightarrow> PromptReply option \<times> window" where
  "showPrompt onMain req w =
     (if onMain
      then (Some \<lparr>re_status = StError, re_secret = [], re_userMessage = ''prompt requested on the main thread'',
                  re_protocolVersion = None\<rparr>, w)
      else (None, raisePanel (pr_promptId req) (pr_deadlineMs req) (newPanel False freshState) w))"

definition showChangePrompt ::
    "string \<Rightarrow> bool \<Rightarrow> RequestSecrets \<Rightarrow> window \<Rightarrow> MultiPromptReply option \<times> window" where
  "showChangePrompt kKindChangePin onMain req w =
     (if rs_kind req \<noteq> kKindChangePin
      then (Some \<lparr>mr_status = StError, mr_primary = [], mr_secondary = [],
                  mr_userMessage = ''unsupported RequestSecrets kind'', mr_protocolVersion = None\<rparr>, w)
      else if onMain
      then (Some \<lparr>mr_status = StError, mr_primary = [], mr_secondary = [],
                  mr_userMessage = ''prompt requested on the main thread'', mr_protocolVersion = None\<rparr>, w)
      else (None, raisePanel (rs_promptId req) (rs_deadlineMs req)
              (refreshOkGate (newPanel True
                (freshState\<lparr>ps_primaryMinLength := rs_primaryMinLength req, ps_primaryMaxLength := rs_primaryMaxLength req,
                   ps_newMinLength := rs_newMinLength req, ps_newMaxLength := rs_newMaxLength req\<rparr>))) w))"

text \<open>The waiting worker, once signalled, moves the answer out of the panel.\<close>

definition takeAnswer :: "nat \<Rightarrow> window \<Rightarrow> window" where
  "takeAnswer n w =
     (case sm_find (wi_store w) n of
        None \<Rightarrow> w
      | Some p \<Rightarrow>
          if pl_signalled p = 0 then w
          else w\<lparr>wi_answers := wi_answers w @ [(n, ps_status (pl_state p), ps_primary (pl_state p), ps_secondary (pl_state p))],
                 wi_store := sm_put n (p\<lparr>pl_signalled := pl_signalled p - 1,
                   pl_state := (pl_state p)\<lparr>ps_primary := [], ps_secondary := []\<rparr>\<rparr>) (wi_store w)\<rparr>)"

definition dismiss :: "string \<Rightarrow> window \<Rightarrow> window" where
  "dismiss promptId w = snd (finishPanels (if promptId = [] then Unaddressed else Addressed) promptId w)"

definition dismissAll :: "window \<Rightarrow> nat \<times> window" where
  "dismissAll w = finishPanels Everything [] w"

definition liveIds :: "window \<Rightarrow> string list" where
  "liveIds w = map fst (wi_panels w)"

definition editFields :: "nat \<Rightarrow> bytes \<Rightarrow> bytes \<Rightarrow> bytes \<Rightarrow> window \<Rightarrow> window" where
  "editFields n a b c w =
     (case sm_find (wi_store w) n of
        None \<Rightarrow> w
      | Some p \<Rightarrow> w\<lparr>wi_store := sm_put n (controlTextDidChange a b c p) (wi_store w)\<rparr>)"

text \<open>
  The steps. The OK button answers only while it is enabled, which the toolkit sees to, and the deadline
  only while its timer is armed; the person cancels with the button, the Escape key or the close box.
\<close>

inductive windowStep :: "string \<Rightarrow> window \<Rightarrow> window \<Rightarrow> bool" for kKindChangePin where
  wi_prompt: "windowStep kKindChangePin w (snd (showPrompt onMain req w))"
| wi_change: "windowStep kKindChangePin w (snd (showChangePrompt kKindChangePin onMain creq w))"
| wi_edit: "sm_find (wi_store w) n = Some p \<Longrightarrow> pl_onScreen p \<Longrightarrow> windowStep kKindChangePin w (editFields n a b c w)"
| wi_ok: "sm_find (wi_store w) n = Some p \<Longrightarrow> pl_onScreen p \<Longrightarrow> pl_okEnabled p
    \<Longrightarrow> windowStep kKindChangePin w (finishWithStatus StOk n w)"
| wi_cancel: "sm_find (wi_store w) n = Some p \<Longrightarrow> pl_onScreen p
    \<Longrightarrow> windowStep kKindChangePin w (finishWithStatus StCancelled n w)"
| wi_deadline: "sm_find (wi_store w) n = Some p \<Longrightarrow> pl_deadlineTimer p \<noteq> None
    \<Longrightarrow> windowStep kKindChangePin w (finishWithStatus StTimeout n w)"
| wi_dismiss: "windowStep kKindChangePin w (dismiss promptId w)"
| wi_dismissAll: "windowStep kKindChangePin w (snd (dismissAll w))"
| wi_take: "windowStep kKindChangePin w (takeAnswer n w)"

section \<open>The device owner\<close>

text \<open>
  \<^verbatim>\<open>prompter/ConfirmAuthorizer.mm\<close>: a trust change is put to the device owner by the platform, not in a panel.
  The platform answers whether it can ask at all, with its description when not, and then how the
  question ended.
\<close>

datatype la_answer = LaSuccess | LaFailure bool "string option"

definition toStdString :: "string option \<Rightarrow> string \<Rightarrow> string" where
  "toStdString s fallback = (case s of Some t \<Rightarrow> t | None \<Rightarrow> fallback)"

definition confirmReason :: "catalogue \<Rightarrow> ConfirmAction \<Rightarrow> string" where
  "confirmReason ct req =
     localized (ct_words ct) (ca_descriptionKey req) (shown (nsstr (ct_utf8 ct) (ca_description req))) @ '' ''
     @ formatWith (localized (ct_words ct) ''prompter_confirm_requested_by''
         (''(requested by '' @ map char_of [226 :: nat, 128, 156] @ ''%@'' @ map char_of [226 :: nat, 128, 157] @ '')''))
         (orEmpty (requesterName ct (ca_requester req)))"

definition confirmWithDeviceOwner ::
    "string option option \<Rightarrow> (string \<Rightarrow> la_answer) \<Rightarrow> catalogue \<Rightarrow> ConfirmAction \<Rightarrow> ConfirmReply" where
  "confirmWithDeviceOwner unavailable evaluate ct req =
     (case unavailable of
        Some description \<Rightarrow>
          \<lparr>cr_status = StError, cr_userMessage = toStdString description ''authentication unavailable'', cr_protocolVersion = None\<rparr>
      | None \<Rightarrow>
          (case evaluate (confirmReason ct req) of
             LaSuccess \<Rightarrow> \<lparr>cr_status = StOk, cr_userMessage = [], cr_protocolVersion = None\<rparr>
           | LaFailure cancelled description \<Rightarrow>
               \<lparr>cr_status = (if cancelled then StCancelled else StError), cr_userMessage = toStdString description [],
                cr_protocolVersion = None\<rparr>))"

text \<open>The one way to an approval is a device owner who authenticated to the sentence that names the change.\<close>

lemma approval_is_authentication:
  "cr_status (confirmWithDeviceOwner unavailable evaluate ct req) = StOk
     \<longleftrightarrow> unavailable = None \<and> evaluate (confirmReason ct req) = LaSuccess"
  by (simp add: confirmWithDeviceOwner_def split: option.split la_answer.split)

section \<open>The window invariant\<close>

text \<open>
  An accepted entry: what was typed passed the gate of its panel, and the answer is what was typed. In
  the change flow the new PIN was typed twice alike.
\<close>

definition accepted :: "panel \<Rightarrow> bytes \<Rightarrow> bytes \<Rightarrow> bool" where
  "accepted p a b \<longleftrightarrow>
     (if pl_changeFlow p
      then \<exists>x y. changeInputsAcceptable (pl_state p) (length x) (length y) True \<and> a = readSecret x \<and> b = readSecret y
      else (\<exists>x. x \<noteq> [] \<and> a = readSecret x) \<and> b = [])"

definition answerOk :: "panel \<Rightarrow> PromptReplyStatus \<Rightarrow> bytes \<Rightarrow> bytes \<Rightarrow> bool" where
  "answerOk p status a b \<longleftrightarrow> (if status = StOk then accepted p a b else a = [] \<and> b = [])"

definition cleared :: "panel \<Rightarrow> bool" where
  "cleared p \<longleftrightarrow> pl_primaryField p = [] \<and> pl_newField p = [] \<and> pl_confirmField p = [] \<and> pl_deadlineTimer p = None
     \<and> \<not> pl_countdownTimer p \<and> \<not> pl_onScreen p"

definition noSecrets :: "panel \<Rightarrow> bool" where
  "noSecrets p \<longleftrightarrow> ps_primary (pl_state p) = [] \<and> ps_secondary (pl_state p) = []"

definition panelOk :: "panel \<Rightarrow> bool" where
  "panelOk p \<longleftrightarrow>
     (if pl_finished p
      then cleared p \<and> (if pl_signalled p = 0 then noSecrets p
                        else answerOk p (ps_status (pl_state p)) (ps_primary (pl_state p)) (ps_secondary (pl_state p)))
      else pl_signalled p = 0 \<and> noSecrets p \<and> pl_onScreen p \<and> pl_okEnabled p = pl_okEnabled (refreshOkGate p))"

definition account :: "nat \<Rightarrow> window \<Rightarrow> nat" where
  "account n w =
     length (filter (\<lambda>e. fst e = n) (wi_answers w))
     + (case sm_find (wi_store w) n of None \<Rightarrow> 0 | Some p \<Rightarrow> pl_signalled p + (if pl_finished p then 0 else 1))"

definition windowOk :: "window \<Rightarrow> bool" where
  "windowOk w \<longleftrightarrow>
     (\<forall>n. sm_find (wi_store w) n = None \<longleftrightarrow> wi_next w \<le> n)
     \<and> (\<forall>n p. sm_find (wi_store w) n = Some p \<longrightarrow> panelOk p)
     \<and> (\<forall>n < wi_next w. account n w = 1)
     \<and> distinct (map snd (wi_panels w))
     \<and> (\<forall>n. n \<in> snd ` set (wi_panels w) \<longleftrightarrow> (\<exists>p. sm_find (wi_store w) n = Some p \<and> \<not> pl_finished p))
     \<and> (\<forall>n s a b. (n, s, a, b) \<in> set (wi_answers w) \<longrightarrow> (\<exists>p. sm_find (wi_store w) n = Some p \<and> answerOk p s a b))"

lemma refreshOkGate_fields [simp]:
  "pl_changeFlow (refreshOkGate p) = pl_changeFlow p" "pl_state (refreshOkGate p) = pl_state p"
  "pl_finished (refreshOkGate p) = pl_finished p" "pl_signalled (refreshOkGate p) = pl_signalled p"
  "pl_onScreen (refreshOkGate p) = pl_onScreen p" "pl_primaryField (refreshOkGate p) = pl_primaryField p"
  "pl_newField (refreshOkGate p) = pl_newField p" "pl_confirmField (refreshOkGate p) = pl_confirmField p"
  "pl_okEnabled (refreshOkGate (refreshOkGate p)) = pl_okEnabled (refreshOkGate p)"
  by (simp_all add: refreshOkGate_def)

lemma answerOk_cong:
  assumes "pl_changeFlow q = pl_changeFlow p"
    and "\<And>x y m. changeInputsAcceptable (pl_state q) x y m = changeInputsAcceptable (pl_state p) x y m"
  shows "answerOk q = answerOk p"
  using assms by (intro ext) (simp add: answerOk_def accepted_def)

lemma acceptable_bounds [simp]:
  "changeInputsAcceptable (st\<lparr>ps_status := s\<rparr>) x y m = changeInputsAcceptable st x y m"
  "changeInputsAcceptable (st\<lparr>ps_primary := a\<rparr>) x y m = changeInputsAcceptable st x y m"
  "changeInputsAcceptable (st\<lparr>ps_secondary := b\<rparr>) x y m = changeInputsAcceptable st x y m"
  by (simp_all add: changeInputsAcceptable_def)

lemma acceptable_confirm: "changeInputsAcceptable st x y m \<Longrightarrow> changeInputsAcceptable st x y True"
  by (simp add: changeInputsAcceptable_def)

lemma panelOk_answer:
  assumes "panelOk p" and "\<not> pl_finished p" and "status = StOk \<Longrightarrow> pl_okEnabled p"
  shows "panelOk (answerPanel status p) \<and> answerOk (answerPanel status p) = answerOk p"
proof -
  have same: "answerOk (answerPanel status p) = answerOk p"
    by (rule answerOk_cong) (simp_all add: answerPanel_def Let_def)
  have gate: "status = StOk \<Longrightarrow> pl_okEnabled (refreshOkGate p)" and sec: "noSecrets p"
    using assms by (simp_all add: panelOk_def)
  have "answerOk p status (if status = StOk then readSecret (pl_primaryField p) else [])
      (if status = StOk \<and> pl_changeFlow p then readSecret (pl_newField p) else [])"
  proof (cases "status = StOk \<and> pl_changeFlow p")
    case True
    then have "changeInputsAcceptable (pl_state p) (length (pl_primaryField p)) (length (pl_newField p)) True"
      using gate acceptable_confirm by (auto simp: refreshOkGate_def)
    with True show ?thesis by (auto simp: answerOk_def accepted_def)
  next
    case False
    then show ?thesis using gate by (auto simp: answerOk_def accepted_def refreshOkGate_def)
  qed
  then show ?thesis
    using sec same by (auto simp: panelOk_def cleared_def answerPanel_def Let_def noSecrets_def)
qed

lemma windowOk_answer:
  "windowOk w \<Longrightarrow> (n, s, a, b) \<in> set (wi_answers w) \<Longrightarrow> \<exists>p. sm_find (wi_store w) n = Some p \<and> answerOk p s a b"
  by (simp add: windowOk_def)

text \<open>Replacing one panel by another of the same flow, with the books kept.\<close>

lemma windowOk_replace:
  assumes ok: "windowOk w" and p: "sm_find (wi_store w) n = Some p" and q: "panelOk q" "answerOk q = answerOk p"
    and v: "wi_store v = sm_put n q (wi_store w)" "wi_next v = wi_next w"
    and books: "account n v = 1" "\<And>m. m \<noteq> n \<Longrightarrow> account m v = account m w"
    and panels: "distinct (map snd (wi_panels v))"
      "\<And>m. m \<in> snd ` set (wi_panels v) \<longleftrightarrow> (if m = n then \<not> pl_finished q else m \<in> snd ` set (wi_panels w))"
    and answers: "\<And>m s a b. (m, s, a, b) \<in> set (wi_answers v)
      \<Longrightarrow> (m, s, a, b) \<in> set (wi_answers w) \<or> m = n \<and> answerOk p s a b"
  shows "windowOk v"
  unfolding windowOk_def
proof (intro conjI allI impI)
  have "n < wi_next w" using ok p unfolding windowOk_def by (metis not_le option.distinct(1))
  then show "sm_find (wi_store v) m = None \<longleftrightarrow> wi_next v \<le> m" for m
    using ok by (auto simp: windowOk_def v)
  show "panelOk r" if "sm_find (wi_store v) m = Some r" for m r
    using that ok q by (auto simp: windowOk_def v split: if_splits)
  show "account m v = 1" if "m < wi_next v" for m
    using that ok books by (cases "m = n") (auto simp: windowOk_def v)
  show "distinct (map snd (wi_panels v))" by (rule panels)
  show "m \<in> snd ` set (wi_panels v) \<longleftrightarrow> (\<exists>r. sm_find (wi_store v) m = Some r \<and> \<not> pl_finished r)" for m
    using ok panels(2) [of m] by (simp add: windowOk_def v)
  show "\<exists>r. sm_find (wi_store v) m = Some r \<and> answerOk r s a b" if "(m, s, a, b) \<in> set (wi_answers v)" for m s a b
    using answers [OF that]
  proof
    assume "(m, s, a, b) \<in> set (wi_answers w)"
    then obtain r where r: "sm_find (wi_store w) m = Some r" "answerOk r s a b" 
      using windowOk_answer [OF ok] by blast
    then show ?thesis using p q(2) by (cases "m = n") (simp_all add: v)
  qed (use q(2) in \<open>simp add: v\<close>)
qed

lemma windowOk_panel: "windowOk w \<Longrightarrow> sm_find (wi_store w) n = Some p \<Longrightarrow> panelOk p \<and> account n w = 1"
  unfolding windowOk_def by (metis not_le option.distinct(1))

lemma distinct_filter_snd: "distinct (map snd xs) \<Longrightarrow> distinct (map snd (filter P xs))"
  by (simp add: distinct_map_filter)

lemma windowOk_finish [inv_intros]:
  assumes ok: "windowOk w" and gate: "\<And>p. status = StOk \<Longrightarrow> sm_find (wi_store w) n = Some p \<Longrightarrow> pl_okEnabled p"
  shows "windowOk (finishWithStatus status n w)"
proof (cases "sm_find (wi_store w) n")
  case None
  then show ?thesis using ok by (simp add: finishWithStatus_def)
next
  case (Some p)
  show ?thesis
  proof (cases "pl_finished p")
    case True
    then show ?thesis using ok Some by (simp add: finishWithStatus_def)
  next
    case False
    let ?v = "finishWithStatus status n w"
    have v: "?v = w\<lparr>wi_store := sm_put n (answerPanel status p) (wi_store w), wi_panels := filter (\<lambda>e. snd e \<noteq> n) (wi_panels w)\<rparr>"
      using Some False by (simp add: finishWithStatus_def)
    have p: "panelOk p" "account n w = 1" using windowOk_panel [OF ok Some] by simp_all
    have q: "panelOk (answerPanel status p)" "answerOk (answerPanel status p) = answerOk p"
      using panelOk_answer [OF p(1) False] gate Some by blast+
    have fin: "pl_finished (answerPanel status p)" "pl_signalled (answerPanel status p) = pl_signalled p + 1"
      by (simp_all add: answerPanel_def Let_def)
    show ?thesis
    proof (rule windowOk_replace [OF ok Some q])
      show "account n ?v = 1" using p(2) Some False fin by (simp add: account_def v)
      show "distinct (map snd (wi_panels ?v))" using ok by (simp add: v windowOk_def distinct_filter_snd)
      show "m \<in> snd ` set (wi_panels ?v) \<longleftrightarrow>
          (if m = n then \<not> pl_finished (answerPanel status p) else m \<in> snd ` set (wi_panels w))" for m
        using fin by (auto simp: v)
    qed (simp_all add: v account_def)
  qed
qed

lemma windowOk_cancel: "windowOk w \<Longrightarrow> windowOk (finishWithStatus StCancelled n w)"
  by (rule windowOk_finish) simp_all

lemma windowOk_sweep: "windowOk w \<Longrightarrow> windowOk (fold (finishWithStatus StCancelled) targets w)"
  by (induction targets arbitrary: w) (simp_all add: windowOk_cancel)

lemma windowOk_dismiss [inv_intros]: "windowOk w \<Longrightarrow> windowOk (dismiss promptId w)" "windowOk w \<Longrightarrow> windowOk (snd (dismissAll w))"
  by (simp_all add: dismiss_def dismissAll_def finishPanels_def Let_def windowOk_sweep)

lemma windowOk_edit [inv_intros]:
  assumes ok: "windowOk w" and p: "sm_find (wi_store w) n = Some p" and "pl_onScreen p"
  shows "windowOk (editFields n a b c w)"
proof -
  let ?q = "controlTextDidChange a b c p"
  have pk: "panelOk p" "account n w = 1" using windowOk_panel [OF ok p] by simp_all
  have unfinished: "\<not> pl_finished p" using pk(1) assms(3) by (auto simp: panelOk_def cleared_def split: if_splits)
  have q: "pl_finished ?q = pl_finished p" "pl_signalled ?q = pl_signalled p" "panelOk ?q"
    using pk(1) unfinished by (auto simp: controlTextDidChange_def panelOk_def noSecrets_def)
  have same: "answerOk ?q = answerOk p" by (rule answerOk_cong) (simp_all add: controlTextDidChange_def)
  have v: "editFields n a b c w = w\<lparr>wi_store := sm_put n ?q (wi_store w)\<rparr>" by (simp add: editFields_def p)
  show ?thesis
    by (rule windowOk_replace [OF ok p q(3) same])
      (use ok pk(2) p q unfinished in \<open>auto simp: v account_def windowOk_def\<close>)
qed

lemma windowOk_take [inv_intros]:
  assumes ok: "windowOk w"
  shows "windowOk (takeAnswer n w)"
proof (cases "\<exists>p. sm_find (wi_store w) n = Some p \<and> pl_signalled p \<noteq> 0")
  case False
  then have "takeAnswer n w = w" by (auto simp: takeAnswer_def split: option.split)
  then show ?thesis using ok by simp
next
  case True
  then obtain p where p: "sm_find (wi_store w) n = Some p" "pl_signalled p \<noteq> 0" by blast
  let ?q = "p\<lparr>pl_signalled := pl_signalled p - 1, pl_state := (pl_state p)\<lparr>ps_primary := [], ps_secondary := []\<rparr>\<rparr>"
  have pk: "panelOk p" "account n w = 1" using windowOk_panel [OF ok p(1)] by simp_all
  have fin: "pl_finished p" using pk(1) p(2) by (auto simp: panelOk_def split: if_splits)
  then have "length (filter (\<lambda>e. fst e = n) (wi_answers w)) + pl_signalled p = 1"
    using pk(2) p by (simp add: account_def)
  then have "pl_signalled p = 1 \<and> length (filter (\<lambda>e. fst e = n) (wi_answers w)) = 0" using p(2) by linarith
  then have one: "pl_signalled p = 1" "filter (\<lambda>e. fst e = n) (wi_answers w) = []" by simp_all
  have q: "panelOk ?q" using pk(1) fin one(1) by (simp add: panelOk_def noSecrets_def cleared_def)
  have same: "answerOk ?q = answerOk p" by (rule answerOk_cong) simp_all
  have ans: "answerOk p (ps_status (pl_state p)) (ps_primary (pl_state p)) (ps_secondary (pl_state p))"
    using pk(1) fin one(1) by (simp add: panelOk_def)
  show ?thesis
    by (rule windowOk_replace [OF ok p(1) q same])
      (use ok p fin one ans in \<open>auto simp: takeAnswer_def account_def windowOk_def\<close>)
qed

lemma mm_emplace_set: "set (mm_emplace k v m) = insert (k, v) (set m)"
  by (induction k v m rule: mm_emplace.induct) auto

lemma mm_emplace_distinct: "v \<notin> snd ` set m \<Longrightarrow> distinct (map snd m) \<Longrightarrow> distinct (map snd (mm_emplace k v m))"
  by (induction k v m rule: mm_emplace.induct) (auto simp: mm_emplace_set image_iff)

lemma showWithDeadline_fields [simp]:
  "pl_finished (showWithDeadlineMs d p) = pl_finished p" "pl_signalled (showWithDeadlineMs d p) = pl_signalled p"
  "pl_onScreen (showWithDeadlineMs d p)" "pl_state (showWithDeadlineMs d p) = pl_state p"
  "pl_okEnabled (showWithDeadlineMs d p) = pl_okEnabled p"
  "pl_okEnabled (refreshOkGate (showWithDeadlineMs d p)) = pl_okEnabled (refreshOkGate p)"
  by (simp_all add: showWithDeadlineMs_def refreshOkGate_def Let_def)

lemma windowOk_live:
  "windowOk w \<Longrightarrow> n \<in> snd ` set (wi_panels w) \<longleftrightarrow> (\<exists>p. sm_find (wi_store w) n = Some p \<and> \<not> pl_finished p)"
  by (simp add: windowOk_def)

definition raisable :: "panel \<Rightarrow> bool" where
  "raisable p \<longleftrightarrow> \<not> pl_finished p \<and> pl_signalled p = 0 \<and> noSecrets p \<and> pl_okEnabled p = pl_okEnabled (refreshOkGate p)"

lemma windowOk_raise:
  assumes ok: "windowOk w" and p: "raisable p"
  shows "windowOk (raisePanel promptId d p w)"
proof -
  let ?v = "raisePanel promptId d p w" and ?q = "showWithDeadlineMs d p"
  have v: "wi_store ?v = sm_put (wi_next w) ?q (wi_store w)" "wi_next ?v = wi_next w + 1" "wi_answers ?v = wi_answers w"
    "wi_panels ?v = mm_emplace promptId (wi_next w) (wi_panels w)"
    by (simp_all add: raisePanel_def)
  have none: "sm_find (wi_store w) (wi_next w) = None" using ok by (simp add: windowOk_def)
  have fresh: "wi_next w \<notin> snd ` set (wi_panels w)" using windowOk_live [OF ok] none by simp
  have unanswered: "fst e \<noteq> wi_next w" if "e \<in> set (wi_answers w)" for e
    using windowOk_answer [OF ok] that none by (cases e) fastforce
  have q: "panelOk ?q" using p by (simp add: panelOk_def raisable_def noSecrets_def)
  show ?thesis
    unfolding windowOk_def
  proof (intro conjI allI impI)
    show "sm_find (wi_store ?v) n = None \<longleftrightarrow> wi_next ?v \<le> n" for n
      using ok by (auto simp: windowOk_def v)
    show "panelOk r" if "sm_find (wi_store ?v) n = Some r" for n r
      using that ok q by (auto simp: windowOk_def v split: if_splits)
    show "account n ?v = 1" if "n < wi_next ?v" for n
    proof (cases "n = wi_next w")
      case True
      then show ?thesis using unanswered p by (auto simp: account_def v raisable_def filter_empty_conv)
    next
      case False
      then have "account n ?v = account n w" by (simp add: account_def v)
      with False that ok show ?thesis by (simp add: windowOk_def v)
    qed
    show "distinct (map snd (wi_panels ?v))"
      using ok fresh by (simp add: v windowOk_def mm_emplace_distinct)
    show "n \<in> snd ` set (wi_panels ?v) \<longleftrightarrow> (\<exists>r. sm_find (wi_store ?v) n = Some r \<and> \<not> pl_finished r)" for n
      using ok p by (auto simp: windowOk_def v mm_emplace_set raisable_def)
    show "\<exists>r. sm_find (wi_store ?v) n = Some r \<and> answerOk r s a b" if "(n, s, a, b) \<in> set (wi_answers ?v)" for n s a b
    proof -
      have "(n, s, a, b) \<in> set (wi_answers w)" using that by (simp add: v)
      with windowOk_answer [OF ok this] unanswered [OF this] show ?thesis by (auto simp: v)
    qed
  qed
qed

lemma raisable_new [simp]: "ps_primary st = [] \<Longrightarrow> ps_secondary st = [] \<Longrightarrow> raisable (newPanel change st)"
  by (simp add: raisable_def newPanel_def noSecrets_def)

lemma raisable_refresh: "raisable p \<Longrightarrow> raisable (refreshOkGate p)"
  by (simp add: raisable_def noSecrets_def)

lemma windowOk_show [inv_intros]:
  "windowOk w \<Longrightarrow> windowOk (snd (showPrompt onMain req w))"
  "windowOk w \<Longrightarrow> windowOk (snd (showChangePrompt kind onMain creq w))"
  by (simp_all add: showPrompt_def showChangePrompt_def windowOk_raise raisable_refresh freshState_def)

text \<open>Under one prompt id the registry is in order of age.\<close>

definition older :: "string \<times> nat \<Rightarrow> string \<times> nat \<Rightarrow> bool" where
  "older x y \<longleftrightarrow> fst x < fst y \<or> fst x = fst y \<and> snd x < snd y"

definition ageOrdered :: "window \<Rightarrow> bool" where
  "ageOrdered w \<longleftrightarrow> sorted_wrt older (wi_panels w) \<and> (\<forall>e \<in> set (wi_panels w). snd e < wi_next w)"

lemma mm_emplace_older:
  "sorted_wrt older m \<Longrightarrow> \<forall>e \<in> set m. snd e < v \<Longrightarrow> sorted_wrt older (mm_emplace k v m)"
proof (induction k v m rule: mm_emplace.induct)
  case (2 k v k' v' m)
  then show ?case by (auto simp: older_def mm_emplace_set dest: less_trans)
qed simp

lemma ageOrdered_finish [simp]: "ageOrdered w \<Longrightarrow> ageOrdered (finishWithStatus status n w)"
  by (auto simp: ageOrdered_def finishWithStatus_def sorted_wrt_filter split: option.split)

lemma ageOrdered_sweep [simp]: "ageOrdered w \<Longrightarrow> ageOrdered (fold (finishWithStatus status) targets w)"
  by (induction targets arbitrary: w) simp_all

lemma ageOrdered_step:
  assumes "windowStep kind w v" and "ageOrdered w"
  shows "ageOrdered v"
  using assms
proof (induction rule: windowStep.induct)
  case (wi_prompt w onMain req)
  then show ?case
    by (auto simp: showPrompt_def raisePanel_def ageOrdered_def mm_emplace_older mm_emplace_set less_Suc_eq)
next
  case (wi_change w onMain creq)
  then show ?case
    by (auto simp: showChangePrompt_def raisePanel_def ageOrdered_def mm_emplace_older mm_emplace_set less_Suc_eq)
next
  case (wi_edit w n p a b c)
  then show ?case by (simp add: editFields_def ageOrdered_def)
next
  case (wi_take w n)
  then show ?case by (auto simp: takeAnswer_def ageOrdered_def split: option.split)
qed (simp_all add: dismiss_def dismissAll_def finishPanels_def Let_def)

interpretation window_system: invariant_system "\<lambda>w. w = windowNew" "windowStep kind" "\<lambda>w. windowOk w \<and> ageOrdered w" for kind
proof
  show "windowOk w \<and> ageOrdered w" if "w = windowNew" for w
    using that by (simp add: windowNew_def windowOk_def ageOrdered_def)
  show "windowOk v \<and> ageOrdered v" if "windowOk w \<and> ageOrdered w" "windowStep kind w v" for w v
  proof
    show "ageOrdered v" using ageOrdered_step that by blast
    show "windowOk v" using that(2) conjunct1 [OF that(1)]
      by (induction rule: windowStep.induct) (auto intro: inv_intros)
  qed
qed

section \<open>Properties\<close>

lemma window_reach: "reach (\<lambda>w. w = windowNew) (windowStep kind) w \<Longrightarrow> windowOk w \<and> ageOrdered w"
  by (rule window_system.reach_inv)

text \<open>
  C21: every panel answers its caller exactly once. In every run a panel is in one of three states: it
  stands, listed and on screen, and nobody was told anything; or it has signalled its caller once; or
  the caller took its one answer. A panel that answered, whoever closed it, is off the screen with
  every field empty and both timers stopped.
\<close>
theorem prompt_answered_once:
  assumes "reach (\<lambda>w. w = windowNew) (windowStep kind) w" and "sm_find (wi_store w) n = Some p"
  shows "((n \<in> snd ` set (wi_panels w) \<and> pl_onScreen p \<and> pl_signalled p = 0 \<and> filter (\<lambda>e. fst e = n) (wi_answers w) = [])
       \<or> (n \<notin> snd ` set (wi_panels w) \<and> cleared p \<and> pl_signalled p = 1 \<and> filter (\<lambda>e. fst e = n) (wi_answers w) = [])
       \<or> (n \<notin> snd ` set (wi_panels w) \<and> cleared p \<and> pl_signalled p = 0
            \<and> length (filter (\<lambda>e. fst e = n) (wi_answers w)) = 1 \<and> noSecrets p))"
proof -
  have ok: "windowOk w" using window_reach [OF assms(1)] by simp
  have p: "panelOk p" "account n w = 1" using windowOk_panel [OF ok assms(2)] by simp_all
  have live: "n \<in> snd ` set (wi_panels w) \<longleftrightarrow> \<not> pl_finished p" using windowOk_live [OF ok] assms(2) by simp
  show ?thesis
  proof (cases "pl_finished p")
    case True
    then have "length (filter (\<lambda>e. fst e = n) (wi_answers w)) + pl_signalled p = 1"
      using p(2) assms(2) by (simp add: account_def)
    then have "pl_signalled p = 1 \<and> length (filter (\<lambda>e. fst e = n) (wi_answers w)) = 0
        \<or> pl_signalled p = 0 \<and> length (filter (\<lambda>e. fst e = n) (wi_answers w)) = 1" by linarith
    with True p(1) live show ?thesis by (auto simp: panelOk_def)
  next
    case False
    then have "length (filter (\<lambda>e. fst e = n) (wi_answers w)) = 0" "pl_signalled p = 0"
      using p assms(2) by (simp_all add: account_def panelOk_def)
    with False p(1) live show ?thesis by (simp add: panelOk_def)
  qed
qed

text \<open>
  A secret leaves a panel only as an accepted entry. An answer that is not OK carries none; an OK
  answer carries what was typed when the gate was open: something, for a single secret, and for a PIN
  change both PINs within their bounds, an unset minimum counting as one, the new one typed twice alike.
\<close>
lemma answer_carries_accepted_entry:
  assumes "reach (\<lambda>w. w = windowNew) (windowStep kind) w" and "(n, s, a, b) \<in> set (wi_answers w)"
  shows "\<exists>p. sm_find (wi_store w) n = Some p
       \<and> (s \<noteq> StOk \<longrightarrow> a = [] \<and> b = [])
       \<and> (s = StOk \<and> \<not> pl_changeFlow p \<longrightarrow> b = [] \<and> (\<exists>x. x \<noteq> [] \<and> a = readSecret x))
       \<and> (s = StOk \<and> pl_changeFlow p \<longrightarrow>
            (\<exists>x y. a = readSecret x \<and> b = readSecret y
               \<and> withinBounds (length x) (max (ps_primaryMinLength (pl_state p)) 1) (ps_primaryMaxLength (pl_state p))
               \<and> withinBounds (length y) (max (ps_newMinLength (pl_state p)) 1) (ps_newMaxLength (pl_state p))))"
proof -
  have "windowOk w" using window_reach [OF assms(1)] by simp
  from windowOk_answer [OF this assms(2)] obtain p where "sm_find (wi_store w) n = Some p" "answerOk p s a b" by blast
  then show ?thesis
    by (intro exI [of _ p]) (auto simp: answerOk_def accepted_def changeInputsAcceptable_def split: if_splits)
qed

lemma finish_live:
  assumes "windowOk w" and "n \<in> snd ` set (wi_panels w)"
  shows "wi_panels (finishWithStatus status n w) = filter (\<lambda>e. snd e \<noteq> n) (wi_panels w)"
  using windowOk_live [OF assms(1)] assms(2) by (auto simp: finishWithStatus_def)

lemma sweep_panels:
  assumes "windowOk w" and "distinct targets" and "set targets \<subseteq> snd ` set (wi_panels w)"
  shows "wi_panels (fold (finishWithStatus StCancelled) targets w) = filter (\<lambda>e. snd e \<notin> set targets) (wi_panels w)"
  using assms
proof (induction targets arbitrary: w)
  case (Cons n targets)
  let ?v = "finishWithStatus StCancelled n w"
  have p: "wi_panels ?v = filter (\<lambda>e. snd e \<noteq> n) (wi_panels w)" using finish_live Cons.prems by simp
  have "set targets \<subseteq> snd ` set (wi_panels ?v)" using Cons.prems by (fastforce simp: p)
  with Cons.IH [OF windowOk_cancel] Cons.prems show ?case by (auto simp: p intro!: filter_cong)
qed simp

lemma sweep_targets_live:
  "distinct (map snd ps) \<Longrightarrow> distinct (sweepTargets sweep wanted ps) \<and> set (sweepTargets sweep wanted ps) \<subseteq> snd ` set ps"
  by (auto simp: sweepTargets_def Let_def distinct_filter_snd dest!: in_set_takeD)

lemma finishPanels_panels:
  assumes "windowOk w"
  shows "wi_panels (snd (finishPanels sweep wanted w))
     = filter (\<lambda>e. snd e \<notin> set (sweepTargets sweep wanted (wi_panels w))) (wi_panels w)"
proof -
  have "distinct (map snd (wi_panels w))" using assms by (simp add: windowOk_def)
  from sweep_targets_live [OF this] show ?thesis
    using sweep_panels [OF assms] by (simp add: finishPanels_def Let_def)
qed

lemma unselected:
  assumes "distinct (map snd ps)"
  shows "filter (\<lambda>e. snd e \<notin> set (map snd (filter P ps))) ps = filter (\<lambda>e. \<not> P e) ps"
proof (rule filter_cong [OF refl])
  fix e assume e: "e \<in> set ps"
  have "inj_on snd (set ps)" using assms by (simp add: distinct_map)
  with e show "snd e \<notin> set (map snd (filter P ps)) \<longleftrightarrow> \<not> P e" by (auto dest: inj_onD)
qed

text \<open>Of the unaddressed panels, which come first, the oldest is the first.\<close>

lemma first_unaddressed:
  assumes "sorted_wrt older ps" and "distinct (map snd ps)"
  shows "filter (\<lambda>e. snd e \<notin> set (take 1 (map snd (filter (\<lambda>e. fst e = []) ps)))) ps
     = filter (\<lambda>e. \<not> (fst e = [] \<and> (\<forall>m. ([], m) \<in> set ps \<longrightarrow> snd e \<le> m))) ps"
proof (cases ps)
  case (Cons x xs)
  have min: "\<And>e. e \<in> set xs \<Longrightarrow> older x e" using assms(1) Cons by auto
  show ?thesis
  proof (cases "fst x = []")
    case True
    let ?oldest = "\<lambda>e. fst e = [] \<and> (\<forall>m. ([], m) \<in> set ps \<longrightarrow> snd e \<le> m)"
    have x: "x = ([], snd x)" using True by (cases x) simp
    have other: "snd e \<noteq> snd x" if "e \<in> set xs" for e using assms(2) Cons that by (auto simp: image_iff)
    have "\<not> snd e \<le> snd x" if "e \<in> set xs" "fst e = []" for e
      using min [OF that(1)] that(2) True by (simp add: older_def)
    then have "\<not> ?oldest e" if "e \<in> set xs" for e using that x Cons by (metis list.set_intros(1))
    moreover have "snd x \<le> m" if "([], m) \<in> set ps" for m
    proof (cases "([], m) = x")
      case False
      then have "older x ([], m)" using that Cons min by simp
      then show ?thesis using True by (simp add: older_def)
    qed auto
    then have "?oldest x" using True by simp
    ultimately have "filter (\<lambda>e. \<not> ?oldest e) ps = xs"
      unfolding Cons by (simp add: filter_id_conv)
    moreover have "filter (\<lambda>e. snd e \<notin> set (take 1 (map snd (filter (\<lambda>e. fst e = []) ps)))) ps = xs"
      using other True by (simp add: Cons filter_id_conv)
    ultimately show ?thesis by simp
  next
    case False
    then have "fst e \<noteq> []" if "e \<in> set ps" for e
      using min [of e] Cons that not_less_Nil [of "fst x"] by (auto simp: older_def)
    then have "filter (\<lambda>e. fst e = []) ps = []" by (simp add: filter_empty_conv)
    with \<open>\<And>e. e \<in> set ps \<Longrightarrow> fst e \<noteq> []\<close> show ?thesis by (auto simp: filter_id_conv)
  qed
qed simp

text \<open>
  A dismissal closes what it names and no more. One that names a prompt closes the panels of that
  id and those raised without an id; one that names nothing closes the oldest panel without an id and
  only that one; a reset closes every panel and reports how many there were. What it does not close
  stays listed in the same order.
\<close>
lemma dismissal_reaches:
  assumes "reach (\<lambda>w. w = windowNew) (windowStep kind) w"
  shows "wi_panels (dismiss promptId w)
         = (if promptId \<noteq> [] then filter (\<lambda>e. fst e \<noteq> [] \<and> fst e \<noteq> promptId) (wi_panels w)
            else filter (\<lambda>e. \<not> (fst e = [] \<and> (\<forall>m. ([], m) \<in> set (wi_panels w) \<longrightarrow> snd e \<le> m))) (wi_panels w))
       \<and> liveIds (snd (dismissAll w)) = [] \<and> fst (dismissAll w) = length (liveIds w)"
proof -
  have ok: "windowOk w" and age: "sorted_wrt older (wi_panels w)"
    using window_reach [OF assms] by (simp_all add: ageOrdered_def)
  have d: "distinct (map snd (wi_panels w))" using ok by (simp add: windowOk_def)
  have "wi_panels (dismiss promptId w) = filter (\<lambda>e. \<not> (fst e = [] \<or> fst e = promptId)) (wi_panels w)" if "promptId \<noteq> []"
    using finishPanels_panels [OF ok] unselected [OF d, of "\<lambda>e. fst e = [] \<or> fst e = promptId"] that
    by (simp add: dismiss_def sweepTargets_def selects_def)
  moreover have "wi_panels (dismiss [] w)
      = filter (\<lambda>e. \<not> (fst e = [] \<and> (\<forall>m. ([], m) \<in> set (wi_panels w) \<longrightarrow> snd e \<le> m))) (wi_panels w)"
    using finishPanels_panels [OF ok] first_unaddressed [OF age d]
    by (simp add: dismiss_def sweepTargets_def selects_def)
  moreover have "wi_panels (snd (dismissAll w)) = []" "fst (dismissAll w) = length (wi_panels w)"
    using finishPanels_panels [OF ok, of Everything "[]"]
    by (simp_all add: dismissAll_def finishPanels_def sweepTargets_def selects_def Let_def)
  ultimately show ?thesis by (simp add: liveIds_def)
qed

subsection \<open>A run to evaluate at\<close>

definition demoPinPrompt :: PromptRequest where
  "demoPinPrompt = \<lparr>pr_kind = Pin, pr_title = [], pr_description = [], pr_requester = [], pr_artifact = [], pr_minLength = 4,
     pr_maxLength = 8, pr_artifacts = [], pr_attempt = 0, pr_lastError = [], pr_promptId = ''p1'', pr_deadlineMs = 60000,
     pr_altDeadlineMs = 0, pr_readerModel = [], pr_readerInterface = [], pr_readerFull = []\<rparr>"

definition demoStanding :: window where
  "demoStanding = editFields 0 [49, 50] [] [] (snd (showPrompt False demoPinPrompt windowNew))"

definition demoAnswered :: window where
  "demoAnswered = takeAnswer 0 (finishWithStatus StOk 0 demoStanding)"

lemma demoStanding_panel:
  "\<exists>p. sm_find (wi_store demoStanding) 0 = Some p \<and> pl_onScreen p \<and> pl_okEnabled p \<and> wi_panels demoStanding = [(''p1'', 0)]"
  by (simp add: demoStanding_def editFields_def showPrompt_def raisePanel_def windowNew_def demoPinPrompt_def
      showWithDeadlineMs_def controlTextDidChange_def newPanel_def refreshOkGate_def)

lemma demo_window_reach:
  "reach (\<lambda>w. w = windowNew) (windowStep kind) demoStanding" "reach (\<lambda>w. w = windowNew) (windowStep kind) demoAnswered"
proof -
  let ?w = "snd (showPrompt False demoPinPrompt windowNew)"
  have "reach (\<lambda>w. w = windowNew) (windowStep kind) windowNew" by (rule reach_init) simp
  moreover have "windowStep kind windowNew ?w" by (rule wi_prompt)
  ultimately have r: "reach (\<lambda>w. w = windowNew) (windowStep kind) ?w" by (rule reach_step)
  have "windowStep kind ?w demoStanding"
    unfolding demoStanding_def by (rule wi_edit) (auto simp: showPrompt_def raisePanel_def windowNew_def)
  with r show s: "reach (\<lambda>w. w = windowNew) (windowStep kind) demoStanding" by (rule reach_step)
  have "windowStep kind demoStanding (finishWithStatus StOk 0 demoStanding)"
    using demoStanding_panel by (auto intro: wi_ok)
  with s have "reach (\<lambda>w. w = windowNew) (windowStep kind) (finishWithStatus StOk 0 demoStanding)" by (rule reach_step)
  moreover have "windowStep kind (finishWithStatus StOk 0 demoStanding) demoAnswered"
    unfolding demoAnswered_def by (rule wi_take)
  ultimately show "reach (\<lambda>w. w = windowNew) (windowStep kind) demoAnswered" by (rule reach_step)
qed

theorem prompt_answered_once_witness:
  "\<exists>p. sm_find (wi_store demoStanding) 0 = Some p \<and> pl_onScreen p \<and> pl_signalled p = 0"
proof -
  obtain p where p: "sm_find (wi_store demoStanding) 0 = Some p" "wi_panels demoStanding = [(''p1'', 0)]"
    using demoStanding_panel by blast
  from prompt_answered_once [OF demo_window_reach(1) p(1)] p show ?thesis by auto
qed

end
