(* ===== verification/Helper_Process.thy ===== *)
theory Helper_Process
  imports Prompter_Server Prompt_Window
begin

text \<open>
  The helper as \<^verbatim>\<open>prompter/PrompterMain.mm\<close> puts it together: the socket server of \<open>Prompter_Server\<close> with the
  window of \<open>Prompt_Window\<close> behind it. A worker that serves a secret raises a panel and waits for its
  answer; what other connections, the person and the clock do meanwhile is a step of its own. Every
  panel is remembered with the request it was raised for, so that it can be said whose answer is sent
  where.
\<close>

section \<open>The hooks\<close>

text \<open>The replies a worker builds from what it takes out of an answered panel.\<close>

definition promptReply :: "PromptReplyStatus \<Rightarrow> bytes \<Rightarrow> PromptReply" where
  "promptReply s a = \<lparr>re_status = s, re_secret = a, re_userMessage = [], re_protocolVersion = None\<rparr>"

definition multiReply :: "PromptReplyStatus \<Rightarrow> bytes \<Rightarrow> bytes \<Rightarrow> MultiPromptReply" where
  "multiReply s a b =
     \<lparr>mr_status = s, mr_primary = a, mr_secondary = b, mr_userMessage = [], mr_protocolVersion = None\<rparr>"

text \<open>The line a reset logs: the ids of the panels that stand, shown as C strings.\<close>

definition appendId :: "string \<Rightarrow> string \<Rightarrow> string" where
  "appendId ids promptId =
     ids @ (if ids \<noteq> [] then '', '' else [])
       @ (if promptId = [] then ''<unaddressed>'' else takeWhile (\<lambda>c. c \<noteq> char_of (0 :: nat)) promptId)"

definition resetLine :: "string list \<Rightarrow> string" where
  "resetLine closing =
     (let ids = foldl appendId [] closing
      in ''librescrs-prompter: reset closing '' @ showNat (length closing) @ '' prompt(s): ''
           @ (if ids \<noteq> [] then ids else ''(none)''))"

section \<open>The process\<close>

record helper =
  he_server :: watched
  he_window :: window
  he_dismissed :: nat
  he_raised :: "(nat \<times> task) list"
  he_named :: "nat list"
  he_log :: "string list"

abbreviation he_tasks :: "helper \<Rightarrow> task list" where
  "he_tasks h \<equiv> ps_tasks (wa_server (he_server h))"

abbreviation he_cancels :: "helper \<Rightarrow> string list" where
  "he_cancels h \<equiv> ps_cancels (wa_server (he_server h))"

abbreviation he_outcomes :: "helper \<Rightarrow> outcome list" where
  "he_outcomes h \<equiv> ps_outcomes (wa_server (he_server h))"

definition finishWith :: "providers \<Rightarrow> nat \<Rightarrow> helper \<Rightarrow> helper" where
  "finishWith pv i h = h\<lparr>he_server := withServer (finishTask pv i) (he_server h)\<rparr>"

text \<open>
  The steps. Whatever the server does without a new task or dismissal (starting, stopping, its listener,
  admitting and refusing peers) is a step of it; a dismissal is queued for the main thread when its frame
  is read, and carried out later; a reset first names the panels that stand and then sweeps them.
\<close>

inductive helperStep ::
    "prompter_vocab \<Rightarrow> codec \<Rightarrow> ('cred \<Rightarrow> bool) \<Rightarrow> string \<Rightarrow> catalogue \<Rightarrow> helper \<Rightarrow> helper \<Rightarrow> bool"
  for voc cd peerAuth kind ct where
  hs_admin: "serverStep voc cd peerAuth pv (he_server h) s
    \<Longrightarrow> ps_tasks (wa_server s) = he_tasks h \<Longrightarrow> ps_cancels (wa_server s) = he_cancels h
    \<Longrightarrow> helperStep voc cd peerAuth kind ct h (h\<lparr>he_server := s\<rparr>)"
| hs_read: "helperStep voc cd peerAuth kind ct h
    (h\<lparr>he_server := withServer (psOnReadReady voc cd cid frames ok) (he_server h)\<rparr>)"
| hs_dismiss: "he_dismissed h < length (he_cancels h)
    \<Longrightarrow> helperStep voc cd peerAuth kind ct h
      (h\<lparr>he_window := dismiss (he_cancels h ! he_dismissed h) (he_window h), he_dismissed := he_dismissed h + 1\<rparr>)"
| hs_prompt: "TaskSecret r fd \<in> set (he_tasks h) \<Longrightarrow> fd \<notin> taskFd ` snd ` set (he_raised h)
    \<Longrightarrow> showPrompt False r (he_window h) = (None, v)
    \<Longrightarrow> helperStep voc cd peerAuth kind ct h
      (h\<lparr>he_window := v, he_raised := he_raised h @ [(wi_next (he_window h), TaskSecret r fd)]\<rparr>)"
| hs_change: "TaskSecrets rs fd \<in> set (he_tasks h) \<Longrightarrow> fd \<notin> taskFd ` snd ` set (he_raised h)
    \<Longrightarrow> showChangePrompt kind False rs (he_window h) = (None, v)
    \<Longrightarrow> helperStep voc cd peerAuth kind ct h
      (h\<lparr>he_window := v, he_raised := he_raised h @ [(wi_next (he_window h), TaskSecrets rs fd)]\<rparr>)"
| hs_unsupported: "i < length (he_tasks h) \<Longrightarrow> he_tasks h ! i = TaskSecrets rs fd
    \<Longrightarrow> showChangePrompt kind False rs (he_window h) = (Some refusal, v)
    \<Longrightarrow> helperStep voc cd peerAuth kind ct h (finishWith (pv\<lparr>pv_secrets := (\<lambda>_. refusal)\<rparr>) i h)"
| hs_edit: "sm_find (wi_store (he_window h)) n = Some p \<Longrightarrow> pl_onScreen p
    \<Longrightarrow> helperStep voc cd peerAuth kind ct h (h\<lparr>he_window := editFields n a b c (he_window h)\<rparr>)"
| hs_ok: "sm_find (wi_store (he_window h)) n = Some p \<Longrightarrow> pl_onScreen p \<Longrightarrow> pl_okEnabled p
    \<Longrightarrow> helperStep voc cd peerAuth kind ct h (h\<lparr>he_window := finishWithStatus StOk n (he_window h)\<rparr>)"
| hs_cancel: "sm_find (wi_store (he_window h)) n = Some p \<Longrightarrow> pl_onScreen p
    \<Longrightarrow> helperStep voc cd peerAuth kind ct h (h\<lparr>he_window := finishWithStatus StCancelled n (he_window h)\<rparr>)"
| hs_deadline: "sm_find (wi_store (he_window h)) n = Some p \<Longrightarrow> pl_deadlineTimer p \<noteq> None
    \<Longrightarrow> helperStep voc cd peerAuth kind ct h (h\<lparr>he_window := finishWithStatus StTimeout n (he_window h)\<rparr>)"
| hs_take: "helperStep voc cd peerAuth kind ct h (h\<lparr>he_window := takeAnswer n (he_window h)\<rparr>)"
| hs_reply: "(n, TaskSecret r fd) \<in> set (he_raised h) \<Longrightarrow> (n, s, a, b) \<in> set (wi_answers (he_window h))
    \<Longrightarrow> i < length (he_tasks h) \<Longrightarrow> he_tasks h ! i = TaskSecret r fd
    \<Longrightarrow> helperStep voc cd peerAuth kind ct h (finishWith (pv\<lparr>pv_secret := (\<lambda>_. promptReply s a)\<rparr>) i h)"
| hs_replies: "(n, TaskSecrets rs fd) \<in> set (he_raised h) \<Longrightarrow> (n, s, a, b) \<in> set (wi_answers (he_window h))
    \<Longrightarrow> i < length (he_tasks h) \<Longrightarrow> he_tasks h ! i = TaskSecrets rs fd
    \<Longrightarrow> helperStep voc cd peerAuth kind ct h (finishWith (pv\<lparr>pv_secrets := (\<lambda>_. multiReply s a b)\<rparr>) i h)"
| hs_refuse: "i < length (he_tasks h) \<Longrightarrow> he_tasks h ! i = TaskRefuseVersion fd \<or> he_tasks h ! i = TaskRefuseConfirm fd
    \<Longrightarrow> helperStep voc cd peerAuth kind ct h (finishWith pv i h)"
| hs_confirm: "i < length (he_tasks h) \<Longrightarrow> he_tasks h ! i = TaskConfirm q fd
    \<Longrightarrow> helperStep voc cd peerAuth kind ct h
      (finishWith (pv\<lparr>pv_confirm := confirmWithDeviceOwner unavailable evaluate ct\<rparr>) i h)"
| hs_name: "TaskReset fd \<in> set (he_tasks h) \<Longrightarrow> fd \<notin> set (he_named h)
    \<Longrightarrow> helperStep voc cd peerAuth kind ct h
      (h\<lparr>he_named := fd # he_named h, he_log := he_log h @ [resetLine (liveIds (he_window h))]\<rparr>)"
| hs_sweep: "i < length (he_tasks h) \<Longrightarrow> he_tasks h ! i = TaskReset fd \<Longrightarrow> fd \<in> set (he_named h)
    \<Longrightarrow> dismissAll (he_window h) = (closed, v)
    \<Longrightarrow> helperStep voc cd peerAuth kind ct h (finishWith (pv\<lparr>pv_reset := of_nat closed\<rparr>) i (h\<lparr>he_window := v\<rparr>))"

definition helperInit :: "helper \<Rightarrow> bool" where
  "helperInit h \<longleftrightarrow>
     serverInit (he_server h) \<and> he_window h = windowNew \<and> he_dismissed h = 0 \<and> he_raised h = [] \<and> he_named h = []
     \<and> he_log h = []"

section \<open>The window inside the helper\<close>

lemma helperStep_window:
  assumes "helperStep voc cd peerAuth kind ct h h'"
  shows "(windowStep kind)\<^sup>*\<^sup>* (he_window h) (he_window h')"
  using assms
proof cases
  case (hs_prompt r fd v)
  then show ?thesis using wi_prompt [of kind "he_window h" False r] by simp
next
  case (hs_change rs fd v)
  then show ?thesis using wi_change [of kind "he_window h" False rs] by simp
next
  case (hs_sweep i fd closed v)
  then show ?thesis using wi_dismissAll [of kind "he_window h"] by (simp add: finishWith_def)
qed (auto simp: finishWith_def intro: windowStep.intros)

interpretation helper_window: simulation helperInit "helperStep voc cd peerAuth kind ct" "\<lambda>_. True"
    "\<lambda>w. w = windowNew" "windowStep kind" he_window for voc cd peerAuth kind ct
  by unfold_locales (auto simp: helperInit_def helperStep_window)

section \<open>Panels and the requests they were raised for\<close>

text \<open>What a panel asks for, fixed when it is raised: one secret, or a PIN change within given bounds.\<close>

definition flowOf :: "panel \<Rightarrow> bool \<times> u32 \<times> u32 \<times> u32 \<times> u32" where
  "flowOf p =
     (pl_changeFlow p, ps_primaryMinLength (pl_state p), ps_primaryMaxLength (pl_state p), ps_newMinLength (pl_state p),
      ps_newMaxLength (pl_state p))"

fun flowFor :: "task \<Rightarrow> (bool \<times> u32 \<times> u32 \<times> u32 \<times> u32) option" where
  "flowFor (TaskSecret r fd) = Some (False, 0, 0, 0, 0)"
| "flowFor (TaskSecrets rs fd) =
     Some (True, rs_primaryMinLength rs, rs_primaryMaxLength rs, rs_newMinLength rs, rs_newMaxLength rs)"
| "flowFor _ = None"

definition keeps :: "window \<Rightarrow> window \<Rightarrow> bool" where
  "keeps w v \<longleftrightarrow>
     (\<forall>n p. sm_find (wi_store w) n = Some p \<longrightarrow> (\<exists>p'. sm_find (wi_store v) n = Some p' \<and> flowOf p' = flowOf p))
     \<and> set (wi_answers w) \<subseteq> set (wi_answers v) \<and> wi_next w \<le> wi_next v"

lemma keeps_refl [simp]: "keeps w w"
  by (simp add: keeps_def)

lemma keeps_trans:
  assumes "keeps w v" and "keeps v u"
  shows "keeps w u"
  unfolding keeps_def
proof (intro conjI allI impI)
  show "\<exists>r. sm_find (wi_store u) n = Some r \<and> flowOf r = flowOf p" if at: "sm_find (wi_store w) n = Some p" for n p
  proof -
    obtain q where "sm_find (wi_store v) n = Some q" "flowOf q = flowOf p" using assms(1) at unfolding keeps_def by blast
    with assms(2) show ?thesis unfolding keeps_def by fastforce
  qed
qed (use assms in \<open>auto simp: keeps_def\<close>)

lemma flowOf_simps [simp]:
  "flowOf (answerPanel status p) = flowOf p" "flowOf (controlTextDidChange a b c p) = flowOf p"
  "flowOf (showWithDeadlineMs d p) = flowOf p" "flowOf (refreshOkGate p) = flowOf p"
  "flowOf (p\<lparr>pl_signalled := k, pl_state := (pl_state p)\<lparr>ps_primary := x, ps_secondary := y\<rparr>\<rparr>) = flowOf p"
  by (simp_all add: flowOf_def answerPanel_def controlTextDidChange_def refreshOkGate_def showWithDeadlineMs_def Let_def)

lemma keeps_finish: "keeps w (finishWithStatus status n w)"
  by (auto simp: keeps_def finishWithStatus_def split: option.split)

lemma keeps_sweep: "keeps w (fold (finishWithStatus status) targets w)"
  by (induction targets arbitrary: w) (auto intro: keeps_trans keeps_finish)

lemma windowOk_fresh: "windowOk w \<Longrightarrow> sm_find (wi_store w) (wi_next w) = None"
  by (simp add: windowOk_def)

lemma keeps_raise: "windowOk w \<Longrightarrow> keeps w (raisePanel promptId d p w)"
  using windowOk_fresh [of w] by (auto simp: keeps_def raisePanel_def)

lemma keeps_step:
  assumes "windowStep kind w v" and "windowOk w"
  shows "keeps w v"
  using assms
proof (induction rule: windowStep.induct)
  case (wi_take w n)
  then show ?case by (auto simp: keeps_def takeAnswer_def split: option.split)
next
  case (wi_edit w n p a b c)
  then show ?case by (auto simp: keeps_def editFields_def)
qed (auto simp: showPrompt_def showChangePrompt_def keeps_raise keeps_finish dismiss_def dismissAll_def finishPanels_def
    Let_def keeps_sweep)

lemma keeps_steps:
  assumes "(windowStep kind)\<^sup>*\<^sup>* w v" and "windowOk w \<and> ageOrdered w"
  shows "keeps w v \<and> windowOk v \<and> ageOrdered v"
  using assms(1)
proof (induction rule: rtranclp_induct)
  case (step v u)
  then show ?case using window_system.inv_step [of v kind u] keeps_step keeps_trans by blast
qed (simp add: assms(2))

section \<open>Whose answer is sent where\<close>

definition sentFor :: "(nat \<times> task) list \<Rightarrow> (nat \<times> PromptReplyStatus \<times> bytes \<times> bytes) list \<Rightarrow> outcome \<Rightarrow> bool" where
  "sentFor raised answers out \<longleftrightarrow>
     (case out of
        SentSecret fd reply \<Rightarrow>
          re_status reply = StOk \<longrightarrow>
            (\<exists>n r b. (n, TaskSecret r fd) \<in> set raised \<and> (n, StOk, re_secret reply, b) \<in> set answers)
      | SentSecrets fd reply \<Rightarrow>
          mr_status reply = StOk \<longrightarrow>
            (\<exists>n rs. (n, TaskSecrets rs fd) \<in> set raised \<and> (n, StOk, mr_primary reply, mr_secondary reply) \<in> set answers)
      | _ \<Rightarrow> True)"

definition raisedOk :: "helper \<Rightarrow> bool" where
  "raisedOk h \<longleftrightarrow>
     distinct (map fst (he_raised h)) \<and> distinct (map (taskFd \<circ> snd) (he_raised h))
     \<and> (\<forall>(n, t) \<in> set (he_raised h). n < wi_next (he_window h)
          \<and> (\<exists>p. sm_find (wi_store (he_window h)) n = Some p \<and> flowFor t = Some (flowOf p)))"

definition helperOk :: "helper \<Rightarrow> bool" where
  "helperOk h \<longleftrightarrow>
     serverOk (he_server h) \<and> (windowOk (he_window h) \<and> ageOrdered (he_window h)) \<and> raisedOk h
     \<and> (\<forall>out \<in> set (he_outcomes h). sentFor (he_raised h) (wi_answers (he_window h)) out)"

lemma sentFor_mono:
  "sentFor raised answers out \<Longrightarrow> set raised \<subseteq> set raised' \<Longrightarrow> set answers \<subseteq> set answers' \<Longrightarrow> sentFor raised' answers' out"
  unfolding sentFor_def by (auto split: outcome.splits)

lemma sentFor_taken:
  assumes "(n, s, a, b) \<in> set answers"
  shows "(n, TaskSecret r fd) \<in> set raised \<Longrightarrow> sentFor raised answers (SentSecret fd (promptReply s a))"
    and "(n, TaskSecrets rs fd) \<in> set raised \<Longrightarrow> sentFor raised answers (SentSecrets fd (multiReply s a b))"
  using assms by (simp_all add: sentFor_def promptReply_def multiReply_def) blast+

lemma raisedOk_keeps:
  assumes "raisedOk h" and "keeps (he_window h) (he_window h')" and "he_raised h' = he_raised h"
  shows "raisedOk h'"
  unfolding raisedOk_def assms(3)
proof (intro conjI ballI)
  show "distinct (map fst (he_raised h))" "distinct (map (taskFd \<circ> snd) (he_raised h))"
    using assms(1) by (simp_all add: raisedOk_def)
  fix e
  assume "e \<in> set (he_raised h)"
  moreover obtain n t where e: "e = (n, t)" by force
  ultimately obtain p where p: "n < wi_next (he_window h)" "sm_find (wi_store (he_window h)) n = Some p" "flowFor t = Some (flowOf p)"
    using assms(1) by (auto simp: raisedOk_def)
  then show "case e of (n, t) \<Rightarrow> n < wi_next (he_window h')
      \<and> (\<exists>p. sm_find (wi_store (he_window h')) n = Some p \<and> flowFor t = Some (flowOf p))"
    using assms(2) unfolding keeps_def e by force
qed

lemma raisedOk_raise:
  assumes "raisedOk h" and "windowOk (he_window h)" and "taskFd t \<notin> taskFd ` snd ` set (he_raised h)"
    and "flowFor t = Some (flowOf p)" and "v = raisePanel promptId d p (he_window h)"
  shows "raisedOk (h\<lparr>he_window := v, he_raised := he_raised h @ [(wi_next (he_window h), t)]\<rparr>)"
proof -
  have kept: "raisedOk (h\<lparr>he_window := v\<rparr>)"
    by (rule raisedOk_keeps [OF assms(1)]) (simp_all add: assms(5) keeps_raise [OF assms(2)])
  have "wi_next (he_window h) \<notin> fst ` set (he_raised h)" using assms(1) by (auto simp: raisedOk_def)
  moreover have "sm_find (wi_store v) (wi_next (he_window h)) = Some (showWithDeadlineMs d p)"
    "wi_next v = wi_next (he_window h) + 1" by (simp_all add: assms(5) raisePanel_def)
  ultimately show ?thesis
    using kept assms(3,4) by (auto simp: raisedOk_def image_image)
qed

text \<open>The outcome of a finished task, and what a server step without a new task may send.\<close>

lemma finish_outcomes:
  "i < length (he_tasks h) \<Longrightarrow> he_outcomes (finishWith pv i h) = he_outcomes h @ [runTask pv (he_tasks h ! i)]"
  by (simp add: finishWith_def withServer_def finishTask_def)

lemma read_outcomes [simp]: "ps_outcomes (psOnReadReady voc cd cid frames ok s) = ps_outcomes s"
proof -
  have "ps_outcomes (dispatchRequest fd req u) = ps_outcomes u" for fd req u
    by (cases req) (simp_all add: addTask_def)
  then show ?thesis
    by (simp add: psOnReadReady_def psCloseConnection_def addTask_def Let_def split: option.split list.split sum.split)
qed

lemma admin_outcomes:
  assumes "serverStep voc cd peerAuth pv w s" and "ps_tasks (wa_server s) = ps_tasks (wa_server w)"
    and "out \<in> set (ps_outcomes (wa_server s))"
  shows "out \<in> set (ps_outcomes (wa_server w)) \<or> (\<exists>fd. out = SentSecret fd unauthorizedReply)"
  using assms
proof cases
  case (sv_finish i)
  have "length (ps_tasks (finishTask pv i (wa_server w))) < length (ps_tasks (wa_server w))"
    if "i < length (ps_tasks (wa_server w))"
    using that by (simp add: finishTask_def)
  with sv_finish assms(2) have "\<not> i < length (ps_tasks (wa_server w))" by (auto simp: withServer_def)
  with sv_finish assms(3) show ?thesis by (simp add: withServer_def finishTask_def)
qed (auto simp: withServer_def withListener_def psStart_def psStop_def psStopLoop_def psAcceptOne_def Let_def
    split: if_splits prod.splits bool.splits)

lemma helperOk_move:
  assumes ok: "helperOk h" and "serverOk (he_server h')" and "(windowStep kind)\<^sup>*\<^sup>* (he_window h) (he_window h')"
    and "raisedOk h'" and "set (he_raised h) \<subseteq> set (he_raised h')"
    and sent: "\<And>out. out \<in> set (he_outcomes h') \<Longrightarrow> out \<in> set (he_outcomes h)
      \<or> sentFor (he_raised h') (wi_answers (he_window h')) out"
  shows "helperOk h'"
proof -
  have inv: "windowOk (he_window h) \<and> ageOrdered (he_window h)" using ok by (simp add: helperOk_def)
  have kept: "keeps (he_window h) (he_window h')" and "windowOk (he_window h') \<and> ageOrdered (he_window h')"
    using keeps_steps [OF assms(3) inv] by simp_all
  moreover have old: "sentFor (he_raised h') (wi_answers (he_window h')) out" if "out \<in> set (he_outcomes h)" for out
  proof (rule sentFor_mono)
    show "sentFor (he_raised h) (wi_answers (he_window h)) out" using ok that by (simp add: helperOk_def)
  qed (use kept assms(5) in \<open>simp_all add: keeps_def\<close>)
  ultimately show ?thesis using assms(2,4) sent by (auto simp: helperOk_def)
qed

lemma helperOk_finish:
  assumes "helperOk h" and "i < length (he_tasks h)" and "(windowStep kind)\<^sup>*\<^sup>* (he_window h) v"
    and "sentFor (he_raised h) (wi_answers v) (runTask pv (he_tasks h ! i))"
  shows "helperOk (finishWith pv i (h\<lparr>he_window := v\<rparr>))"
proof (rule helperOk_move [OF assms(1), of _ kind])
  let ?h = "h\<lparr>he_window := v\<rparr>"
  have same: "he_tasks ?h = he_tasks h" "he_outcomes ?h = he_outcomes h" by simp_all
  show "serverOk (he_server (finishWith pv i ?h))"
    using serverOk_step [OF sv_finish] assms(1) by (simp add: finishWith_def helperOk_def)
  show "(windowStep kind)\<^sup>*\<^sup>* (he_window h) (he_window (finishWith pv i ?h))" using assms(3) by (simp add: finishWith_def)
  have kept: "keeps (he_window h) v" and raised: "raisedOk h"
    using keeps_steps [OF assms(3)] assms(1) by (simp_all add: helperOk_def)
  show "raisedOk (finishWith pv i ?h)" by (rule raisedOk_keeps [OF raised]) (simp_all add: finishWith_def kept)
  show "set (he_raised h) \<subseteq> set (he_raised (finishWith pv i ?h))" by (simp add: finishWith_def)
  show "out \<in> set (he_outcomes h) \<or> sentFor (he_raised (finishWith pv i ?h)) (wi_answers (he_window (finishWith pv i ?h))) out"
    if "out \<in> set (he_outcomes (finishWith pv i ?h))" for out
    using that assms(2,4) finish_outcomes [of i ?h pv] by (auto simp: finishWith_def)
qed

lemmas helperOk_finish_still = helperOk_finish [where v = "he_window h" and h = h for h, OF _ _ rtranclp.rtrancl_refl, simplified]

lemma helperOk_window:
  assumes "helperOk h" and "(windowStep kind)\<^sup>*\<^sup>* (he_window h) v"
  shows "helperOk (h\<lparr>he_window := v\<rparr>)"
proof (rule helperOk_move [OF assms(1), of _ kind])
  have kept: "keeps (he_window h) v" and raised: "raisedOk h"
    using keeps_steps [OF assms(2)] assms(1) by (simp_all add: helperOk_def)
  show "raisedOk (h\<lparr>he_window := v\<rparr>)" by (rule raisedOk_keeps [OF raised]) (simp_all add: kept)
qed (use assms in \<open>simp_all add: helperOk_def\<close>)

lemma helperOk_window_step: "helperOk h \<Longrightarrow> windowStep kind (he_window h) v \<Longrightarrow> helperOk (h\<lparr>he_window := v\<rparr>)"
  by (rule helperOk_window) auto

lemma helperOk_raise:
  assumes "helperOk h" and "taskFd t \<notin> taskFd ` snd ` set (he_raised h)" and "flowFor t = Some (flowOf p)"
    and "v = raisePanel promptId d p (he_window h)" and "(windowStep kind)\<^sup>*\<^sup>* (he_window h) v"
  shows "helperOk (h\<lparr>he_window := v, he_raised := he_raised h @ [(wi_next (he_window h), t)]\<rparr>)"
proof (rule helperOk_move [OF assms(1), of _ kind])
  have "raisedOk h" "windowOk (he_window h)" using assms(1) by (simp_all add: helperOk_def)
  then show "raisedOk (h\<lparr>he_window := v, he_raised := he_raised h @ [(wi_next (he_window h), t)]\<rparr>)"
    by (rule raisedOk_raise [OF _ _ assms(2,3,4)])
qed (use assms in \<open>auto simp: helperOk_def\<close>)

lemma flowOf_new: "flowOf (newPanel change st)
    = (change, ps_primaryMinLength st, ps_primaryMaxLength st, ps_newMinLength st, ps_newMaxLength st)"
  by (simp add: flowOf_def newPanel_def)

lemma helperOk_ghost: "helperOk (h\<lparr>he_dismissed := k\<rparr>) = helperOk h" "helperOk (h\<lparr>he_named := ns, he_log := l\<rparr>) = helperOk h"
  by (simp_all add: helperOk_def raisedOk_def)

lemma helperOk_server:
  assumes "helperOk h" and "serverOk s"
    and "\<And>out. out \<in> set (ps_outcomes (wa_server s)) \<Longrightarrow> out \<in> set (he_outcomes h) \<or> (\<exists>fd. out = SentSecret fd unauthorizedReply)"
  shows "helperOk (h\<lparr>he_server := s\<rparr>)"
proof (rule helperOk_move [OF assms(1), of _ kind])
  show "out \<in> set (he_outcomes h) \<or> sentFor (he_raised (h\<lparr>he_server := s\<rparr>)) (wi_answers (he_window (h\<lparr>he_server := s\<rparr>))) out"
    if "out \<in> set (he_outcomes (h\<lparr>he_server := s\<rparr>))" for out
    using assms(3) [of out] that by (auto simp: sentFor_def unauthorizedReply_def)
qed (use assms in \<open>simp_all add: helperOk_def raisedOk_def\<close>)

lemma helperOk_prompt:
  assumes ok: "helperOk h" and "taskFd t \<notin> taskFd ` snd ` set (he_raised h)"
    and "t = TaskSecret r fd \<and> showPrompt False r (he_window h) = (None, v)
      \<or> t = TaskSecrets rs fd \<and> showChangePrompt kind False rs (he_window h) = (None, v)"
  shows "helperOk (h\<lparr>he_window := v, he_raised := he_raised h @ [(wi_next (he_window h), t)]\<rparr>)"
  using assms(3)
proof (elim disjE conjE)
  assume t: "t = TaskSecret r fd" and v: "showPrompt False r (he_window h) = (None, v)"
  then have "v = raisePanel (pr_promptId r) (pr_deadlineMs r) (newPanel False freshState) (he_window h)"
    by (simp add: showPrompt_def)
  then show ?thesis
    using wi_prompt [of kind "he_window h" False r] v t assms(2)
    by (intro helperOk_raise [OF ok, where kind = kind]) (simp_all add: flowOf_new freshState_def)
next
  let ?st = "freshState\<lparr>ps_primaryMinLength := rs_primaryMinLength rs, ps_primaryMaxLength := rs_primaryMaxLength rs,
     ps_newMinLength := rs_newMinLength rs, ps_newMaxLength := rs_newMaxLength rs\<rparr>"
  assume t: "t = TaskSecrets rs fd" and v: "showChangePrompt kind False rs (he_window h) = (None, v)"
  then have "v = raisePanel (rs_promptId rs) (rs_deadlineMs rs) (refreshOkGate (newPanel True ?st)) (he_window h)"
    by (simp add: showChangePrompt_def split: if_splits)
  then show ?thesis
    using wi_change [of kind "he_window h" False rs] v t assms(2)
    by (intro helperOk_raise [OF ok, where kind = kind]) (simp_all add: flowOf_new)
qed

lemma helperStep_ok:
  assumes "helperStep voc cd peerAuth kind ct h h'" and ok: "helperOk h"
  shows "helperOk h'"
  using assms(1)
proof cases
  case (hs_admin pv s)
  with ok serverOk_step [OF hs_admin(2)] admin_outcomes [OF hs_admin(2,3)] show ?thesis
    by (simp add: helperOk_server helperOk_def [of h])
next
  case (hs_read cid frames fine)
  have "serverOk (withServer (psOnReadReady voc cd cid frames fine) (he_server h))"
    using serverOk_step [OF sv_read] ok by (simp add: helperOk_def)
  then show ?thesis unfolding hs_read(1) by (rule helperOk_server [OF ok]) (simp add: withServer_def)
next
  case hs_dismiss
  then show ?thesis using helperOk_window_step [OF ok wi_dismiss [of kind]] by (simp add: helperOk_ghost)
next
  case (hs_prompt r fd v)
  with ok show ?thesis by (simp add: helperOk_prompt)
next
  case (hs_change rs fd v)
  with ok show ?thesis by (simp add: helperOk_prompt)
next
  case (hs_sweep i fd closed v pv)
  then show ?thesis
    using helperOk_finish [OF ok hs_sweep(2), where kind = kind] wi_dismissAll [of kind "he_window h"]
    by (auto simp: sentFor_def)
next
  case (hs_unsupported i rs fd refusal v pv)
  then have "mr_status refusal = StError" by (auto simp: showChangePrompt_def split: if_splits)
  with hs_unsupported show ?thesis by (simp add: helperOk_finish_still [OF ok] sentFor_def)
next
  case (hs_reply n r fd s a b i pv)
  then show ?thesis using sentFor_taken(1) [of n s a b] by (simp add: helperOk_finish_still [OF ok])
next
  case (hs_replies n rs fd s a b i pv)
  then show ?thesis using sentFor_taken(2) [of n s a b] by (simp add: helperOk_finish_still [OF ok])
qed (auto intro!: helperOk_window_step [OF ok, of kind] helperOk_finish_still [OF ok] intro: windowStep.intros
    simp: sentFor_def unsupportedVersionReply_def helperOk_ghost ok)

interpretation helper_system: invariant_system helperInit "helperStep voc cd peerAuth kind ct" helperOk
  for voc cd peerAuth kind ct
proof
  show "helperOk h" if "helperInit h" for h
    using that server_system.inv_init window_system.inv_init
    by (auto simp: helperInit_def helperOk_def raisedOk_def serverInit_def)
qed (rule helperStep_ok)

lemma raised_unique:
  assumes "raisedOk h" and "(n, t) \<in> set (he_raised h)" and "(m, u) \<in> set (he_raised h)" and "m = n \<or> taskFd u = taskFd t"
  shows "m = n \<and> u = t"
proof -
  have "inj_on fst (set (he_raised h))" "inj_on (taskFd \<circ> snd) (set (he_raised h))"
    using assms(1) by (simp_all add: raisedOk_def distinct_map)
  with assms(2-4) show ?thesis unfolding inj_on_def by fastforce
qed

lemma sent_admitted:
  assumes "helperOk h" and "out \<in> set (he_outcomes h)" and "out \<noteq> SentSecret (outcomeFd out) unauthorizedReply"
  shows "outcomeFd out \<in> set (wa_admitted (he_server h))"
  using assms by (auto simp: helperOk_def serverOk_def servedOk_def Let_def)

lemma sent_source:
  assumes "helperOk h"
  shows "SentSecret fd reply \<in> set (he_outcomes h) \<Longrightarrow> re_status reply = StOk \<Longrightarrow>
      \<exists>n r b. (n, TaskSecret r fd) \<in> set (he_raised h) \<and> (n, StOk, re_secret reply, b) \<in> set (wi_answers (he_window h))"
    and "SentSecrets fd replies \<in> set (he_outcomes h) \<Longrightarrow> mr_status replies = StOk \<Longrightarrow>
      \<exists>n rs. (n, TaskSecrets rs fd) \<in> set (he_raised h)
        \<and> (n, StOk, mr_primary replies, mr_secondary replies) \<in> set (wi_answers (he_window h))"
proof -
  have sent: "sentFor (he_raised h) (wi_answers (he_window h)) out" if "out \<in> set (he_outcomes h)" for out
    using assms that by (simp add: helperOk_def)
  show "\<exists>n r b. (n, TaskSecret r fd) \<in> set (he_raised h) \<and> (n, StOk, re_secret reply, b) \<in> set (wi_answers (he_window h))"
    if "SentSecret fd reply \<in> set (he_outcomes h)" "re_status reply = StOk"
    using sent [OF that(1)] that(2) by (simp add: sentFor_def)
  show "\<exists>n rs. (n, TaskSecrets rs fd) \<in> set (he_raised h)
        \<and> (n, StOk, mr_primary replies, mr_secondary replies) \<in> set (wi_answers (he_window h))"
    if "SentSecrets fd replies \<in> set (he_outcomes h)" "mr_status replies = StOk"
    using sent [OF that(1)] that(2) by (simp add: sentFor_def)
qed

lemma unauthorized_not_ok: "re_status reply = StOk \<Longrightarrow> reply \<noteq> unauthorizedReply"
  by (auto simp: unauthorizedReply_def)

lemma raised_answer:
  assumes "helperOk h" and "(n, t) \<in> set (he_raised h)" and "(n, StOk, a, b) \<in> set (wi_answers (he_window h))"
  obtains p where "flowFor t = Some (flowOf p)" "accepted p a b"
proof -
  obtain p where p: "sm_find (wi_store (he_window h)) n = Some p" "flowFor t = Some (flowOf p)"
    using assms(1,2) by (auto simp: helperOk_def raisedOk_def)
  moreover have "answerOk p StOk a b"
    using windowOk_answer [OF _ assms(3)] assms(1) p(1) by (auto simp: helperOk_def)
  ultimately show ?thesis using that by (simp add: answerOk_def)
qed

text \<open>A secret that was sent, traced back to the panel it was typed in.\<close>

lemma typed_entry:
  assumes "helperOk h" and "SentSecret fd reply \<in> set (he_outcomes h)" and "re_status reply = StOk"
  shows "\<exists>n r x. (n, TaskSecret r fd) \<in> set (he_raised h) \<and> fd \<in> set (wa_admitted (he_server h))
     \<and> (n, StOk, re_secret reply, []) \<in> set (wi_answers (he_window h)) \<and> x \<noteq> [] \<and> re_secret reply = readSecret x"
proof -
  obtain n r b where n: "(n, TaskSecret r fd) \<in> set (he_raised h)" "(n, StOk, re_secret reply, b) \<in> set (wi_answers (he_window h))"
    using sent_source(1) [OF assms] by blast
  obtain p where "flowFor (TaskSecret r fd) = Some (flowOf p)" "accepted p (re_secret reply) b"
    using raised_answer [OF assms(1) n] .
  then obtain x where x: "x \<noteq> []" "re_secret reply = readSecret x" "b = []" by (auto simp: flowOf_def accepted_def)
  moreover have "fd \<in> set (wa_admitted (he_server h))"
    using sent_admitted [OF assms(1,2)] unauthorized_not_ok [of reply] assms(3) by auto
  ultimately show ?thesis using n by blast
qed

section \<open>Runs to look at\<close>

text \<open>An admitted peer asks; a panel is raised, filled in, accepted, and its answer sent.\<close>

definition helperCold :: helper where
  "helperCold = \<lparr>he_server = demoServer, he_window = windowNew, he_dismissed = 0, he_raised = [], he_named = [], he_log = []\<rparr>"

abbreviation demoSteps :: "codec \<Rightarrow> helper \<Rightarrow> helper \<Rightarrow> bool" where
  "demoSteps cd \<equiv> helperStep demoVocab cd (\<lambda>c. c = (42 :: nat)) ''change_pin''
     \<lparr>ct_words = id, ct_utf8 = (\<lambda>_. True), ct_interface = (\<lambda>_. 0)\<rparr>"

definition helperAsked :: "task \<Rightarrow> helper" where
  "helperAsked t = helperCold\<lparr>he_server := demoServer\<lparr>wa_server := (wa_server demoServer)\<lparr>ps_nextConnId := 2,
     ps_tasks := [t]\<rparr>, wa_seen := [9], wa_admitted := [9]\<rparr>\<rparr>"

definition helperAt :: "task \<Rightarrow> window \<Rightarrow> helper" where
  "helperAt t w = (helperAsked t)\<lparr>he_window := w, he_raised := [(0, t)]\<rparr>"

lemma helperAt_simps [simp]:
  "he_window (helperAt t w) = w" "(helperAt t w)\<lparr>he_window := v\<rparr> = helperAt t v" "he_tasks (helperAt t w) = [t]"
  "he_raised (helperAt t w) = [(0, t)]"
  by (simp_all add: helperAt_def helperAsked_def)

lemma demo_request_read:
  assumes "parsePrompterRequest demoVocab cd [1] = Inr req" and "\<And>s. dispatchRequest 9 req s = addTask t s"
  shows "reach helperInit (demoSteps cd) (helperAsked t)"
proof -
  have "reach helperInit (demoSteps cd) helperCold"
    by (rule reach_init) (simp add: helperInit_def helperCold_def serverInit_def demoServer_def)
  moreover let ?s = "(withServer (psAcceptOne (\<lambda>c. c = (42 :: nat)) 9 (Some 42)) demoServer)\<lparr>wa_seen := [9], wa_admitted := [9]\<rparr>"
  have "serverStep demoVocab cd (\<lambda>c. c = (42 :: nat)) demoProviders (he_server helperCold) ?s"
    using sv_admit [of 9 demoServer "Some 42" 42 "\<lambda>c. c = (42 :: nat)"] by (simp add: helperCold_def) (simp add: demoServer_def)
  then have "demoSteps cd helperCold (helperCold\<lparr>he_server := ?s\<rparr>)"
    by (rule hs_admin) (simp_all add: withServer_def psAcceptOne_def helperCold_def)
  ultimately have in1: "reach helperInit (demoSteps cd) (helperCold\<lparr>he_server := ?s\<rparr>)" by (rule reach_step)
  have "withServer (psOnReadReady demoVocab cd 1 [[1]] True) ?s = he_server (helperAsked t)"
    using assms by (simp add: withServer_def psOnReadReady_def psAcceptOne_def demoServer_def sm_emplace_def addTask_def
        psCloseConnection_def helperAsked_def sm_erase_def Let_def)
  moreover have "demoSteps cd (helperCold\<lparr>he_server := ?s\<rparr>) (helperCold\<lparr>he_server := ?s\<rparr>
      \<lparr>he_server := withServer (psOnReadReady demoVocab cd 1 [[1]] True) (he_server (helperCold\<lparr>he_server := ?s\<rparr>))\<rparr>)"
    by (rule hs_read)
  ultimately have "demoSteps cd (helperCold\<lparr>he_server := ?s\<rparr>) (helperAsked t)" by (simp add: helperAsked_def)
  with in1 show ?thesis by (rule reach_step)
qed

text \<open>From a raised panel to the taken answer.\<close>

lemma demo_typed:
  assumes "reach helperInit (demoSteps cd) (helperAt t w)"
    and "sm_find (wi_store w) 0 = Some p" and "pl_onScreen p"
    and "sm_find (wi_store (editFields 0 a b c w)) 0 = Some q" and "pl_onScreen q" and "pl_okEnabled q"
  shows "reach helperInit (demoSteps cd) (helperAt t (takeAnswer 0 (finishWithStatus StOk 0 (editFields 0 a b c w))))"
proof -
  have "demoSteps cd (helperAt t w) ((helperAt t w)\<lparr>he_window := editFields 0 a b c (he_window (helperAt t w))\<rparr>)"
    by (rule hs_edit [where p = p]) (simp_all add: assms(2,3))
  then have "demoSteps cd (helperAt t w) (helperAt t (editFields 0 a b c w))" by simp
  with assms(1) have edited: "reach helperInit (demoSteps cd) (helperAt t (editFields 0 a b c w))" by (rule reach_step)
  let ?w = "editFields 0 a b c w"
  have "demoSteps cd (helperAt t ?w) ((helperAt t ?w)\<lparr>he_window := finishWithStatus StOk 0 (he_window (helperAt t ?w))\<rparr>)"
    by (rule hs_ok [where p = q]) (simp_all add: assms(4-6))
  then have "demoSteps cd (helperAt t ?w) (helperAt t (finishWithStatus StOk 0 ?w))" by simp
  with edited have accepted: "reach helperInit (demoSteps cd) (helperAt t (finishWithStatus StOk 0 ?w))" by (rule reach_step)
  let ?v = "finishWithStatus StOk 0 ?w"
  have "demoSteps cd (helperAt t ?v) ((helperAt t ?v)\<lparr>he_window := takeAnswer 0 (he_window (helperAt t ?v))\<rparr>)"
    by (rule hs_take)
  then have "demoSteps cd (helperAt t ?v) (helperAt t (takeAnswer 0 ?v))" by simp
  with accepted show ?thesis by (rule reach_step)
qed

definition askCodec :: codec where
  "askCodec = \<lparr>decode = (\<lambda>b. if b = [1] then Some (toCborPromptRequest demoVocab demoPinPrompt)
                          else Some (toCborPromptReply demoVocab (promptReply StOk [49, 50]))), scrub = (\<lambda>_. COther 0)\<rparr>"

lemma demo_waiting: "reach helperInit (demoSteps askCodec) (helperAsked (TaskSecret demoPinPrompt 9))"
proof -
  have "parsePrompterRequest demoVocab askCodec [1] = Inr (ReqPrompt demoPinPrompt)"
    using roundtrip_prompt [of askCodec "[1]" demoVocab demoPinPrompt] demoVocab_ok
    by (simp add: askCodec_def demoPinPrompt_def demoVocab_def)
  then show ?thesis by (rule demo_request_read) simp
qed

lemma demo_raised:
  "reach helperInit (demoSteps askCodec)
     (helperAt (TaskSecret demoPinPrompt 9) (snd (showPrompt False demoPinPrompt windowNew)))"
proof (rule reach_step [OF demo_waiting])
  let ?t = "TaskSecret demoPinPrompt 9" and ?w = "snd (showPrompt False demoPinPrompt windowNew)"
  show "demoSteps askCodec (helperAsked ?t) (helperAt ?t ?w)"
    using hs_prompt [of demoPinPrompt 9 "helperAsked ?t" ?w]
    by (simp add: helperAt_def helperAsked_def helperCold_def showPrompt_def windowNew_def)
qed

lemma demo_sent:
  "reach helperInit (demoSteps askCodec)
     (finishWith (demoProviders\<lparr>pv_secret := (\<lambda>_. promptReply StOk [49, 50])\<rparr>) 0 (helperAt (TaskSecret demoPinPrompt 9) demoAnswered))"
proof -
  let ?t = "TaskSecret demoPinPrompt 9" and ?w = "snd (showPrompt False demoPinPrompt windowNew)"
  have "\<exists>p. sm_find (wi_store ?w) 0 = Some p \<and> pl_onScreen p" by (simp add: showPrompt_def raisePanel_def windowNew_def)
  then obtain p where p: "sm_find (wi_store ?w) 0 = Some p" "pl_onScreen p" by blast
  obtain q where q: "sm_find (wi_store (editFields 0 [49, 50] [] [] ?w)) 0 = Some q" "pl_onScreen q" "pl_okEnabled q"
    using demoStanding_panel by (auto simp: demoStanding_def)
  have taken: "reach helperInit (demoSteps askCodec) (helperAt ?t demoAnswered)"
    using demo_typed [OF demo_raised p q] by (simp add: demoAnswered_def demoStanding_def)
  have "wi_answers demoAnswered = [(0, StOk, [49, 50], [])]"
    by (simp add: demoAnswered_def demoStanding_def editFields_def showPrompt_def raisePanel_def windowNew_def demoPinPrompt_def
        showWithDeadlineMs_def controlTextDidChange_def newPanel_def refreshOkGate_def takeAnswer_def finishWithStatus_def
        answerPanel_def Let_def readSecret_def freshState_def)
  then show ?thesis
    by (intro reach_step [OF taken hs_reply [where n = 0 and r = demoPinPrompt and fd = 9 and b = "[]"]]) simp_all
qed

lemma finishWith_fields: "he_raised (finishWith pv i h) = he_raised h" "he_window (finishWith pv i h) = he_window h"
  by (simp_all add: finishWith_def)

lemma demo_outcomes: "he_outcomes (finishWith pv 0 (helperAt t w)) = [runTask pv t]"
  by (simp add: finishWith_def withServer_def finishTask_def helperAt_def helperAsked_def demoServer_def)

definition demoChange :: RequestSecrets where
  "demoChange = \<lparr>rs_kind = ''change_pin'', rs_title = [], rs_description = [], rs_requester = [], rs_artifact = [],
     rs_primaryMinLength = 0, rs_primaryMaxLength = 8, rs_newMinLength = 2, rs_newMaxLength = 8, rs_promptId = ''p2'',
     rs_deadlineMs = 60000\<rparr>"

definition demoChanged :: window where
  "demoChanged = takeAnswer 0 (finishWithStatus StOk 0
     (editFields 0 [49] [50, 51] [50, 51] (snd (showChangePrompt ''change_pin'' False demoChange windowNew))))"

lemmas demo_change_defs = editFields_def showChangePrompt_def raisePanel_def windowNew_def demoChange_def
  showWithDeadlineMs_def controlTextDidChange_def newPanel_def refreshOkGate_def changeInputsAcceptable_def withinBounds_def
  freshState_def

lemma demo_change_sent:
  "reach helperInit (demoSteps (constCodec (toCborRequestSecrets demoChange)))
     (finishWith (demoProviders\<lparr>pv_secrets := (\<lambda>_. multiReply StOk [49] [50, 51])\<rparr>) 0
       (helperAt (TaskSecrets demoChange 9) demoChanged))"
proof -
  let ?cd = "constCodec (toCborRequestSecrets demoChange)" and ?t = "TaskSecrets demoChange 9"
  let ?w = "snd (showChangePrompt ''change_pin'' False demoChange windowNew)"
  have "parsePrompterRequest demoVocab ?cd [1] = Inr (ReqSecrets demoChange)"
    by (rule roundtrip_secrets) (simp add: constCodec_def)
  then have "reach helperInit (demoSteps ?cd) (helperAsked ?t)" by (rule demo_request_read) simp
  moreover have "demoSteps ?cd (helperAsked ?t) (helperAt ?t ?w)"
    using hs_change [of demoChange 9 "helperAsked ?t" "''change_pin''" ?w]
    by (simp add: helperAt_def helperAsked_def helperCold_def showChangePrompt_def windowNew_def demoChange_def)
  ultimately have raised: "reach helperInit (demoSteps ?cd) (helperAt ?t ?w)" by (rule reach_step)
  have "\<exists>p. sm_find (wi_store ?w) 0 = Some p \<and> pl_onScreen p" by (simp add: demo_change_defs)
  then obtain p where p: "sm_find (wi_store ?w) 0 = Some p" "pl_onScreen p" by blast
  have "\<exists>q. sm_find (wi_store (editFields 0 [49] [50, 51] [50, 51] ?w)) 0 = Some q \<and> pl_onScreen q \<and> pl_okEnabled q"
    by (simp add: demo_change_defs)
  then obtain q where q: "sm_find (wi_store (editFields 0 [49] [50, 51] [50, 51] ?w)) 0 = Some q" "pl_onScreen q" "pl_okEnabled q"
    by blast
  have taken: "reach helperInit (demoSteps ?cd) (helperAt ?t demoChanged)"
    using demo_typed [OF raised p q] by (simp add: demoChanged_def)
  have "wi_answers demoChanged = [(0, StOk, [49], [50, 51])]"
    by (simp add: demoChanged_def demo_change_defs takeAnswer_def finishWithStatus_def answerPanel_def Let_def readSecret_def)
  then show ?thesis
    by (intro reach_step [OF taken hs_replies [where n = 0 and rs = demoChange and fd = 9]]) simp_all
qed

section \<open>Properties\<close>





end
