(* ===== verification/Helper_Progress.thy ===== *)
theory Helper_Progress
  imports Helper_Process
begin

text \<open>
  That no request waits at the helper for want of a way out. The safety side of \<open>Helper_Process\<close> says what may be
  sent; here it is shown that something can be: whatever panels stand and whatever else is waiting, the
  worker of each request has a run to its reply, and a panel with a deadline has its clock running for as
  long as it stands.
\<close>

section \<open>The clock of a panel\<close>

fun deadlineOf :: "task \<Rightarrow> u32" where
  "deadlineOf (TaskSecret r fd) = pr_deadlineMs r"
| "deadlineOf (TaskSecrets rs fd) = rs_deadlineMs rs"
| "deadlineOf _ = 0"

definition clockFor :: "u32 \<Rightarrow> u32 option" where
  "clockFor d = (if d = 0 then None else Some d)"

text \<open>No step of the window puts a panel back on the screen or changes its clock while it stands.\<close>

definition clocked :: "window \<Rightarrow> window \<Rightarrow> bool" where
  "clocked w v \<longleftrightarrow>
     (\<forall>n p. sm_find (wi_store w) n = Some p \<longrightarrow>
        (\<exists>q. sm_find (wi_store v) n = Some q
           \<and> (pl_onScreen q \<longrightarrow> pl_onScreen p \<and> pl_deadlineTimer q = pl_deadlineTimer p)))"

lemma clocked_refl [simp]: "clocked w w"
  by (simp add: clocked_def)

lemma clocked_trans: "clocked w v \<Longrightarrow> clocked v u \<Longrightarrow> clocked w u"
  unfolding clocked_def by (metis (no_types, lifting))

lemma clocked_finish: "clocked w (finishWithStatus status n w)"
  by (auto simp: clocked_def finishWithStatus_def answerPanel_def Let_def split: option.split)

lemma clocked_sweep: "clocked w (fold (finishWithStatus status) targets w)"
  by (induction targets arbitrary: w) (auto intro: clocked_trans clocked_finish)

lemma clocked_raise: "windowOk w \<Longrightarrow> clocked w (raisePanel promptId d p w)"
  using windowOk_fresh [of w] by (auto simp: clocked_def raisePanel_def)

lemma clocked_step:
  assumes "windowStep kind w v" and "windowOk w"
  shows "clocked w v"
  using assms
proof (induction rule: windowStep.induct)
  case (wi_take w n)
  then show ?case by (auto simp: clocked_def takeAnswer_def split: option.split)
next
  case (wi_edit w n p a b c)
  then show ?case by (auto simp: clocked_def editFields_def controlTextDidChange_def refreshOkGate_def)
qed (auto simp: showPrompt_def showChangePrompt_def clocked_raise clocked_finish dismiss_def dismissAll_def finishPanels_def
    Let_def clocked_sweep)

lemma clocked_steps:
  assumes "(windowStep kind)\<^sup>*\<^sup>* w v" and "windowOk w \<and> ageOrdered w"
  shows "clocked w v"
  using assms(1)
proof (induction rule: rtranclp_induct)
  case (step v u)
  then have "windowOk v" using keeps_steps assms(2) by blast
  with step show ?case using clocked_step clocked_trans by blast
qed simp

section \<open>The books of the waiting requests\<close>

text \<open>A panel stands for a request that still waits or was answered, and keeps that request's clock.\<close>

definition held :: "helper \<Rightarrow> bool" where
  "held h \<longleftrightarrow> (\<forall>(n, t) \<in> set (he_raised h). t \<in> set (he_tasks h) \<or> taskFd t \<in> outcomeFd ` set (he_outcomes h))"

definition timed :: "helper \<Rightarrow> bool" where
  "timed h \<longleftrightarrow>
     (\<forall>(n, t) \<in> set (he_raised h). \<forall>p. sm_find (wi_store (he_window h)) n = Some p \<and> pl_onScreen p
        \<longrightarrow> pl_deadlineTimer p = clockFor (deadlineOf t))"

lemma runTask_fd [simp]: "outcomeFd (runTask pv t) = taskFd t"
  by (cases t) simp_all

lemma finish_tasks:
  "i < length (he_tasks h) \<Longrightarrow> he_tasks (finishWith pv i h) = take i (he_tasks h) @ drop (Suc i) (he_tasks h)"
  by (simp add: finishWith_def withServer_def finishTask_def)

lemma held_finish:
  assumes "held h" and "i < length (he_tasks h)"
  shows "held (finishWith pv i h)"
proof -
  have "t = he_tasks h ! i \<or> t \<in> set (he_tasks (finishWith pv i h))" if "t \<in> set (he_tasks h)" for t
    using that id_take_nth_drop [OF assms(2)] finish_tasks [OF assms(2), of pv]
    by (metis Un_iff insert_iff list.set(2) set_append)
  with assms show ?thesis by (fastforce simp: held_def finish_outcomes finishWith_fields)
qed

lemma read_tasks: "set (ps_tasks s) \<subseteq> set (ps_tasks (psOnReadReady voc cd cid frames ok s))"
proof -
  have "set (ps_tasks s) \<subseteq> set (ps_tasks (dispatchRequest fd req (s\<lparr>ps_connections := c\<rparr>)))" for fd req c
    by (cases req) (auto simp: addTask_def)
  then show ?thesis
    by (auto simp: psOnReadReady_def psCloseConnection_def addTask_def Let_def split: option.split list.split sum.split
        dest: subsetD)
qed

lemma server_outcomes:
  "serverStep voc cd peerAuth pv w s \<Longrightarrow> set (ps_outcomes (wa_server w)) \<subseteq> set (ps_outcomes (wa_server s))"
  by (erule serverStep.cases)
    (auto simp: withServer_def withListener_def psStart_def psStop_def psStopLoop_def psAcceptOne_def finishTask_def Let_def
      split: bool.split prod.split)

lemma held_server:
  assumes "held h" and "set (he_tasks h) \<subseteq> set (ps_tasks (wa_server s))" and "set (he_outcomes h) \<subseteq> set (ps_outcomes (wa_server s))"
  shows "held (h\<lparr>he_server := s\<rparr>)"
  using assms by (fastforce simp: held_def)

lemma held_window [simp]:
  "held (h\<lparr>he_window := v\<rparr>) = held h" "held (h\<lparr>he_dismissed := k\<rparr>) = held h" "held (h\<lparr>he_named := ns, he_log := l\<rparr>) = held h"
  "held (h\<lparr>he_window := v, he_dismissed := k\<rparr>) = held h"
  by (simp_all add: held_def)

lemma held_step:
  assumes "helperStep voc cd peerAuth kind ct h h'" and "held h"
  shows "held h'"
  using assms
proof cases
  case (hs_admin pv s)
  with assms(2) server_outcomes [OF hs_admin(2)] show ?thesis by (simp add: held_server)
next
  case (hs_read cid frames fine)
  with assms(2) show ?thesis by (simp add: held_server withServer_def read_tasks)
next
  case (hs_prompt r fd v)
  with assms(2) show ?thesis by (auto simp: held_def)
next
  case (hs_change rs fd v)
  with assms(2) show ?thesis by (auto simp: held_def)
qed (use assms(2) in \<open>simp_all add: held_finish\<close>)

lemma timed_keep:
  assumes "timed h" and "clocked (he_window h) (he_window h')" and "he_raised h' = he_raised h" and "raisedOk h"
  shows "timed h'"
proof -
  have "pl_deadlineTimer q = clockFor (deadlineOf t)"
    if at: "(n, t) \<in> set (he_raised h)" "sm_find (wi_store (he_window h')) n = Some q" "pl_onScreen q" for n t q
  proof -
    obtain p where p: "sm_find (wi_store (he_window h)) n = Some p" using assms(4) at(1) by (auto simp: raisedOk_def)
    with assms(2) at(2,3) have "pl_onScreen p" "pl_deadlineTimer q = pl_deadlineTimer p" unfolding clocked_def by fastforce+
    with assms(1) at(1) p show ?thesis by (auto simp: timed_def)
  qed
  then show ?thesis using assms(3) by (auto simp: timed_def)
qed

lemma timed_raise:
  assumes "timed h" and ok: "helperOk h" and "v = raisePanel promptId (deadlineOf t) p (he_window h)" and "pl_deadlineTimer p = None"
  shows "timed (h\<lparr>he_window := v, he_raised := he_raised h @ [(wi_next (he_window h), t)]\<rparr>)"
proof -
  have w: "windowOk (he_window h)" "raisedOk h" using ok by (simp_all add: helperOk_def)
  have "timed (h\<lparr>he_window := v\<rparr>)"
    by (rule timed_keep [OF assms(1)]) (simp_all add: assms(3) clocked_raise w)
  moreover have "sm_find (wi_store v) (wi_next (he_window h)) = Some (showWithDeadlineMs (deadlineOf t) p)"
    by (simp add: assms(3) raisePanel_def)
  moreover have "pl_deadlineTimer (showWithDeadlineMs (deadlineOf t) p) = clockFor (deadlineOf t)"
    by (simp add: showWithDeadlineMs_def clockFor_def assms(4))
  ultimately show ?thesis by (auto simp: timed_def)
qed

lemma new_panel_clock [simp]: "pl_deadlineTimer (newPanel change st) = None" "pl_deadlineTimer (refreshOkGate p) = pl_deadlineTimer p"
  by (simp_all add: newPanel_def refreshOkGate_def)

lemma timed_step:
  assumes "helperStep voc cd peerAuth kind ct h h'" and "timed h" and ok: "helperOk h"
  shows "timed h'"
proof -
  have "raisedOk h" "windowOk (he_window h) \<and> ageOrdered (he_window h)" using ok by (simp_all add: helperOk_def)
  with clocked_steps [OF helperStep_window [OF assms(1)]]
  have kept: "he_raised h' = he_raised h \<Longrightarrow> timed h'" using timed_keep [OF assms(2)] by blast
  show ?thesis
    using assms(1)
  proof cases
    case (hs_prompt r fd v)
    then show ?thesis
      using timed_raise [OF assms(2) ok, of v "pr_promptId r" "TaskSecret r fd" "newPanel False freshState"]
      by (simp add: showPrompt_def)
  next
    case (hs_change rs fd v)
    then show ?thesis
      using timed_raise [OF assms(2) ok, of v "rs_promptId rs" "TaskSecrets rs fd"]
      by (auto simp: showChangePrompt_def split: if_splits)
  qed (use kept in \<open>simp_all add: finishWith_fields\<close>)
qed

interpretation helper_progress:
  invariant_system helperInit "helperStep voc cd peerAuth kind ct" "\<lambda>h. helperOk h \<and> held h \<and> timed h"
  for voc cd peerAuth kind ct
proof
  show "helperOk h \<and> held h \<and> timed h" if "helperInit h" for h
    using that helper_system.inv_init by (auto simp: helperInit_def held_def timed_def)
  show "helperOk h' \<and> held h' \<and> timed h'"
    if "helperOk h \<and> held h \<and> timed h" "helperStep voc cd peerAuth kind ct h h'" for h h'
    using that(1) by (auto intro: helperStep_ok [OF that(2)] held_step [OF that(2)] timed_step [OF that(2)])
qed

section \<open>A way out for every request\<close>

lemma helperOk_steps: "(helperStep voc cd peerAuth kind ct)\<^sup>*\<^sup>* h h' \<Longrightarrow> helperOk h \<Longrightarrow> helperOk h'"
  by (induction rule: rtranclp_induct) (auto intro: helperStep_ok)

lemma tasks_distinct: "helperOk h \<Longrightarrow> distinct (map taskFd (he_tasks h))"
  by (simp add: helperOk_def serverOk_def servedOk_def Let_def)

lemma waiting_unanswered: "helperOk h \<Longrightarrow> t \<in> set (he_tasks h) \<Longrightarrow> taskFd t \<notin> outcomeFd ` set (he_outcomes h)"
  by (auto simp: helperOk_def serverOk_def servedOk_def Let_def)

text \<open>The panel that stands for the connection of a waiting request was raised for that request.\<close>

lemma raised_for_waiting:
  assumes "helperOk h" and "held h" and "t \<in> set (he_tasks h)" and "(n, u) \<in> set (he_raised h)" and "taskFd u = taskFd t"
  shows "u = t"
proof -
  have "u \<in> set (he_tasks h) \<or> taskFd u \<in> outcomeFd ` set (he_outcomes h)" using assms(2,4) by (auto simp: held_def)
  then have "u \<in> set (he_tasks h)" using waiting_unanswered [OF assms(1,3)] assms(5) by simp
  with tasks_distinct [OF assms(1)] assms(3,5) show ?thesis by (auto simp: distinct_map inj_on_def)
qed

text \<open>A run that answers one request: one more outcome, on its connection, and the others still wait.\<close>

definition answersOne :: "helper \<Rightarrow> task \<Rightarrow> helper \<Rightarrow> bool" where
  "answersOne h t h' \<longleftrightarrow>
     (\<exists>out. he_outcomes h' = he_outcomes h @ [out] \<and> outcomeFd out = taskFd t \<and> set (he_tasks h') = set (he_tasks h) - {t})"

lemma set_remove_nth: "i < length xs \<Longrightarrow> distinct xs \<Longrightarrow> set (take i xs @ drop (Suc i) xs) = set xs - {xs ! i}"
proof -
  have "distinct (ys @ x # zs) \<Longrightarrow> set (ys @ zs) = set (ys @ x # zs) - {x}" for x and ys zs :: "'a list" by auto
  then show "i < length xs \<Longrightarrow> distinct xs \<Longrightarrow> ?thesis" by (metis id_take_nth_drop)
qed

lemma finish_answers:
  assumes "i < length (he_tasks h)" and "helperOk h" and "he_server h = he_server h0"
  shows "answersOne h0 (he_tasks h ! i) (finishWith pv i h)"
proof -
  have "distinct (he_tasks h)" using tasks_distinct [OF assms(2)] by (simp add: distinct_map)
  from set_remove_nth [OF assms(1) this] show ?thesis
    using assms(3) by (simp add: answersOne_def finish_outcomes [OF assms(1)] finish_tasks [OF assms(1)])
qed

text \<open>A raised panel can be brought to its taken answer, whatever state it is in, without touching the server.\<close>

lemma answer_taken:
  assumes "helperOk h" and "(n, t) \<in> set (he_raised h)"
  obtains v s a b where "(helperStep voc cd peerAuth kind ct)\<^sup>*\<^sup>* h (h\<lparr>he_window := v\<rparr>)" and "(n, s, a, b) \<in> set (wi_answers v)"
proof -
  let ?w = "he_window h"
  obtain p where p: "sm_find (wi_store ?w) n = Some p" using assms by (auto simp: helperOk_def raisedOk_def)
  have ok: "windowOk ?w" using assms(1) by (simp add: helperOk_def)
  have take: "helperStep voc cd peerAuth kind ct (h\<lparr>he_window := u\<rparr>) (h\<lparr>he_window := takeAnswer n u\<rparr>)" for u
    using hs_take [of voc cd peerAuth kind ct "h\<lparr>he_window := u\<rparr>" n] by simp
  show ?thesis
  proof (cases "pl_finished p")
    case False
    let ?u = "finishWithStatus StCancelled n ?w"
    have "pl_onScreen p" using windowOk_panel [OF ok p] False by (simp add: panelOk_def)
    with p have "helperStep voc cd peerAuth kind ct h (h\<lparr>he_window := ?u\<rparr>)" by (rule hs_cancel)
    then have "(helperStep voc cd peerAuth kind ct)\<^sup>*\<^sup>* h (h\<lparr>he_window := takeAnswer n ?u\<rparr>)"
      using take [of ?u] by (meson r_into_rtranclp rtranclp.rtrancl_into_rtrancl)
    then show ?thesis
      by (rule that [where s = StCancelled and a = "ps_primary (pl_state p)" and b = "ps_secondary (pl_state p)"])
        (use p False in \<open>simp add: finishWithStatus_def takeAnswer_def answerPanel_def Let_def\<close>)
  next
    case True
    show ?thesis
    proof (cases "pl_signalled p = 0")
      case True
      then have "length (filter (\<lambda>e. fst e = n) (wi_answers ?w)) = 1"
        using windowOk_panel [OF ok p] \<open>pl_finished p\<close> p by (simp add: account_def)
      then obtain e where e: "e \<in> set (wi_answers ?w)" "fst e = n"
        by (metis (mono_tags, lifting) filter_empty_conv length_0_conv zero_neq_one)
      from e(2) obtain s a b where "e = (n, s, a, b)" by (cases e) auto
      with e(1) show ?thesis by (intro that [of ?w s a b]) simp_all
    next
      case False
      then have "\<exists>s a b. (n, s, a, b) \<in> set (wi_answers (takeAnswer n ?w))" using p by (auto simp: takeAnswer_def)
      moreover have "(helperStep voc cd peerAuth kind ct)\<^sup>*\<^sup>* h (h\<lparr>he_window := takeAnswer n ?w\<rparr>)" using take [of ?w] by simp
      ultimately show ?thesis using that by blast
    qed
  qed
qed

definition canFinish ::
    "prompter_vocab \<Rightarrow> codec \<Rightarrow> ('cred \<Rightarrow> bool) \<Rightarrow> string \<Rightarrow> catalogue \<Rightarrow> helper \<Rightarrow> task \<Rightarrow> bool" where
  "canFinish voc cd peerAuth kind ct h t \<longleftrightarrow>
     (\<exists>h'. (helperStep voc cd peerAuth kind ct)\<^sup>*\<^sup>* h h' \<and> answersOne h t h')"

lemma canFinish_now:
  assumes "helperStep voc cd peerAuth kind ct h (finishWith pv i h)" and "helperOk h" and "i < length (he_tasks h)"
  shows "canFinish voc cd peerAuth kind ct h (he_tasks h ! i)"
  unfolding canFinish_def using finish_answers [OF assms(3,2) refl, of pv] assms(1) by blast

lemma canFinish_later:
  assumes "(helperStep voc cd peerAuth kind ct)\<^sup>*\<^sup>* h h1" and "he_server h1 = he_server h"
    and "canFinish voc cd peerAuth kind ct h1 t"
  shows "canFinish voc cd peerAuth kind ct h t"
  using assms by (auto simp: canFinish_def answersOne_def intro: rtranclp_trans)

text \<open>Once a panel stands for a request, its answer can be taken and sent.\<close>

lemma canFinish_raised:
  assumes "helperOk h" and "(n, t) \<in> set (he_raised h)" and "t \<in> set (he_tasks h)"
    and "t = TaskSecret r fd \<or> t = TaskSecrets rs fd"
  shows "canFinish voc cd peerAuth kind ct h t"
proof -
  obtain v s a b where v: "(helperStep voc cd peerAuth kind ct)\<^sup>*\<^sup>* h (h\<lparr>he_window := v\<rparr>)" "(n, s, a, b) \<in> set (wi_answers v)"
    using answer_taken [OF assms(1,2)] .
  let ?h = "h\<lparr>he_window := v\<rparr>"
  obtain i where i: "i < length (he_tasks ?h)" "he_tasks ?h ! i = t" using assms(3) by (auto simp: in_set_conv_nth)
  have at: "(n, t) \<in> set (he_raised ?h)" "(n, s, a, b) \<in> set (wi_answers (he_window ?h))" using assms(2) v(2) by simp_all
  have ok: "helperOk ?h" using v(1) assms(1) by (rule helperOk_steps)
  have "\<exists>pv. helperStep voc cd peerAuth kind ct ?h (finishWith pv i ?h)"
    using assms(4)
  proof
    assume t: "t = TaskSecret r fd"
    show ?thesis by (rule exI, rule hs_reply [OF at(1) [unfolded t] at(2) i(1) i(2) [unfolded t]])
  next
    assume t: "t = TaskSecrets rs fd"
    show ?thesis by (rule exI, rule hs_replies [OF at(1) [unfolded t] at(2) i(1) i(2) [unfolded t]])
  qed
  then have "canFinish voc cd peerAuth kind ct ?h t" using canFinish_now ok i by metis
  then show ?thesis by (rule canFinish_later [OF v(1), rotated]) simp
qed

text \<open>A panel that already stands for the connection is the request's own; otherwise one can be raised.\<close>

lemma canFinish_prompt:
  assumes "helperOk h" and "held h" and "t \<in> set (he_tasks h)" and "t = TaskSecret r fd \<or> t = TaskSecrets rs fd"
    and raise: "taskFd t \<notin> taskFd ` snd ` set (he_raised h)
      \<Longrightarrow> \<exists>v. helperStep voc cd peerAuth kind ct h (h\<lparr>he_window := v, he_raised := he_raised h @ [(n, t)]\<rparr>)"
  shows "canFinish voc cd peerAuth kind ct h t"
proof (cases "taskFd t \<in> taskFd ` snd ` set (he_raised h)")
  case True
  then obtain m u where "(m, u) \<in> set (he_raised h)" "taskFd u = taskFd t" by auto
  moreover from raised_for_waiting [OF assms(1-3) this] have "u = t" .
  ultimately show ?thesis using canFinish_raised [OF assms(1) _ assms(3,4)] by blast
next
  case False
  then obtain v where step: "helperStep voc cd peerAuth kind ct h (h\<lparr>he_window := v, he_raised := he_raised h @ [(n, t)]\<rparr>)"
    using raise by blast
  have "helperOk (h\<lparr>he_window := v, he_raised := he_raised h @ [(n, t)]\<rparr>)" using step assms(1) by (rule helperStep_ok)
  then have "canFinish voc cd peerAuth kind ct (h\<lparr>he_window := v, he_raised := he_raised h @ [(n, t)]\<rparr>) t"
    by (rule canFinish_raised [where n = n and r = r and fd = fd and rs = rs]) (use assms(3,4) in simp_all)
  then show ?thesis by (rule canFinish_later [rotated 2]) (use step in auto)
qed

lemma canFinish_secret:
  assumes "helperOk h" and "held h" and "TaskSecret r fd \<in> set (he_tasks h)"
  shows "canFinish voc cd peerAuth kind ct h (TaskSecret r fd)"
proof (rule canFinish_prompt [OF assms, where n = "wi_next (he_window h)"])
  show "\<exists>v. helperStep voc cd peerAuth kind ct h
      (h\<lparr>he_window := v, he_raised := he_raised h @ [(wi_next (he_window h), TaskSecret r fd)]\<rparr>)"
    if "taskFd (TaskSecret r fd) \<notin> taskFd ` snd ` set (he_raised h)"
    by (rule exI, rule hs_prompt) (use that assms(3) in \<open>simp_all add: showPrompt_def\<close>)
qed simp

lemma canFinish_secrets:
  assumes "helperOk h" and "held h" and "TaskSecrets rs fd \<in> set (he_tasks h)"
  shows "canFinish voc cd peerAuth kind ct h (TaskSecrets rs fd)"
proof (cases "showChangePrompt kind False rs (he_window h)")
  case (Pair refusal v)
  show ?thesis
  proof (cases refusal)
    case None
    show ?thesis
    proof (rule canFinish_prompt [OF assms, where n = "wi_next (he_window h)"])
      show "\<exists>v. helperStep voc cd peerAuth kind ct h
          (h\<lparr>he_window := v, he_raised := he_raised h @ [(wi_next (he_window h), TaskSecrets rs fd)]\<rparr>)"
        if "taskFd (TaskSecrets rs fd) \<notin> taskFd ` snd ` set (he_raised h)"
        by (rule exI, rule hs_change) (use that assms(3) Pair None in simp_all)
    qed simp
  next
    case (Some reply)
    obtain i where i: "i < length (he_tasks h)" "he_tasks h ! i = TaskSecrets rs fd"
      using assms(3) by (auto simp: in_set_conv_nth)
    have "helperStep voc cd peerAuth kind ct h (finishWith (demoProviders\<lparr>pv_secrets := (\<lambda>_. reply)\<rparr>) i h)"
      using hs_unsupported [OF i] Pair Some by simp
    from canFinish_now [OF this assms(1) i(1)] i(2) show ?thesis by simp
  qed
qed

lemma canFinish_sweep:
  assumes "helperOk h" and "TaskReset fd \<in> set (he_tasks h)" and "fd \<in> set (he_named h)"
  shows "canFinish voc cd peerAuth kind ct h (TaskReset fd)"
proof -
  obtain i where i: "i < length (he_tasks h)" "he_tasks h ! i = TaskReset fd" using assms(2) by (auto simp: in_set_conv_nth)
  obtain closed v where v: "dismissAll (he_window h) = (closed, v)" by fastforce
  let ?h = "h\<lparr>he_window := v\<rparr>" and ?pv = "demoProviders\<lparr>pv_reset := of_nat closed\<rparr>"
  have step: "helperStep voc cd peerAuth kind ct h (finishWith ?pv i ?h)" by (rule hs_sweep [OF i assms(3) v])
  have "helperOk ?h" using helperOk_window_step [OF assms(1) wi_dismissAll [of kind]] v by simp
  then have "answersOne h (TaskReset fd) (finishWith ?pv i ?h)"
    using finish_answers [of i ?h h ?pv] i by simp
  then show ?thesis unfolding canFinish_def using step by blast
qed

lemma canFinish_reset:
  assumes "helperOk h" and "TaskReset fd \<in> set (he_tasks h)"
  shows "canFinish voc cd peerAuth kind ct h (TaskReset fd)"
proof (cases "fd \<in> set (he_named h)")
  case True
  with assms show ?thesis by (rule canFinish_sweep)
next
  case False
  let ?h = "h\<lparr>he_named := fd # he_named h, he_log := he_log h @ [resetLine (liveIds (he_window h))]\<rparr>"
  have step: "helperStep voc cd peerAuth kind ct h ?h" using assms(2) False by (rule hs_name)
  have "canFinish voc cd peerAuth kind ct ?h (TaskReset fd)"
    by (rule canFinish_sweep) (use assms in \<open>simp_all add: helperOk_ghost\<close>)
  then show ?thesis by (rule canFinish_later [rotated 2]) (use step in auto)
qed

lemma waiting_can_finish:
  assumes "helperOk h" and "held h" and "t \<in> set (he_tasks h)"
  shows "canFinish voc cd peerAuth kind ct h t"
proof -
  obtain i where i: "i < length (he_tasks h)" "he_tasks h ! i = t" using assms(3) by (auto simp: in_set_conv_nth)
  have now: ?thesis if "helperStep voc cd peerAuth kind ct h (finishWith pv i h)" for pv
    using canFinish_now [OF that assms(1) i(1)] i(2) by simp
  show ?thesis
  proof (cases t)
    case (TaskRefuseVersion fd)
    with i show ?thesis by (intro now hs_refuse) auto
  next
    case (TaskRefuseConfirm fd)
    with i show ?thesis by (intro now hs_refuse) auto
  next
    case (TaskConfirm q fd)
    show ?thesis by (rule now, rule hs_confirm [OF i(1) i(2) [unfolded TaskConfirm]])
  next
    case (TaskSecret r fd)
    with assms show ?thesis by (simp add: canFinish_secret)
  next
    case (TaskSecrets rs fd)
    with assms show ?thesis by (simp add: canFinish_secrets)
  next
    case (TaskReset fd)
    with assms show ?thesis by (simp add: canFinish_reset)
  qed
qed

section \<open>Properties\<close>

text \<open>
  C22: no request waits at the helper for want of a way out. In every reachable state, with any number of
  panels standing and other requests waiting, each waiting request has a run that sends one reply, on its
  own connection, and leaves the other requests waiting; and a panel that stands has exactly the deadline of
  the request it was raised for on its clock.
\<close>
theorem waiting_request_has_way_out:
  assumes "reach helperInit (helperStep voc cd peerAuth kind ct) h"
  shows "(t \<in> set (he_tasks h) \<longrightarrow>
            (\<exists>h' out. (helperStep voc cd peerAuth kind ct)\<^sup>*\<^sup>* h h' \<and> he_outcomes h' = he_outcomes h @ [out]
               \<and> outcomeFd out = taskFd t \<and> set (he_tasks h') = set (he_tasks h) - {t}))
       \<and> ((n, t) \<in> set (he_raised h) \<and> sm_find (wi_store (he_window h)) n = Some p \<and> pl_onScreen p
            \<longrightarrow> pl_deadlineTimer p = (if deadlineOf t = 0 then None else Some (deadlineOf t)))"
proof -
  have ok: "helperOk h" "held h" "timed h" using helper_progress.reach_inv [OF assms] by simp_all
  have "canFinish voc cd peerAuth kind ct h t" if "t \<in> set (he_tasks h)" using ok(1,2) that by (rule waiting_can_finish)
  moreover have "pl_deadlineTimer p = clockFor (deadlineOf t)"
    if "(n, t) \<in> set (he_raised h)" "sm_find (wi_store (he_window h)) n = Some p" "pl_onScreen p"
    using ok(3) that by (auto simp: timed_def)
  ultimately show ?thesis by (auto simp: canFinish_def answersOne_def clockFor_def)
qed

theorem waiting_request_has_way_out_witness:
  "(\<exists>h' out. (demoSteps askCodec)\<^sup>*\<^sup>* (helperAsked (TaskSecret demoPinPrompt 9)) h' \<and> he_outcomes h' = [out] \<and> outcomeFd out = 9)
   \<and> (\<exists>p. sm_find (wi_store (snd (showPrompt False demoPinPrompt windowNew))) 0 = Some p \<and> pl_deadlineTimer p = Some 60000)"
proof
  let ?t = "TaskSecret demoPinPrompt 9" and ?w = "snd (showPrompt False demoPinPrompt windowNew)"
  have "?t \<in> set (he_tasks (helperAsked ?t))" "he_outcomes (helperAsked ?t) = []"
    by (simp_all add: helperAsked_def helperCold_def demoServer_def)
  with waiting_request_has_way_out [OF demo_waiting, THEN conjunct1, of ?t]
  show "\<exists>h' out. (demoSteps askCodec)\<^sup>*\<^sup>* (helperAsked ?t) h' \<and> he_outcomes h' = [out] \<and> outcomeFd out = 9" by auto
  have "\<exists>p. sm_find (wi_store ?w) 0 = Some p \<and> pl_onScreen p" by (simp add: showPrompt_def raisePanel_def windowNew_def showWithDeadlineMs_def)
  then obtain p where p: "sm_find (wi_store ?w) 0 = Some p" "pl_onScreen p" by blast
  then have "pl_deadlineTimer p = (if deadlineOf ?t = 0 then None else Some (deadlineOf ?t))"
    using waiting_request_has_way_out [OF demo_raised, THEN conjunct2, of 0 ?t p] by simp
  with p show "\<exists>p. sm_find (wi_store ?w) 0 = Some p \<and> pl_deadlineTimer p = Some 60000" by (simp add: demoPinPrompt_def)
qed

end
