(* ===== verification/Transport_Steps.thy ===== *)
theory Transport_Steps
  imports Connections
begin

text \<open>
  What the operations of \<^verbatim>\<open>agent/src/backend/SocketTransport.cpp\<close> promise the components above them,
  stated once for all of them: a transport only evolves by updating connections in place and by closing
  them, each close telling every registered handler; and the commands addressed to one connection append
  to its byte stream and leave every other connection alone.
\<close>

section \<open>Evolution\<close>

text \<open>The table as the handlers see it: who is connected, who listens, what was told.\<close>

definition sameShape :: "'cred transport \<Rightarrow> 'cred transport \<Rightarrow> bool" where
  "sameShape t t' \<longleftrightarrow>
     t_nextConnId t' = t_nextConnId t \<and> t_sink t' = t_sink t \<and> t_loopQuiesced t' = t_loopQuiesced t
     \<and> t_disconnectHandlers t' = t_disconnectHandlers t \<and> t_notified t' = t_notified t
     \<and> (\<forall>k. map_option co_caller (sm_find (t_connections t') k) = map_option co_caller (sm_find (t_connections t) k)
           \<and> map_option co_creds (sm_find (t_connections t') k) = map_option co_creds (sm_find (t_connections t) k))"

definition isLive :: "nat \<Rightarrow> 'cred transport \<Rightarrow> bool" where
  "isLive k t \<longleftrightarrow> sm_find (t_connections t) k \<noteq> None"

inductive evolves :: "'cred transport \<Rightarrow> 'cred transport \<Rightarrow> bool" where
  ev_same: "sameShape t t' \<Longrightarrow> evolves t t'"
| ev_close: "transportOk t \<Longrightarrow> sm_find (t_connections t) k = Some c \<Longrightarrow> evolves t (closeConnection k t)"
| ev_trans: "evolves t t' \<Longrightarrow> evolves t' t'' \<Longrightarrow> evolves t t''"

named_theorems evolve_intros \<open>operations under which a transport evolves\<close>

lemma sameShape_refl [simp]: "sameShape t t"
  by (simp add: sameShape_def)

lemma evolves_refl [simp]: "evolves t t"
  by (simp add: ev_same)

lemma evolves_close [evolve_intros]: "transportOk t \<Longrightarrow> evolves t (closeConnection k t)"
  by (cases "sm_find (t_connections t) k") (simp add: closeConnection_def, rule ev_close)

lemma setConn_flags [simp]:
  "t_sink (setConn k c t) = t_sink t" "t_loopQuiesced (setConn k c t) = t_loopQuiesced t"
  by (simp_all add: setConn_def)

lemma evolves_setConn:
  "sm_find (t_connections t) k = Some c0 \<Longrightarrow> co_caller c = co_caller c0 \<Longrightarrow> co_creds c = co_creds c0
     \<Longrightarrow> evolves t (setConn k c t)"
  by (rule ev_same) (simp add: sameShape_def)

lemma evolves_io: "evolves t (t\<lparr>t_script := s, t_wire := w\<rparr>)"
  by (rule ev_same) (simp add: sameShape_def)

lemma evolves_flush_set:
  assumes "transportOk t" and "sm_find (t_connections t) cid = Some c0"
    and "co_caller c = co_caller c0" and "co_creds c = co_creds c0"
  shows "evolves t (flushWrites env cid (setConn cid c t))"
proof -
  obtain st q queued script chs
    where fl: "flushQueue env cid (t_script t) (co_outQueue c) (co_queuedBytes c) = (st, q, queued, script, chs)"
    by (metis prod_cases5)
  let ?t = "t\<lparr>t_script := script, t_wire := t_wire t @ chs\<rparr>"
  let ?c = "c\<lparr>co_outQueue := q, co_queuedBytes := queued\<rparr>"
  have here: "transportOk ?t" "sm_find (t_connections ?t) cid = Some c0" using assms by simp_all
  have "evolves t (setConn cid (?c\<lparr>co_writeSource := ws\<rparr>) ?t)" for ws
    using evolves_setConn [OF here(2), of "?c\<lparr>co_writeSource := ws\<rparr>"] assms(3,4) by (simp add: ev_trans [OF evolves_io])
  moreover have "evolves t (closeConnection cid ?t)" by (rule ev_trans [OF evolves_io evolves_close [OF here(1)]])
  ultimately show ?thesis
    using fl here assms(2,3)
    by (cases st) (auto simp: flushWrites_def Let_def closeConnection_set)
qed

lemma evolves_flush [evolve_intros]: "transportOk t \<Longrightarrow> evolves t (flushWrites env cid t)"
proof (cases "sm_find (t_connections t) cid")
  case (Some c)
  assume ok: "transportOk t"
  then have "setConn cid c t = t" using Some by (simp add: transportOk_def setConn_same)
  with evolves_flush_set [OF ok Some refl refl] show ?thesis by metis
qed (simp add: flushWrites_def)

lemma evolves_enqueue_set:
  assumes "transportOk t" and "sm_find (t_connections t) cid = Some c0"
    and "co_caller c = co_caller c0" and "co_creds c = co_creds c0"
  shows "evolves t (enqueueSend env cid framed fds (setConn cid c t))"
proof -
  let ?f = "\<lparr>of_bytes = framed, of_fds = fds, of_sent = 0, of_ancillarySent = False\<rparr>"
  let ?c = "c\<lparr>co_outQueue := co_outQueue c @ [?f], co_queuedBytes := co_queuedBytes c + length framed\<rparr>"
  have "evolves t (flushWrites env cid (setConn cid ?c t))"
    by (rule evolves_flush_set [OF assms(1,2)]) (simp_all add: assms(3,4))
  moreover have "evolves t (closeConnection cid t)" using assms(1) by (rule evolves_close)
  ultimately show ?thesis using assms(2,3) by (auto simp: enqueueSend_def Let_def closeConnection_set)
qed

lemma evolves_enqueue [evolve_intros]:
  assumes "transportOk t"
  shows "evolves t (enqueueSend env cid framed fds t)"
proof (cases "sm_find (t_connections t) cid")
  case (Some c)
  then have "setConn cid c t = t" using assms by (simp add: transportOk_def setConn_same)
  with evolves_enqueue_set [OF assms Some refl refl] show ?thesis by metis
qed (simp add: enqueueSend_def)

lemma evolves_sendTo [evolve_intros]: "transportOk t \<Longrightarrow> evolves t (sendTo env cid message fds t)"
  by (simp add: sendTo_def evolves_enqueue)

lemma evolves_sendThenClose [evolve_intros]: "transportOk t \<Longrightarrow> evolves t (sendThenClose env cid message t)"
  by (simp add: sendThenClose_def sendTo_def evolves_enqueue_set split: option.split)

lemma evolves_setWants [evolve_intros]: "evolves t (setWantsPresenceEvents cid wants t)"
  by (auto simp: setWantsPresenceEvents_def intro: evolves_setConn split: option.split)

lemma evolves_fold_enqueue:
  "transportOk t \<Longrightarrow> evolves t (fold (\<lambda>cid t. enqueueSend env cid b [] t) ids t)"
proof (induction ids arbitrary: t)
  case (Cons cid ids)
  from ev_trans [OF evolves_enqueue [OF Cons.prems] Cons.IH [OF enqueueSend_ok [OF Cons.prems]]]
  show ?case by simp
qed simp

lemma evolves_broadcast [evolve_intros]: "transportOk t \<Longrightarrow> evolves t (broadcast env event kind t)"
  by (simp add: broadcast_def evolves_fold_enqueue)

lemma evolves_timeout [evolve_intros]: "transportOk t \<Longrightarrow> evolves t (onFirstFrameTimeout cid t)"
  by (simp add: onFirstFrameTimeout_def evolves_close split: option.split)

lemma evolves_command [evolve_intros]: "transportOk t \<Longrightarrow> evolves t (runCommand env c t)"
  by (cases c) (simp_all add: evolve_intros)

lemma evolves_commands [evolve_intros]: "transportOk t \<Longrightarrow> evolves t (fold (runCommand env) cs t)"
proof (induction cs arbitrary: t)
  case (Cons c cs)
  from ev_trans [OF evolves_command [OF Cons.prems] Cons.IH [OF runCommand_ok [OF Cons.prems]]]
  show ?case by simp
qed simp

text \<open>What evolution keeps, and what it tells.\<close>

lemma evolves_flags:
  "evolves t t' \<Longrightarrow> t_nextConnId t' = t_nextConnId t \<and> t_sink t' = t_sink t \<and> t_loopQuiesced t' = t_loopQuiesced t
     \<and> t_disconnectHandlers t' = t_disconnectHandlers t"
  by (induction rule: evolves.induct) (simp_all add: sameShape_def closeConnection_def split: option.split)

lemma isLive_close [simp]: "isLive k (closeConnection cid t) \<longleftrightarrow> k \<noteq> cid \<and> isLive k t"
  by (simp add: isLive_def)

lemma isLive_same: "sameShape t t' \<Longrightarrow> isLive k t' \<longleftrightarrow> isLive k t"
  unfolding isLive_def by (metis map_option_is_None sameShape_def)

lemma evolves_dead: "evolves t t' \<Longrightarrow> isLive k t' \<Longrightarrow> isLive k t"
  by (induction rule: evolves.induct) (auto simp: isLive_same)

text \<open>Every caller that left was told to every handler, and only they were, all of them behind what was told before.\<close>

definition leavers :: "'cred transport \<Rightarrow> 'cred transport \<Rightarrow> string set" where
  "leavers t t' = {callerOf k | k. isLive k t \<and> \<not> isLive k t'}"

lemma leavers_trans:
  assumes "\<And>k. isLive k t' \<Longrightarrow> isLive k t" and "\<And>k. isLive k t'' \<Longrightarrow> isLive k t'"
  shows "leavers t t'' = leavers t t' \<union> leavers t' t''"
  using assms by (auto simp: leavers_def)

lemma evolves_notified:
  assumes "evolves t t'"
  shows "\<exists>d. t_notified t' = t_notified t @ d \<and> set d = set (t_disconnectHandlers t) \<times> leavers t t'"
  using assms
proof (induction rule: evolves.induct)
  case (ev_same t t')
  then have "leavers t t' = {}" by (simp add: leavers_def isLive_same)
  with ev_same show ?case by (simp add: sameShape_def)
next
  case (ev_close t k c)
  then have "co_caller c = callerOf k" using transportOk_conn by (auto simp: connOk_def connBounds_def)
  with ev_close have "t_notified (closeConnection k t) = t_notified t @ map (\<lambda>h. (h, callerOf k)) (t_disconnectHandlers t)"
    using close_fan_out [of t k c] by simp
  moreover have "leavers t (closeConnection k t) = {callerOf k}"
    using ev_close by (auto simp: leavers_def) (simp add: isLive_def)
  ultimately show ?case by auto
next
  case (ev_trans t t' t'')
  from ev_trans.IH obtain d d' where "t_notified t'' = t_notified t @ d @ d'"
    "set d = set (t_disconnectHandlers t) \<times> leavers t t'" "set d' = set (t_disconnectHandlers t') \<times> leavers t' t''"
    by auto
  moreover have "t_disconnectHandlers t' = t_disconnectHandlers t" using evolves_flags [OF ev_trans.hyps(1)] by simp
  moreover have "leavers t t'' = leavers t t' \<union> leavers t' t''"
    by (rule leavers_trans) (use evolves_dead ev_trans.hyps in blast)+
  ultimately show ?case by (intro exI [of _ "d @ d'"]) auto
qed

text \<open>A connection that is still there has the peer it was accepted with.\<close>

lemma evolves_creds:
  "evolves t t' \<Longrightarrow> sm_find (t_connections t') k = Some c' \<Longrightarrow>
     \<exists>c. sm_find (t_connections t) k = Some c \<and> co_creds c = co_creds c'"
proof (induction arbitrary: c' rule: evolves.induct)
  case (ev_same t t')
  then have "map_option co_creds (sm_find (t_connections t) k) = Some (co_creds c')"
    unfolding sameShape_def by (metis option.map(2))
  then show ?case by auto
next
  case (ev_trans t t' t'')
  then show ?case by metis
qed (auto split: if_splits)

section \<open>Commands to one connection\<close>

text \<open>
  The contract of a byte stream that a peer reads at its own pace: a command appends its bytes while the
  connection lives; once it is closed nothing more leaves, and what has left is a prefix of what was asked
  for.
\<close>

locale byte_stream =
  fixes ok :: "'t \<Rightarrow> bool"
    and live :: "'t \<Rightarrow> bool"
    and left :: "'t \<Rightarrow> bytes"
    and due :: "'t \<Rightarrow> bytes"
    and exec :: "'c \<Rightarrow> 't \<Rightarrow> 't"
    and mine :: "'c \<Rightarrow> bool"
    and bytesOf :: "'c \<Rightarrow> bytes"
  assumes ok_exec: "ok t \<Longrightarrow> ok (exec c t)"
    and left_due: "prefix (left t) (due t)"
    and live_exec: "ok t \<Longrightarrow> live (exec c t) \<Longrightarrow> live t"
    and closed_exec: "ok t \<Longrightarrow> mine c \<Longrightarrow> \<not> live t \<Longrightarrow> left (exec c t) = left t"
    and left_exec: "ok t \<Longrightarrow> mine c \<Longrightarrow> prefix (left (exec c t)) (due t @ bytesOf c)"
    and due_exec: "ok t \<Longrightarrow> mine c \<Longrightarrow> live (exec c t) \<Longrightarrow> due (exec c t) = due t @ bytesOf c"
begin

lemma closed_commands:
  "ok t \<Longrightarrow> list_all mine cs \<Longrightarrow> \<not> live t \<Longrightarrow> left (fold exec cs t) = left t"
proof (induction cs arbitrary: t)
  case (Cons c cs)
  then have "left (fold exec cs (exec c t)) = left (exec c t)"
    using live_exec [of t c] by (intro Cons.IH ok_exec) auto
  with Cons.prems show ?case by (simp add: closed_exec)
qed simp

lemma live_commands: "ok t \<Longrightarrow> live (fold exec cs t) \<Longrightarrow> live t"
proof (induction cs arbitrary: t)
  case (Cons c cs)
  then show ?case using live_exec [of t c] by (simp add: ok_exec)
qed simp

lemma commands_append:
  assumes "ok t" and "list_all mine cs"
  shows "prefix (left (fold exec cs t)) (due t @ concat (map bytesOf cs))
       \<and> (live (fold exec cs t) \<longrightarrow> due (fold exec cs t) = due t @ concat (map bytesOf cs))"
  using assms
proof (induction cs arbitrary: t)
  case Nil
  then show ?case by (simp add: left_due)
next
  case (Cons c cs)
  note ok = ok_exec [OF Cons.prems(1), of c]
  from Cons.prems have c: "mine c" "list_all mine cs" by simp_all
  show ?case
  proof (cases "live (exec c t)")
    case True
    with Cons.IH [OF ok c(2)] due_exec [OF Cons.prems(1) c(1)] show ?thesis by simp
  next
    case False
    then have "left (fold exec cs (exec c t)) = left (exec c t)" by (rule closed_commands [OF ok c(2)])
    moreover have "prefix (left (exec c t)) (due t @ bytesOf c @ concat (map bytesOf cs))"
      using left_exec [OF Cons.prems(1) c(1)] by (metis append.assoc prefix_prefix)
    ultimately show ?thesis using False live_commands [OF ok] by auto
  qed
qed

end

fun target :: "command \<Rightarrow> nat option" where
  "target (DoSend cid m fds) = Some cid"
| "target (DoSendThenClose cid m) = Some cid"
| "target (DoSetWants cid w) = Some cid"
| "target (DoBroadcast m k) = None"

fun commandBytes :: "wire_env \<Rightarrow> command \<Rightarrow> bytes" where
  "commandBytes env (DoSend cid m fds) = frameOf env m (length fds)"
| "commandBytes env (DoSendThenClose cid m) = frameOf env m 0"
| "commandBytes env _ = []"

lemma command_other:
  assumes "target c = Some cid" and "k \<noteq> cid"
  shows "sm_find (t_connections (runCommand env c t)) k = sm_find (t_connections t) k
       \<and> wireBytes k (runCommand env c t) = wireBytes k t"
  using assms
  by (cases c) (auto simp: sendTo_def sendThenClose_def setWantsPresenceEvents_def enqueueSend_other split: option.split)

lemma command_closed:
  "target c = Some cid \<Longrightarrow> \<not> isLive cid t \<Longrightarrow> runCommand env c t = t"
  by (cases c) (auto simp: sendTo_def sendThenClose_def setWantsPresenceEvents_def isLive_def)

lemma command_appends:
  assumes "transportOk t" and "target c = Some cid"
  shows "prefix (wireBytes cid (runCommand env c t)) (stream cid t @ commandBytes env c)
       \<and> (isLive cid (runCommand env c t) \<longrightarrow> stream cid (runCommand env c t) = stream cid t @ commandBytes env c)"
proof (cases "sm_find (t_connections t) cid")
  case None
  then have "\<not> isLive cid t" by (simp add: isLive_def)
  with command_closed [OF assms(2) this] show ?thesis by (simp add: stream_def)
next
  case (Some conn)
  note queue = transportOk_queue [OF assms(1) Some]
  let ?conn = "conn\<lparr>co_readSource := False, co_closeWhenDrained := True\<rparr>"
  have at: "sm_find (t_connections (setConn cid ?conn t)) cid = Some ?conn" by simp
  have "stream cid (setConn cid ?conn t) = stream cid t" using Some by (simp add: stream_def)
  with enqueueSend_stream_at [OF at, of env] enqueueSend_stream_at [OF Some queue, of env] queue Some assms(2)
  show ?thesis
    by (cases c)
      (auto simp: sendTo_def sendThenClose_def setWantsPresenceEvents_def isLive_def stream_def)
qed

interpretation conn_stream: byte_stream transportOk "isLive cid" "wireBytes cid" "stream cid" "runCommand env"
    "\<lambda>c. target c = Some cid" "commandBytes env" for cid env
proof
  show "prefix (wireBytes cid t) (stream cid t)" for t :: "'a transport" by (simp add: stream_def)
qed (auto simp: runCommand_ok command_closed command_appends intro: evolves_dead evolves_command)

section \<open>The read path\<close>

text \<open>
  What holds when a read begins, survives a close and survives every request handed to the sink holds when
  it ends. The sink is called only for the connection that is read, while that connection is in the table.
\<close>

lemma dispatchFrames_rule:
  assumes "P s t" and close: "\<And>s t. P s t \<Longrightarrow> P s (closeConnection cid t)"
    and sink: "\<And>s t inb. P s t \<Longrightarrow> isLive cid t \<Longrightarrow> t_sink t \<Longrightarrow> in_caller inb = caller \<Longrightarrow> in_connId inb = cid
      \<Longrightarrow> P (fst (sink inb (s, t))) (snd (sink inb (s, t)))"
  shows "P (fst (dispatchFrames parse sink caller cid frames ok (s, t)))
           (snd (dispatchFrames parse sink caller cid frames ok (s, t)))"
  using assms(1)
proof (induction frames arbitrary: s t)
  case Nil
  then show ?case by (simp add: close)
next
  case (Cons fr frames)
  obtain body fds where fr: "fr = (body, fds)" by force
  let ?inb = "\<lambda>req. \<lparr>in_caller = caller, in_connId = cid, in_request = req, in_fds = fds\<rparr>"
  let ?st = "\<lambda>req. if t_sink t then sink (?inb req) (s, t) else (s, t)"
  have "P (fst (?st req)) (snd (?st req))" if "isLive cid t" for req
    using sink [OF Cons.prems that, of "?inb req"] Cons.prems by simp
  then have "P (fst (dispatchFrames parse sink caller cid frames ok (?st req)))
               (snd (dispatchFrames parse sink caller cid frames ok (?st req)))" if "isLive cid t" for req
    using Cons.IH [of "fst (?st req)" "snd (?st req)"] that by simp
  then show ?case
    unfolding fr using Cons.prems
    by (cases "parse body"; cases "sm_find (t_connections t) cid") (simp_all add: close isLive_def)
qed

lemma onReadReady_rule:
  assumes "P s t" and "sm_find (t_connections t) cid = Some c"
    and mark: "P s (setConn cid (c\<lparr>co_sawFirstFrame := True, co_firstFrameTimer := False\<rparr>) t)"
    and close: "\<And>s t. P s t \<Longrightarrow> P s (closeConnection cid t)"
    and sink: "\<And>s t inb. P s t \<Longrightarrow> isLive cid t \<Longrightarrow> t_sink t \<Longrightarrow> in_caller inb = co_caller c \<Longrightarrow> in_connId inb = cid
      \<Longrightarrow> P (fst (sink inb (s, t))) (snd (sink inb (s, t)))"
  shows "P (fst (onReadReady parse sink cid pumped (s, t))) (snd (onReadReady parse sink cid pumped (s, t)))"
proof -
  define t' where "t' = (if pu_frames pumped \<noteq> [] \<and> \<not> co_sawFirstFrame c
    then setConn cid (c\<lparr>co_sawFirstFrame := True, co_firstFrameTimer := False\<rparr>) t else t)"
  have begun: "P s t'" unfolding t'_def by (rule if_split [THEN iffD2]) (use assms(1) mark in blast)
  have "onReadReady parse sink cid pumped (s, t)
      = dispatchFrames parse sink (co_caller c) cid (pu_frames pumped) (pu_ok pumped) (s, t')"
    using assms(2) by (simp add: onReadReady_def Let_def t'_def)
  moreover have "P (fst (dispatchFrames parse sink (co_caller c) cid (pu_frames pumped) (pu_ok pumped) (s, t')))
      (snd (dispatchFrames parse sink (co_caller c) cid (pu_frames pumped) (pu_ok pumped) (s, t')))"
    by (rule dispatchFrames_rule [where P = P and sink = sink]) (fact begun, erule close, erule (4) sink)
  ultimately show ?thesis by simp
qed

text \<open>
  A sink that does to the transport what some list of commands does is, for the transport, one of the
  scripted sinks of its transition system.
\<close>

lemma dispatchFrames_script:
  assumes "\<And>inb s t. \<exists>cs. snd (sink inb (s, t)) = fold (runCommand env) cs t"
  shows "\<exists>script. snd (dispatchFrames parse sink caller cid frames ok (s, t))
           = snd (dispatchFrames parse (commandSink env) caller cid frames ok (script, t))"
proof (induction frames arbitrary: s t)
  case (Cons fr frames)
  obtain body fds where fr: "fr = (body, fds)" by force
  let ?inb = "\<lambda>req. \<lparr>in_caller = caller, in_connId = cid, in_request = req, in_fds = fds\<rparr>"
  have "\<exists>script. snd (dispatchFrames parse sink caller cid frames ok (if t_sink t then sink (?inb req) (s, t) else (s, t)))
      = snd (dispatchFrames parse (commandSink env) caller cid frames ok
          (if t_sink t then commandSink env (?inb req) (script, t) else (script, t)))" for req
  proof (cases "t_sink t")
    case True
    obtain s' t' where st: "sink (?inb req) (s, t) = (s', t')" by fastforce
    obtain cs where "t' = fold (runCommand env) cs t" using assms [of "?inb req" s t] st by auto
    moreover obtain script where "snd (dispatchFrames parse sink caller cid frames ok (s', t'))
        = snd (dispatchFrames parse (commandSink env) caller cid frames ok (script, t'))"
      using Cons.IH by blast
    ultimately show ?thesis using True st by (intro exI [of _ "cs # script"]) simp
  qed (simp add: Cons.IH)
  then show ?case
    unfolding fr by (cases "parse body"; cases "sm_find (t_connections t) cid") simp_all
qed simp

lemma onReadReady_script:
  assumes "\<And>inb s t. \<exists>cs. snd (sink inb (s, t)) = fold (runCommand env) cs t"
  shows "\<exists>script. snd (onReadReady parse sink cid pumped (s, t))
           = snd (onReadReady parse (commandSink env) cid pumped (script, t))"
  using dispatchFrames_script [where sink = sink and env = env, OF assms]
  by (cases "sm_find (t_connections t) cid") (simp_all add: onReadReady_def Let_def)

end
