(* ===== verification/Trust_Gate.thy ===== *)
theory Trust_Gate
  imports Frontend
begin

text \<open>
  The human gate of the trust tier: the rest of \<^verbatim>\<open>confirmThenApply\<close> in
  \<^verbatim>\<open>agent/src/backend/SocketFrontend.cpp\<close>. The question waits on a worker of its own, the answer comes
  back to the loop as a posted continuation, and the frontend may be gone at either moment. The steps
  of the frontend's loop are a relation over the world and the callers that disconnected; what the
  prompter may answer to a question is an argument.
\<close>

section \<open>The answer\<close>

text \<open>The block on the confirm queue: ask, then hand the verdict to the loop if the frontend lives.\<close>

definition confirmWorker ::
    "nat \<Rightarrow> PromptReplyStatus \<Rightarrow> ('core, 'box) world \<Rightarrow> ('core, 'box) world" where
  "confirmWorker i status w =
     (let q = w_asked w ! i;
          w1 = emit (Answered q status) (w\<lparr>w_asked := take i (w_asked w) @ drop (i + 1) (w_asked w)\<rparr>)
      in if \<not> w_alive w1 then w1
         else w1\<lparr>w_continuations := w_continuations w1 @ [(q, status)]\<rparr>)"

definition runApply ::
    "('core, 'cred, 'box) agent_lib \<Rightarrow> ask \<Rightarrow> ('core, 'box) world \<Rightarrow> ('core, 'box) world" where
  "runApply lib q =
     (case ak_apply q of
        ApplyWrite key value \<Rightarrow> applyConfigWrite lib (ak_connId q) (ak_req q) key value
      | ApplyReset key \<Rightarrow> applyConfigReset lib (ak_connId q) (ak_req q) key
      | ApplyImport fd \<Rightarrow> applyImport lib (ak_connId q) (ak_req q) fd)"

text \<open>
  The posted continuation, the oldest first: the transport drops it once the loop is quiesced, and
  it drops itself when the frontend is gone.
\<close>

definition confirmContinuation ::
    "('core, 'cred, 'box) agent_lib \<Rightarrow> ('core, 'box) world \<Rightarrow> ('core, 'box) world" where
  "confirmContinuation lib w =
     (case w_continuations w of
        [] \<Rightarrow> w
      | (q, status) # rest \<Rightarrow>
          let w1 = w\<lparr>w_continuations := rest\<rparr>
          in if w_quiesced w1 then w1
             else if \<not> w_alive w1 then w1
             else
               let w2 = w1\<lparr>w_confirmsInFlight := sm_erase (ak_caller q) (w_confirmsInFlight w1)\<rparr>
               in if status \<noteq> StOk then replyError (ak_connId q) (ak_req q) NotAuthorized w2
                  else runApply lib q w2)"

definition quiesceFrontend :: "('core, 'box) world \<Rightarrow> ('core, 'box) world" where
  "quiesceFrontend w = w\<lparr>w_quiesced := True\<rparr>"

definition destroyFrontend :: "('core, 'box) world \<Rightarrow> ('core, 'box) world" where
  "destroyFrontend w = w\<lparr>w_alive := False\<rparr>"

section \<open>The loop\<close>

text \<open>
  The core, the presence registry and the authoriser's view of the peers may change between two steps.
  A client that left never comes back under the same token, which the transport's connection table
  guarantees; what the frontend keeps for it is dropped by a closure posted when it left.
\<close>

inductive frontStep ::
    "('core, 'cred, 'box) agent_lib \<Rightarrow> (ConfirmAction \<Rightarrow> PromptReplyStatus \<Rightarrow> bool)
       \<Rightarrow> ('core, 'box) world \<times> string set \<Rightarrow> ('core, 'box) world \<times> string set \<Rightarrow> bool"
  for lib verdicts where
  fs_dispatch: "\<not> w_quiesced w \<Longrightarrow> in_caller inb \<notin> gone \<Longrightarrow> al_mutability (lib' :: ('core, 'cred, 'box) agent_lib) = al_mutability lib
    \<Longrightarrow> frontStep lib verdicts (w, gone) (dispatch lib' inb w, gone)"
| fs_answer: "i < length (w_asked w) \<Longrightarrow> verdicts (ak_action (w_asked w ! i)) status
    \<Longrightarrow> frontStep lib verdicts (w, gone) (confirmWorker i status w, gone)"
| fs_continue: "frontStep lib verdicts (w, gone) (confirmContinuation lib w, gone)"
| fs_disconnect: "frontStep lib verdicts (w, gone) (w, insert caller gone)"
| fs_forget: "caller \<in> gone
    \<Longrightarrow> frontStep lib verdicts (w, gone) (onFrontendClientDisconnected caller w, gone)"
| fs_stash: "frontStep lib verdicts (w, gone) (stashSignArtifact opId owner artifact w, gone)"
| fs_evict: "frontStep lib verdicts (w, gone) (evictSignResult opId w, gone)"
| fs_finished: "frontStep lib verdicts (w, gone) (opFinished opId w, gone)"
| fs_core: "frontStep lib verdicts (w, gone) (w\<lparr>w_core := c\<rparr>, gone)"
| fs_presence: "frontStep lib verdicts (w, gone) (w\<lparr>w_presence := p\<rparr>, gone)"
| fs_quiesce: "frontStep lib verdicts (w, gone) (quiesceFrontend w, gone)"
| fs_destroy: "w_quiesced w \<Longrightarrow> frontStep lib verdicts (w, gone) (destroyFrontend w, gone)"

definition frontInit :: "('core, 'box) world \<times> string set \<Rightarrow> bool" where
  "frontInit s \<longleftrightarrow>
     w_trace (fst s) = [] \<and> w_asked (fst s) = [] \<and> w_continuations (fst s) = [] \<and> w_confirmsInFlight (fst s) = []"

section \<open>Trust changes and what authorises them\<close>

fun changeKey :: "config_change \<Rightarrow> string" where
  "changeKey (SetDefaultLevel v) = ''DefaultLevel''"
| "changeKey (SetDefaultReason v) = ''DefaultReason''"
| "changeKey (SetDefaultLocation v) = ''DefaultLocation''"
| "changeKey (SetTsaUrls v) = ''TsaUrls''"
| "changeKey (SetTslSources v) = ''TslSources''"

fun trustChange :: "('core, 'cred, 'box) agent_lib \<Rightarrow> 'box fx \<Rightarrow> bool" where
  "trustChange lib (ConfigSet c) = (al_mutability lib (changeKey c) = Some DbusMutableTrust)"
| "trustChange lib (ConfigResetKey k) = (al_mutability lib k = Some DbusMutableTrust)"
| "trustChange lib (Imported b) = True"
| "trustChange lib _ = False"

text \<open>The change a question is about, and the sentence that goes with it.\<close>

fun authorises :: "ask \<Rightarrow> 'box fx \<Rightarrow> bool" where
  "authorises q (ConfigSet c) = (\<exists>key v. ak_apply q = ApplyWrite key v \<and> decodeChange key v = Inr c)"
| "authorises q (ConfigResetKey k) = (ak_apply q = ApplyReset k)"
| "authorises q (Imported b) = (\<exists>fd. ak_apply q = ApplyImport fd)"
| "authorises q _ = False"

definition sentenceFor :: "pending_apply \<Rightarrow> (string \<times> TrustChangeCopy) option" where
  "sentenceFor todo =
     (case todo of
        ApplyWrite key v \<Rightarrow> map_option (Pair key) (describeTrustChange key SetValue)
      | ApplyReset key \<Rightarrow> map_option (Pair key) (describeTrustChange key Reset)
      | ApplyImport fd \<Rightarrow> map_option (Pair ''CscaAnchorState'') (describeTrustChange ''CscaAnchorState'' ImportAnchors))"

definition asksAbout :: "ask \<Rightarrow> bool" where
  "asksAbout q \<longleftrightarrow>
     (\<exists>key copy. sentenceFor (ak_apply q) = Some (key, copy) \<and> ca_kind (ak_action q) = ''configure_trust''
        \<and> ca_artifact (ak_action q) = key \<and> ca_description (ak_action q) = tc_text copy
        \<and> ca_descriptionKey (ak_action q) = tc_key copy)"

fun isAsked :: "'box fx \<Rightarrow> bool" where
  "isAsked (Asked q) = True"
| "isAsked _ = False"

fun isApproval :: "'box fx \<Rightarrow> bool" where
  "isApproval (Answered q StOk) = True"
| "isApproval _ = False"

lemma decodeChange_key: "decodeChange key v = Inr c \<Longrightarrow> changeKey c = key"
  by (auto simp: decodeChange_def try_bind_Inr_iff split: if_splits)

section \<open>What a dispatch does to the gate\<close>

text \<open>
  Either nothing: it only makes calls that are neither a question, an answer nor a trust change. Or it
  ends in exactly one question, about the change the request names, from a caller that had none waiting.
\<close>

definition loopPart ::
    "('core, 'box) world \<Rightarrow> ask list \<times> (ask \<times> PromptReplyStatus) list \<times> (string, unit) smap \<times> bool \<times> bool" where
  "loopPart w = (w_asked w, w_continuations w, w_confirmsInFlight w, w_alive w, w_quiesced w)"

definition inert :: "('core, 'cred, 'box) agent_lib \<Rightarrow> 'box fx \<Rightarrow> bool" where
  "inert lib e \<longleftrightarrow> \<not> isAsked e \<and> \<not> isApproval e \<and> \<not> trustChange lib e"

definition quietStep ::
    "('core, 'cred, 'box) agent_lib \<Rightarrow> ('core, 'box) world \<Rightarrow> ('core, 'box) world \<Rightarrow> bool" where
  "quietStep lib w w' \<longleftrightarrow>
     (\<exists>d. w_trace w' = w_trace w @ d \<and> list_all (inert lib) d) \<and> loopPart w' = loopPart w"

definition askStep ::
    "('core, 'cred, 'box) agent_lib \<Rightarrow> string \<Rightarrow> ('core, 'box) world \<Rightarrow> ('core, 'box) world \<Rightarrow> bool" where
  "askStep lib caller w w' \<longleftrightarrow>
     quietStep lib w w'
     \<or> (\<exists>d q. w_trace w' = w_trace w @ d @ [Asked q] \<and> list_all (inert lib) d \<and> asksAbout q \<and> ak_caller q = caller
          \<and> sm_find (w_confirmsInFlight w) caller = None
          \<and> loopPart w' = (w_asked w @ [q], w_continuations w, sm_put caller () (w_confirmsInFlight w),
                          w_alive w, w_quiesced w))"

definition asksOnly ::
    "('core, 'cred, 'box) agent_lib \<Rightarrow> string \<Rightarrow> (('core, 'box) world \<Rightarrow> ('core, 'box) world) \<Rightarrow> bool" where
  "asksOnly lib caller k \<longleftrightarrow> (\<forall>w. askStep lib caller w (k w))"

named_theorems ask_intros \<open>parts of a handler that ask at most one question\<close>

lemma askStep_after:
  assumes "quietStep lib w w1" and "askStep lib caller w1 w2"
  shows "askStep lib caller w w2"
proof -
  from assms(1) obtain d1 where d1: "w_trace w1 = w_trace w @ d1" "list_all (inert lib) d1"
    and part: "loopPart w1 = loopPart w" by (auto simp: quietStep_def)
  from assms(2) consider (quiet) d where "w_trace w2 = w_trace w1 @ d" "list_all (inert lib) d" "loopPart w2 = loopPart w1"
    | (asked) d q where "w_trace w2 = w_trace w1 @ d @ [Asked q]" "list_all (inert lib) d" "asksAbout q"
        "ak_caller q = caller" "sm_find (w_confirmsInFlight w1) caller = None"
        "loopPart w2 = (w_asked w1 @ [q], w_continuations w1, sm_put caller () (w_confirmsInFlight w1),
                        w_alive w1, w_quiesced w1)"
    by (auto simp: askStep_def quietStep_def)
  then show ?thesis
  proof cases
    case quiet
    with d1 part show ?thesis by (auto simp: askStep_def quietStep_def intro!: exI [of _ "d1 @ d"])
  next
    case asked
    then have "w_trace w2 = w_trace w @ (d1 @ d) @ [Asked q]" "list_all (inert lib) (d1 @ d)" using d1 by simp_all
    with asked(3-) part show ?thesis unfolding askStep_def loopPart_def by auto
  qed
qed

lemma quietStep_emit [simp]:
  "inert lib e \<Longrightarrow> quietStep lib w (emit e w)"
  "inert lib e \<Longrightarrow> quietStep lib w (emit e (w\<lparr>w_core := c\<rparr>))"
  "inert lib e \<Longrightarrow> quietStep lib w (emit e (w\<lparr>w_opOwners := m\<rparr>))"
  "quietStep lib w (w\<lparr>w_core := c\<rparr>)"
  "quietStep lib w w"
  by (auto simp: quietStep_def loopPart_def emit_def)

lemma inert_simps [simp]:
  "inert lib (Send connId req r fds)" "inert lib (SendThenClose connId req r)" "inert lib (Wants connId b)"
  "inert lib (Authorized act caller)" "inert lib (Charged caller)" "inert lib (ReadFile fd)"
  "inert lib (Launched target job)" "inert lib (CancelledOp opId)" "inert lib (BrokerCalled connId req call)"
  "inert lib (LoggedOut reader bc)" "inert lib (RecordedAnchors a)"
  by (simp_all add: inert_def)

lemma quietStep_reply [simp]:
  "quietStep lib w (sendReply connId req r w)" "quietStep lib w (replyError connId req err w)"
  by (simp_all add: sendReply_def replyError_def)

lemma asksOnly_quiet: "(\<And>w. quietStep lib w (k w)) \<Longrightarrow> asksOnly lib caller k"
  by (simp add: asksOnly_def askStep_def)

lemma asksOnly_reply [ask_intros]:
  "asksOnly lib caller (replyError connId req err)" "asksOnly lib caller (sendReply connId req r)"
  by (simp_all add: asksOnly_quiet)

lemma askStep_quiet [simp]: "quietStep lib w w' \<Longrightarrow> askStep lib caller w w'"
  by (simp add: askStep_def)

lemma asksOnly_withCard [ask_intros]:
  "(\<And>routing. asksOnly lib caller (k routing)) \<Longrightarrow> asksOnly lib caller (withCard connId req handle capBit k)"
  by (auto simp: asksOnly_def withCard_def split: option.split)

lemma asksOnly_withCert [ask_intros]:
  "asksOnly lib caller k \<Longrightarrow> asksOnly lib caller (withCert connId req cert k)"
  by (auto simp: asksOnly_def withCert_def)

lemma asksOnly_emit:
  "asksOnly lib caller k \<Longrightarrow> inert lib e \<Longrightarrow> askStep lib caller w (k (emit e w))"
  "asksOnly lib caller k \<Longrightarrow> inert lib e \<Longrightarrow> askStep lib caller w (k (emit e (w\<lparr>w_core := c\<rparr>)))"
  unfolding asksOnly_def
  by (blast intro: askStep_after [OF quietStep_emit(1)] askStep_after [OF quietStep_emit(2)])+

lemma asksOnly_withAuthorization [ask_intros]:
  assumes "asksOnly lib caller k"
  shows "asksOnly lib caller (withAuthorization lib connId req act caller' k)"
  unfolding asksOnly_def withAuthorization_def Let_def
  by (simp add: asksOnly_emit [OF assms] asksOnly_emit [OF asksOnly_reply(1)] split: AuthorizationOutcome.split)

lemma asksOnly_withRateLimit [ask_intros]:
  assumes "asksOnly lib caller k"
  shows "asksOnly lib caller (withRateLimit lib connId req caller' k)"
  unfolding asksOnly_def withRateLimit_def Let_def
  by (simp add: asksOnly_emit [OF assms] asksOnly_emit [OF asksOnly_reply(1)] split: prod.split)

lemma asksOnly_withDocument [ask_intros]:
  assumes "\<And>b. asksOnly lib caller (k b)"
  shows "asksOnly lib caller (withDocument lib connId req fds idx k)"
  unfolding asksOnly_def withDocument_def Let_def
  by (simp add: asksOnly_emit [OF assms] asksOnly_emit [OF asksOnly_reply(1)] split: read_result.split)

lemma asksOnly_withSignOptions [ask_intros]:
  "(\<And>r. asksOnly lib caller (k r)) \<Longrightarrow> asksOnly lib caller (withSignOptions lib connId req opts src k)"
  by (auto simp: asksOnly_def withSignOptions_def split: sum.split)

lemma asksOnly_readDocuments [ask_intros]:
  "(\<And>inputs. asksOnly lib caller (k inputs)) \<Longrightarrow> asksOnly lib caller (readDocuments lib connId req fds docs inputs k)"
  by (induction docs arbitrary: inputs) (auto intro!: ask_intros)

lemma quietStep_launch: "quietStep lib w (launch lib connId req routing caller job w)"
  by (auto simp: launch_def replyLaunched_def Let_def sendReply_def replyError_def quietStep_def loopPart_def emit_def
      split: prod.split sum.split)

lemma asksOnly_launch [ask_intros]: "asksOnly lib caller' (launch lib connId req routing caller job)"
  by (rule asksOnly_quiet) (rule quietStep_launch)

lemma asksOnly_checkedLaunch [ask_intros]:
  "asksOnly lib caller' (\<lambda>w. case check w of
      None \<Rightarrow> launch lib connId req routing caller (job w) w | Some e \<Rightarrow> replyError connId req e w)"
  by (rule asksOnly_quiet) (simp add: quietStep_launch split: option.split)

lemma asksOnly_if [ask_intros]:
  "(b \<Longrightarrow> asksOnly lib caller k) \<Longrightarrow> (\<not> b \<Longrightarrow> asksOnly lib caller k')
     \<Longrightarrow> asksOnly lib caller (if b then k else k')"
  "(b \<Longrightarrow> asksOnly lib caller k) \<Longrightarrow> (\<not> b \<Longrightarrow> asksOnly lib caller k')
     \<Longrightarrow> asksOnly lib caller (\<lambda>w. if b then k w else k' w)"
  by (cases b; simp)+

lemma asksOnly_withMutableKey [ask_intros]:
  "(\<And>mut. al_mutability lib key = Some mut \<Longrightarrow> asksOnly lib caller (k mut))
     \<Longrightarrow> asksOnly lib caller (withMutableKey lib connId req key k)"
  by (auto simp: asksOnly_def withMutableKey_def split: option.split)

lemma quietStep_apply:
  assumes "al_mutability lib key \<noteq> Some DbusMutableTrust"
  shows "quietStep lib w (applyConfigWrite lib connId req key value w)"
    and "quietStep lib w (applyConfigReset lib connId req key w)"
proof -
  have "inert lib (ConfigSet c)" if "decodeChange key value = Inr c" for c
    using decodeChange_key [OF that] assms by (simp add: inert_def)
  then show "quietStep lib w (applyConfigWrite lib connId req key value w)"
    by (auto simp: applyConfigWrite_def Let_def quietStep_def loopPart_def emit_def sendReply_def replyError_def
        split: sum.split prod.split)
  show "quietStep lib w (applyConfigReset lib connId req key w)"
    using assms
    by (auto simp: applyConfigReset_def Let_def inert_def quietStep_def loopPart_def emit_def sendReply_def replyError_def
        split: prod.split)
qed

lemma asksOnly_apply [ask_intros]:
  "al_mutability lib key \<noteq> Some DbusMutableTrust \<Longrightarrow> asksOnly lib caller (applyConfigWrite lib connId req key value)"
  "al_mutability lib key \<noteq> Some DbusMutableTrust \<Longrightarrow> asksOnly lib caller (applyConfigReset lib connId req key)"
  by (simp_all add: asksOnly_quiet quietStep_apply)

lemma asksOnly_confirmThenApply [ask_intros]:
  assumes "sentenceFor todo = map_option (Pair key) (describeTrustChange key what)"
  shows "asksOnly lib caller (confirmThenApply lib connId req key caller what todo)"
  unfolding asksOnly_def
proof
  fix w
  show "askStep lib caller w (confirmThenApply lib connId req key caller what todo w)"
  proof (cases "describeTrustChange key what = None \<or> sm_find (w_confirmsInFlight w) caller \<noteq> None")
    case True
    then show ?thesis by (auto simp: confirmThenApply_def split: option.split)
  next
    case False
    then obtain copy where copy: "describeTrustChange key what = Some copy"
      and free: "sm_find (w_confirmsInFlight w) caller = None" by (metis option.exhaust)
    let ?q = "\<lparr>ak_connId = connId, ak_req = req, ak_caller = caller,
      ak_action = \<lparr>ca_kind = ''configure_trust'', ca_title = ''Confirm trust change'',
                   ca_description = tc_text copy, ca_descriptionKey = tc_key copy,
                   ca_requester = requesterLabel lib caller, ca_artifact = key\<rparr>, ak_apply = todo\<rparr>"
    have "asksAbout ?q" using assms copy by (simp add: asksAbout_def)
    with free copy show ?thesis
      unfolding askStep_def
      by (intro disjI2 exI [of _ "[]"] exI [of _ ?q])
        (simp add: confirmThenApply_def Let_def loopPart_def emit_def)
  qed
qed

lemma quietStep_direct:
  "quietStep lib w (handleHello lib connId req proto wants w)"
  "quietStep lib w (handleGetState connId req w)"
  "quietStep lib w (handleLayoutVisual lib connId req label box w)"
  "quietStep lib w (handleGetAppearanceFont lib connId req w)"
  "quietStep lib w (handleGetConfig lib connId req w)"
  "quietStep lib w (handlePkLogout lib connId req reader caller w)"
  "quietStep lib w (handlePkLoginState lib connId req reader caller w)"
  "quietStep lib w (handlePkSignRaw lib connId req reader cert mech payload caller w)"
  "quietStep lib w (handlePkDecrypt lib connId req reader cert mech payload caller w)"
  "quietStep lib w (handleCancel lib connId req opId caller w)"
  "quietStep lib w (handleGetSignResult lib connId req opId caller w)"
  "quietStep lib w (callBroker lib connId req call w)"
  by (auto simp: quietStep_def loopPart_def emit_def sendReply_def replyError_def handleHello_def handleGetState_def
      handleLayoutVisual_def handleGetAppearanceFont_def handleGetConfig_def handlePkLogout_def handlePkLoginState_def
      handlePkSignRaw_def handlePkDecrypt_def handleCancel_def handleGetSignResult_def callBroker_def Let_def
      split: option.split)

lemma asksOnly_direct [ask_intros]:
  "asksOnly lib c (handleHello lib connId req proto wants)"
  "asksOnly lib c (handleGetState connId req)"
  "asksOnly lib c (handleLayoutVisual lib connId req label box)"
  "asksOnly lib c (handleGetAppearanceFont lib connId req)"
  "asksOnly lib c (handleGetConfig lib connId req)"
  "asksOnly lib c (handlePkLogout lib connId req reader caller)"
  "asksOnly lib c (handlePkLoginState lib connId req reader caller)"
  "asksOnly lib c (handlePkSignRaw lib connId req reader cert mech payload caller)"
  "asksOnly lib c (handlePkDecrypt lib connId req reader cert mech payload caller)"
  "asksOnly lib c (handleCancel lib connId req opId caller)"
  "asksOnly lib c (handleGetSignResult lib connId req opId caller)"
  "asksOnly lib c (callBroker lib connId req call)"
  by (rule asksOnly_quiet, rule quietStep_direct)+

lemma sentence_simps [simp]:
  "sentenceFor (ApplyWrite key v) = map_option (Pair key) (describeTrustChange key SetValue)"
  "sentenceFor (ApplyReset key) = map_option (Pair key) (describeTrustChange key Reset)"
  "sentenceFor (ApplyImport fd) = map_option (Pair ''CscaAnchorState'') (describeTrustChange ''CscaAnchorState'' ImportAnchors)"
  by (simp_all add: sentenceFor_def)

lemma dispatch_asksOnly: "asksOnly lib (in_caller inb) (dispatch lib inb)"
  by (cases "in_body inb")
    (auto simp: dispatch_def handleReadIdentity_def handleGetPhoto_def handleReadCertificates_def
      handleReadTokenInfo_def handleSign_def handleSignBatch_def handleListCredentials_def handleManagePin_def
      handleActivateSigningKey_def handleCertDer_def handlePkPublicKey_def handlePkLogin_def handlePkDerive_def
      handleSetConfig_def handleResetConfig_def handleImportCscaMasterList_def Let_def intro!: ask_intros)

section \<open>The invariant of the gate\<close>

text \<open>A change is preceded by the question about it and by a person's approval of that question.\<close>

definition approvedBefore ::
    "(ConfirmAction \<Rightarrow> PromptReplyStatus \<Rightarrow> bool) \<Rightarrow> 'box fx list \<Rightarrow> 'box fx \<Rightarrow> bool" where
  "approvedBefore verdicts pre e \<longleftrightarrow>
     (\<exists>q. Asked q \<in> set pre \<and> Answered q StOk \<in> set pre \<and> asksAbout q \<and> authorises q e
        \<and> verdicts (ak_action q) StOk)"

definition agreed ::
    "('core, 'cred, 'box) agent_lib \<Rightarrow> (ConfirmAction \<Rightarrow> PromptReplyStatus \<Rightarrow> bool) \<Rightarrow> 'box fx list \<Rightarrow> bool" where
  "agreed lib verdicts tr \<longleftrightarrow>
     (\<forall>pre e post. tr = pre @ e # post \<longrightarrow> trustChange lib e \<longrightarrow> approvedBefore verdicts pre e)"

definition waiting :: "string \<Rightarrow> ('core, 'box) world \<Rightarrow> nat" where
  "waiting caller w = length (filter (\<lambda>q. ak_caller q = caller) (w_asked w @ map fst (w_continuations w)))"

definition gateInv ::
    "('core, 'cred, 'box) agent_lib \<Rightarrow> (ConfirmAction \<Rightarrow> PromptReplyStatus \<Rightarrow> bool)
       \<Rightarrow> ('core, 'box) world \<times> string set \<Rightarrow> bool" where
  "gateInv lib verdicts s \<longleftrightarrow>
     (let w = fst s; gone = snd s
      in agreed lib verdicts (w_trace w)
       \<and> (\<forall>q \<in> set (w_asked w). Asked q \<in> set (w_trace w) \<and> asksAbout q)
       \<and> (\<forall>(q, st) \<in> set (w_continuations w). Asked q \<in> set (w_trace w) \<and> asksAbout q
            \<and> Answered q st \<in> set (w_trace w) \<and> verdicts (ak_action q) st)
       \<and> length (filter (trustChange lib) (w_trace w)) + length (filter (\<lambda>qs. snd qs = StOk) (w_continuations w))
           \<le> length (filter isApproval (w_trace w))
       \<and> (\<forall>caller. caller \<notin> gone \<longrightarrow>
            waiting caller w \<le> (if sm_find (w_confirmsInFlight w) caller = None then 0 else 1)))"

lemma agreed_append:
  assumes "agreed lib verdicts tr" and "\<And>e. e \<in> set d \<Longrightarrow> trustChange lib e \<Longrightarrow> approvedBefore verdicts tr e"
  shows "agreed lib verdicts (tr @ d)"
  unfolding agreed_def
proof (intro allI impI)
  fix pre e post
  assume split: "tr @ d = pre @ e # post" and trust: "trustChange lib e"
  show "approvedBefore verdicts pre e"
  proof (cases "length pre < length tr")
    case True
    then obtain post' where "tr = pre @ e # post'"
      using split by (auto simp: append_eq_append_conv2 append_eq_Cons_conv)
    with assms(1) trust show ?thesis by (auto simp: agreed_def)
  next
    case False
    then obtain d1 where "pre = tr @ d1" "d = d1 @ e # post"
      using split by (auto simp: append_eq_append_conv2 append_eq_Cons_conv)
    with assms(2) [of e] trust show ?thesis by (auto simp: approvedBefore_def)
  qed
qed

lemma inert_count:
  "list_all (inert lib) d \<Longrightarrow> filter (trustChange lib) d = [] \<and> filter isApproval d = []"
  by (induction d) (auto simp: inert_def)

lemma gateInv_quiet:
  assumes "gateInv lib verdicts (w, gone)" and "quietStep lib w w'"
  shows "gateInv lib verdicts (w', gone)"
proof -
  from assms(2) obtain d where d: "w_trace w' = w_trace w @ d" "list_all (inert lib) d" and part: "loopPart w' = loopPart w"
    by (auto simp: quietStep_def)
  have "agreed lib verdicts (w_trace w')"
    unfolding d(1) by (rule agreed_append) (use assms(1) d(2) in \<open>auto simp: gateInv_def Let_def list_all_iff inert_def\<close>)
  with assms(1) d part inert_count [OF d(2)] show ?thesis
    by (auto simp: gateInv_def Let_def loopPart_def waiting_def)
qed

lemma gateInv_asked:
  assumes "gateInv lib verdicts (w, gone)" and "w_trace w' = w_trace w @ d @ [Asked q]" and "list_all (inert lib) d"
    and "asksAbout q" and "sm_find (w_confirmsInFlight w) (ak_caller q) = None"
    and "loopPart w' = (w_asked w @ [q], w_continuations w, sm_put (ak_caller q) () (w_confirmsInFlight w),
                        w_alive w, w_quiesced w)"
    and "ak_caller q \<notin> gone"
  shows "gateInv lib verdicts (w', gone)"
proof -
  have "agreed lib verdicts (w_trace w')"
    unfolding assms(2)
    by (rule agreed_append) (use assms(1,3) in \<open>auto simp: gateInv_def Let_def list_all_iff inert_def\<close>)
  moreover have "waiting (ak_caller q) w = 0"
    using assms(1,5,7) by (auto simp: gateInv_def Let_def)
  ultimately show ?thesis
    using assms(1-6) inert_count [OF assms(3)]
    by (auto simp: gateInv_def Let_def loopPart_def waiting_def)
qed

lemma askStep_mutability: "al_mutability lib' = al_mutability lib \<Longrightarrow> askStep lib' = askStep lib"
proof -
  assume "al_mutability lib' = al_mutability lib"
  then have "trustChange lib' e = trustChange lib e" for e by (cases e) simp_all
  then have "inert lib' = inert lib" by (auto simp: inert_def fun_eq_iff)
  then show ?thesis by (intro ext) (simp add: askStep_def quietStep_def)
qed

lemma gateInv_dispatch:
  assumes "gateInv lib verdicts (w, gone)" and "in_caller inb \<notin> gone" and "al_mutability lib' = al_mutability lib"
  shows "gateInv lib verdicts (dispatch lib' inb w, gone)"
proof -
  have "askStep lib' (in_caller inb) w (dispatch lib' inb w)" using dispatch_asksOnly by (auto simp: asksOnly_def)
  then have "askStep lib (in_caller inb) w (dispatch lib' inb w)" unfolding askStep_mutability [OF assms(3)] .
  then show ?thesis
    unfolding askStep_def
  proof (elim disjE exE conjE)
    fix d q
    assume "w_trace (dispatch lib' inb w) = w_trace w @ d @ [Asked q]" "list_all (inert lib) d" "asksAbout q"
      "ak_caller q = in_caller inb" "sm_find (w_confirmsInFlight w) (in_caller inb) = None"
      "loopPart (dispatch lib' inb w) = (w_asked w @ [q], w_continuations w,
         sm_put (in_caller inb) () (w_confirmsInFlight w), w_alive w, w_quiesced w)"
    with assms gateInv_asked [OF assms(1)] show ?thesis by metis
  qed (rule gateInv_quiet [OF assms(1)])
qed

lemma filter_remove_nth:
  assumes "i < length xs"
  shows "filter p xs = filter p (take i xs) @ (if p (xs ! i) then [xs ! i] else []) @ filter p (drop (i + 1) xs)"
proof -
  have "filter p (take i xs @ xs ! i # drop (i + 1) xs)
      = filter p (take i xs) @ (if p (xs ! i) then [xs ! i] else []) @ filter p (drop (i + 1) xs)"
    by simp
  also have "take i xs @ xs ! i # drop (i + 1) xs = xs" using id_take_nth_drop [OF assms] by simp
  finally show ?thesis .
qed

lemma gateInv_worker:
  assumes "gateInv lib verdicts (w, gone)" and "i < length (w_asked w)" and "verdicts (ak_action (w_asked w ! i)) status"
  shows "gateInv lib verdicts (confirmWorker i status w, gone)"
proof -
  let ?q = "w_asked w ! i"
  let ?rest = "take i (w_asked w) @ drop (i + 1) (w_asked w)"
  have rest: "set ?rest \<subseteq> set (w_asked w)" by (auto dest: in_set_takeD in_set_dropD)
  have q: "?q \<in> set (w_asked w)" using assms(2) by simp
  have tr: "w_trace (confirmWorker i status w) = w_trace w @ [Answered ?q status]"
    and asked: "w_asked (confirmWorker i status w) = ?rest"
    and conts: "w_continuations (confirmWorker i status w)
                  = w_continuations w @ (if w_alive w then [(?q, status)] else [])"
    and flight: "w_confirmsInFlight (confirmWorker i status w) = w_confirmsInFlight w"
    by (simp_all add: confirmWorker_def Let_def emit_def)
  have wait: "waiting caller (confirmWorker i status w) \<le> waiting caller w" for caller
    using filter_remove_nth [OF assms(2), of "\<lambda>q. ak_caller q = caller"]
    unfolding waiting_def asked conts filter_append map_append by simp
  have "agreed lib verdicts (w_trace (confirmWorker i status w))"
    unfolding tr by (rule agreed_append) (use assms(1) in \<open>auto simp: gateInv_def Let_def\<close>)
  moreover have "length (filter isApproval [Answered ?q status]) = (if status = StOk then 1 else 0)"
    by (cases status) simp_all
  moreover have "waiting caller (confirmWorker i status w) \<le> (if sm_find (w_confirmsInFlight w) caller = None then 0 else 1)"
    if "caller \<notin> gone" for caller
    using wait [of caller] assms(1) that by (auto simp: gateInv_def Let_def intro: order_trans)
  ultimately show ?thesis
    using assms(1,3) rest q
    unfolding gateInv_def Let_def fst_conv snd_conv tr asked conts flight
    by (auto simp: subset_iff)
qed

lemma runApply_trace:
  "\<exists>d. w_trace (runApply lib q w) = w_trace w @ d \<and> loopPart (runApply lib q w) = loopPart w
     \<and> list_all (\<lambda>e. trustChange lib e \<longrightarrow> authorises q e) d \<and> length (filter (trustChange lib) d) \<le> 1
     \<and> filter isApproval d = []"
  by (cases "ak_apply q")
    (auto simp: runApply_def applyConfigWrite_def applyConfigReset_def applyImport_def Let_def loopPart_def emit_def
      sendReply_def replyError_def split: sum.split prod.split read_result.split)

lemma gateInv_continuation:
  assumes "gateInv lib verdicts (w, gone)"
  shows "gateInv lib verdicts (confirmContinuation lib w, gone)"
proof (cases "w_continuations w")
  case Nil
  with assms show ?thesis by (simp add: confirmContinuation_def)
next
  case (Cons qs rest)
  obtain q st where qs: "qs = (q, st)" by fastforce
  note cont = Cons [unfolded qs]
  let ?w1 = "w\<lparr>w_continuations := rest\<rparr>"
  let ?w2 = "?w1\<lparr>w_confirmsInFlight := sm_erase (ak_caller q) (w_confirmsInFlight w)\<rparr>"
  have one: "gateInv lib verdicts (?w1, gone)"
    using assms cont by (auto simp: gateInv_def Let_def waiting_def split: if_splits)
  have two: "gateInv lib verdicts (?w2, gone)"
    using assms cont by (auto simp: gateInv_def Let_def waiting_def split: if_splits)
  have applied: "gateInv lib verdicts (runApply lib q ?w2, gone)" if "st = StOk"
  proof -
    obtain d where d: "w_trace (runApply lib q ?w2) = w_trace w @ d" "loopPart (runApply lib q ?w2) = loopPart ?w2"
      "list_all (\<lambda>e. trustChange lib e \<longrightarrow> authorises q e) d" "length (filter (trustChange lib) d) \<le> 1"
      "filter isApproval d = []"
      using runApply_trace [of lib q ?w2] by auto
    have "agreed lib verdicts (w_trace (runApply lib q ?w2))"
      unfolding d(1)
      by (rule agreed_append)
        (use assms cont that d(3) in \<open>auto simp: gateInv_def Let_def approvedBefore_def list_all_iff\<close>)
    with assms two cont that d show ?thesis
      by (auto simp: gateInv_def Let_def loopPart_def waiting_def)
  qed
  show ?thesis
    using cont one gateInv_quiet [OF two quietStep_reply(2)] applied
    by (auto simp: confirmContinuation_def Let_def)
qed

lemma quietStep_upkeep:
  "quietStep lib w (stashSignArtifact opId owner artifact w)" "quietStep lib w (evictSignResult opId w)"
  "quietStep lib w (opFinished opId w)" "quietStep lib w (w\<lparr>w_presence := p\<rparr>)"
  by (simp_all add: quietStep_def loopPart_def stashSignArtifact_def evictSignResult_def opFinished_def)

lemma gateInv_step:
  assumes "frontStep lib verdicts s t" and "gateInv lib verdicts s"
  shows "gateInv lib verdicts t"
  using assms
proof (induction rule: frontStep.induct)
  case (fs_forget caller gone w)
  then show ?case
    by (auto simp: gateInv_def Let_def onFrontendClientDisconnected_def waiting_def)
next
  case (fs_disconnect w gone caller)
  then show ?case by (simp add: gateInv_def Let_def)
next
  case (fs_quiesce w gone)
  then show ?case by (simp add: gateInv_def Let_def quiesceFrontend_def waiting_def)
next
  case (fs_destroy w gone)
  then show ?case by (simp add: gateInv_def Let_def destroyFrontend_def waiting_def)
qed (simp_all add: gateInv_dispatch gateInv_worker gateInv_continuation gateInv_quiet quietStep_upkeep)

interpretation front_system: invariant_system frontInit "frontStep lib verdicts" "gateInv lib verdicts"
  for lib verdicts
proof
  show "gateInv lib verdicts s" if "frontInit s" for s :: "('a, 'b) world \<times> string set"
    using that by (auto simp: frontInit_def gateInv_def agreed_def waiting_def)
qed (rule gateInv_step)

text \<open>What every run knows of a trust change: the approved question before it.\<close>

lemma reach_approvedBefore:
  assumes "reach frontInit (frontStep lib verdicts) (w, gone)"
    and "w_trace w = pre @ e # post" and "trustChange lib e"
  shows "approvedBefore verdicts pre e"
  using front_system.reach_inv [OF assms(1)] assms(2,3) by (simp add: gateInv_def Let_def agreed_def)

section \<open>Properties\<close>

text \<open>
  C6: no trust change without a person: in every run of the frontend, whatever the clients send and
  however answers, disconnects and shutdown interleave, each write of a trust-tier key, each reset of
  one and each import of country signing anchors comes after a question that names exactly that
  change and the prompter's approval of that very question, and there are never more such changes than
  approvals.
\<close>
theorem trust_change_needs_approval:
  assumes "reach frontInit (frontStep lib verdicts) (w, gone)"
    and "w_trace w = pre @ e # post" and "trustChange lib e"
  shows "(\<exists>q. Asked q \<in> set pre \<and> Answered q StOk \<in> set pre \<and> asksAbout q \<and> authorises q e
            \<and> verdicts (ak_action q) StOk)
       \<and> length (filter (trustChange lib) (w_trace w)) \<le> length (filter isApproval (w_trace w))"
proof -
  have "gateInv lib verdicts (w, gone)" using assms(1) by (rule front_system.reach_inv)
  with assms(2,3) show ?thesis
    by (auto simp: gateInv_def Let_def agreed_def approvedBefore_def)
qed

definition demoTrustWrite :: "nat Inbound" where
  "demoTrustWrite = \<lparr>in_connId = 1, in_req = 5, in_caller = ''conn:1'', in_fds = [],
     in_body = SetConfig ''TsaUrls'' (CArray [CText ''https://tsa''])\<rparr>"

definition demoTrusted :: "(nat, nat) world" where
  "demoTrusted = confirmContinuation demoAgent (confirmWorker 0 StOk (dispatch demoAgent demoTrustWrite demoWorld))"

lemma demo_asked:
  "\<exists>q. w_asked (dispatch demoAgent demoTrustWrite demoWorld) = [q] \<and> ak_apply q = ApplyWrite ''TsaUrls'' (CArray [CText ''https://tsa''])
     \<and> w_trace (dispatch demoAgent demoTrustWrite demoWorld)
         = [Authorized ''configure.trust'' ''conn:1'', Charged ''conn:1'', Asked q]
     \<and> w_continuations (dispatch demoAgent demoTrustWrite demoWorld) = []
     \<and> w_alive (dispatch demoAgent demoTrustWrite demoWorld) \<and> \<not> w_quiesced (dispatch demoAgent demoTrustWrite demoWorld)"
  by (simp add: dispatch_def demoTrustWrite_def handleSetConfig_def withMutableKey_def demoAgent_def configAction_def
      withAuthorization_def demoActions_def emit_def withRateLimit_def demoWorld_def confirmThenApply_def
      describeTrustChange_def Let_def)

lemma demo_trusted:
  "\<exists>q x. w_trace demoTrusted = [Authorized ''configure.trust'' ''conn:1'', Charged ''conn:1'', Asked q, Answered q StOk]
     @ ConfigSet (SetTsaUrls [''https://tsa'']) # [x]"
proof -
  let ?d = "dispatch demoAgent demoTrustWrite demoWorld"
  have set: "al_setConfig demoAgent c n = (True, n)" for c n by (simp add: demoAgent_def)
  from demo_asked show ?thesis
    by (auto simp: demoTrusted_def confirmWorker_def confirmContinuation_def Let_def emit_def runApply_def
        applyConfigWrite_def decodeChange_def set sendReply_def)
qed

lemma demo_answered_reach:
  assumes "verdicts (ak_action (w_asked (dispatch demoAgent demoTrustWrite demoWorld) ! 0)) status"
  shows "reach frontInit (frontStep demoAgent verdicts)
     (confirmContinuation demoAgent (confirmWorker 0 status (dispatch demoAgent demoTrustWrite demoWorld)), {})"
proof -
  let ?d = "dispatch demoAgent demoTrustWrite demoWorld"
  have "reach frontInit (frontStep demoAgent verdicts) (demoWorld, {})"
    by (rule reach_init) (simp add: frontInit_def demoWorld_def)
  moreover have "frontStep demoAgent verdicts (demoWorld, {}) (?d, {})"
    by (rule fs_dispatch) (simp_all add: demoWorld_def)
  ultimately have "reach frontInit (frontStep demoAgent verdicts) (?d, {})" by (rule reach_step)
  moreover have "frontStep demoAgent verdicts (?d, {}) (confirmWorker 0 status ?d, {})"
    by (rule fs_answer) (use demo_asked assms in auto)
  ultimately have "reach frontInit (frontStep demoAgent verdicts) (confirmWorker 0 status ?d, {})" by (rule reach_step)
  then show ?thesis by (rule reach_step) (rule fs_continue)
qed

lemmas demo_trusted_reach = demo_answered_reach [of _ StOk, folded demoTrusted_def]

lemmas demo_trusted_any = demo_trusted_reach [of "\<lambda>_ _. True", simplified]

theorem trust_change_needs_approval_witness:
  "\<exists>q. Asked q \<in> set (w_trace demoTrusted) \<and> Answered q StOk \<in> set (w_trace demoTrusted) \<and> asksAbout q
     \<and> authorises q (ConfigSet (SetTsaUrls [''https://tsa'']) :: nat fx)"
proof -
  from demo_trusted obtain pre x where tr: "w_trace demoTrusted = pre @ ConfigSet (SetTsaUrls [''https://tsa'']) # [x]"
    by blast
  have "trustChange demoAgent (ConfigSet (SetTsaUrls [''https://tsa'']))" by (simp add: demoAgent_def)
  from trust_change_needs_approval [OF demo_trusted_any tr this] tr show ?thesis by auto
qed

text \<open>
  C13: a client cannot pile questions up in front of a person: while its connection lives, at most
  one of its questions is waiting for an answer or for its answer to be applied.
\<close>
theorem one_question_per_client:
  assumes "reach frontInit (frontStep lib verdicts) (w, gone)" and "caller \<notin> gone"
  shows "length (filter (\<lambda>q. ak_caller q = caller) (w_asked w @ map fst (w_continuations w))) \<le> 1"
proof -
  have "gateInv lib verdicts (w, gone)" using assms(1) by (rule front_system.reach_inv)
  then have "waiting caller w \<le> (if sm_find (w_confirmsInFlight w) caller = None then 0 else 1)"
    using assms(2) by (auto simp: gateInv_def Let_def)
  then show ?thesis unfolding waiting_def by (simp split: if_splits)
qed

theorem one_question_per_client_witness:
  "length (filter (\<lambda>q. ak_caller q = ''conn:1'') (w_asked demoTrusted @ map fst (w_continuations demoTrusted))) \<le> 1"
  using one_question_per_client [OF demo_trusted_any, of "''conn:1''"] by simp

text \<open>
  C14: an answered question always ends in exactly one reply on the connection that asked, while the
  frontend lives; anything but an approval is answered with the authorisation error and leaves the
  agent's stored state as it was, and an answer that comes after the shutdown changes nothing at all.
\<close>
theorem answer_settles_question:
  assumes "w_continuations w = (q, status) # rest"
  shows "(if w_quiesced w \<or> \<not> w_alive w then confirmContinuation lib w = w\<lparr>w_continuations := rest\<rparr>
          else (\<exists>d. w_trace (confirmContinuation lib w) = w_trace w @ d
                  \<and> List.map_filter answerTo d = [(ak_connId q, ak_req q)]
                  \<and> (status \<noteq> StOk \<longrightarrow> d = [Send (ak_connId q) (ak_req q) (ErrReply NotAuthorized) []]
                       \<and> w_core (confirmContinuation lib w) = w_core w)))"
proof (cases "w_quiesced w \<or> \<not> w_alive w \<or> status \<noteq> StOk")
  case True
  with assms show ?thesis
    by (auto simp: confirmContinuation_def Let_def List.map_filter_def) (simp add: replyError_def sendReply_def emit_def)
next
  case False
  let ?w = "w\<lparr>w_continuations := rest, w_confirmsInFlight := sm_erase (ak_caller q) (w_confirmsInFlight w)\<rparr>"
  have "settles (ak_connId q) (ak_req q) (runApply lib q)"
    by (cases "ak_apply q") (simp_all add: runApply_def settle_intros)
  then obtain d where "w_trace (runApply lib q ?w) = w_trace ?w @ d"
    "List.map_filter answerTo d = [(ak_connId q, ak_req q)]"
    unfolding settles_def by blast
  with False assms show ?thesis by (auto simp: confirmContinuation_def Let_def)
qed

theorem answer_settles_question_witness:
  "\<exists>d. w_trace (confirmContinuation demoAgent (confirmWorker 0 StCancelled (dispatch demoAgent demoTrustWrite demoWorld)))
     = w_trace (confirmWorker 0 StCancelled (dispatch demoAgent demoTrustWrite demoWorld)) @ d
   \<and> d \<noteq> []"
proof -
  let ?w = "confirmWorker 0 StCancelled (dispatch demoAgent demoTrustWrite demoWorld)"
  from demo_asked obtain q where "w_continuations ?w = [(q, StCancelled)]" "w_alive ?w" "\<not> w_quiesced ?w"
    by (auto simp: confirmWorker_def emit_def)
  with answer_settles_question [of ?w q StCancelled "[]" demoAgent] show ?thesis by auto
qed

end
