(* ===== verification/Broker_Replies.thy ===== *)
theory Broker_Replies
  imports Frontend
begin

text \<open>
  The second half of the PKCS#11 handlers of \<^verbatim>\<open>agent/src/backend/SocketFrontend.cpp\<close>: the continuations
  they give the broker, and the closures those post to the transport's loop. What the broker ends a
  call with is an argument; a call it drops ends in the \<^verbatim>\<open>CardError\<close> the handlers hand it. A posted
  closure owns a secret only in a \<^verbatim>\<open>Secure::Buffer\<close>, which cleanses itself; the plain copies it makes
  while it runs are the residue recorded here.
\<close>

section \<open>The continuations\<close>

record ('oc, 'lo) broker_lib =
  bl_makeReply :: "nat \<Rightarrow> reply \<Rightarrow> cbor"
  bl_toSyncError :: "'oc \<Rightarrow> SyncError"
  bl_loginSyncError :: "'lo \<Rightarrow> SyncError"

text \<open>The member the secret is stored in: \<^verbatim>\<open>RawSignatureReply::sig\<close> or \<^verbatim>\<open>DerivedSecretReply::z\<close>.\<close>

datatype SecretField = SigField | ZField

fun secretReply :: "SecretField \<Rightarrow> bytes \<Rightarrow> reply" where
  "secretReply SigField b = RawSignatureReply b"
| "secretReply ZField b = DerivedSecretReply b"

text \<open>A closure on its way to the loop.\<close>

datatype broker_post =
    PostedMessage nat cbor
  | PostedSecret nat nat bytes SecretField

definition postReply :: "nat \<Rightarrow> cbor \<Rightarrow> broker_post" where
  "postReply connId message = PostedMessage connId message"

definition postSecretReply :: "nat \<Rightarrow> nat \<Rightarrow> bytes \<Rightarrow> SecretField \<Rightarrow> broker_post" where
  "postSecretReply connId req secret field = PostedSecret connId req secret field"

definition syncErrorReply :: "('oc, 'lo) broker_lib \<Rightarrow> nat \<Rightarrow> SyncError \<Rightarrow> cbor" where
  "syncErrorReply bl req code = bl_makeReply bl req (ErrReply code)"

definition postErr :: "('oc, 'lo) broker_lib \<Rightarrow> nat \<Rightarrow> nat \<Rightarrow> SyncError \<Rightarrow> broker_post" where
  "postErr bl connId req code = postReply connId (syncErrorReply bl req code)"

text \<open>How a call ended, by the type of the \<^verbatim>\<open>A::Reply\<close> its handler built.\<close>

datatype ('oc, 'lo) broker_end =
    EndCertDer "'oc + bytes"
  | EndPublicKey "'oc + public_key"
  | EndLogin "'lo + u32"
  | EndSignRaw "'oc + bytes"
  | EndDecrypt "'oc + bytes"
  | EndDerive "'oc + bytes"

fun brokerContinuation ::
    "('oc, 'lo) broker_lib \<Rightarrow> nat \<Rightarrow> nat \<Rightarrow> ('oc, 'lo) broker_end \<Rightarrow> broker_post" where
  "brokerContinuation bl connId req (EndCertDer r) =
     (case r of Inr der \<Rightarrow> postReply connId (bl_makeReply bl req (CertDerReply der))
              | Inl oc \<Rightarrow> postErr bl connId req (bl_toSyncError bl oc))"
| "brokerContinuation bl connId req (EndPublicKey r) =
     (case r of
        Inr key \<Rightarrow>
          let pk = (case key of RsaPublicKey modulus exponent \<Rightarrow> RsaPublicKey modulus exponent
                              | EcPublicKey crv x y \<Rightarrow> EcPublicKey crv x y)
          in postReply connId (bl_makeReply bl req (PublicKeyReply pk))
      | Inl oc \<Rightarrow> postErr bl connId req (bl_toSyncError bl oc))"
| "brokerContinuation bl connId req (EndLogin r) =
     (case r of Inr flags \<Rightarrow> postReply connId (bl_makeReply bl req AckReply)
              | Inl oc \<Rightarrow> postErr bl connId req (bl_loginSyncError bl oc))"
| "brokerContinuation bl connId req (EndSignRaw r) =
     (case r of Inr sig \<Rightarrow> postReply connId (bl_makeReply bl req (RawSignatureReply sig))
              | Inl oc \<Rightarrow> postErr bl connId req (bl_toSyncError bl oc))"
| "brokerContinuation bl connId req (EndDecrypt r) =
     (case r of Inr plain \<Rightarrow> postSecretReply connId req plain SigField
              | Inl oc \<Rightarrow> postErr bl connId req (bl_toSyncError bl oc))"
| "brokerContinuation bl connId req (EndDerive r) =
     (case r of Inr z \<Rightarrow> postSecretReply connId req z ZField
              | Inl oc \<Rightarrow> postErr bl connId req (bl_toSyncError bl oc))"

section \<open>The closures on the loop\<close>

text \<open>
  \<^verbatim>\<open>sendTo\<close> with the framed copy it makes: \<^verbatim>\<open>enqueueSend\<close> wipes it once the queue holds its own. A
  closure whose reply cannot be built, or whose send throws, leaves by the exception; the loop then
  sends nothing for it.
\<close>

record loop_env =
  le_wire :: wire_env
  le_scrub :: "cbor \<Rightarrow> cbor"
  le_builds :: bool
  le_sends :: bool

definition sendOnLoop ::
    "loop_env \<Rightarrow> nat \<Rightarrow> cbor \<Rightarrow> 'cred transport \<Rightarrow> 'cred transport \<times> residue list" where
  "sendOnLoop env connId message t =
     (if \<not> le_sends env then (t, [])
      else (sendTo (le_wire env) connId message [] t,
            if sm_find (t_connections t) connId = None then []
            else [DeadCopy (zeroed (frameOf (le_wire env) message 0))]))"

fun runBrokerPost ::
    "('oc, 'lo) broker_lib \<Rightarrow> loop_env \<Rightarrow> broker_post \<Rightarrow> 'cred transport \<Rightarrow> 'cred transport \<times> residue list" where
  "runBrokerPost bl env (PostedMessage connId message) t =
     (if t_loopQuiesced t then (t, []) else sendOnLoop env connId message t)"
| "runBrokerPost bl env (PostedSecret connId req held field) t =
     (if t_loopQuiesced t then (t, [])
      else if \<not> le_builds env then (t, [DeadCopy (zeroed held)])
      else
        let message = bl_makeReply bl req (secretReply field held);
            (t', left) = sendOnLoop env connId message t
        in (t', left @ [DeadTree (le_scrub env message), DeadCopy (zeroed held)]))"

section \<open>What a call is answered with\<close>

fun endsCall :: "broker_call \<Rightarrow> ('oc, 'lo) broker_end \<Rightarrow> bool" where
  "endsCall (BkCertDer _ _ _) (EndCertDer _) = True"
| "endsCall (BkPublicKey _ _ _) (EndPublicKey _) = True"
| "endsCall (BkLogin _ _) (EndLogin _) = True"
| "endsCall (BkSignRaw _ _ _ _ _) (EndSignRaw _) = True"
| "endsCall (BkDecrypt _ _ _ _ _) (EndDecrypt _) = True"
| "endsCall (BkDerive _ _ _ _) (EndDerive _) = True"
| "endsCall _ _ = False"

fun answerFor :: "('oc, 'lo) broker_lib \<Rightarrow> ('oc, 'lo) broker_end \<Rightarrow> reply" where
  "answerFor bl (EndLogin (Inl oc)) = ErrReply (bl_loginSyncError bl oc)"
| "answerFor bl (EndLogin (Inr _)) = AckReply"
| "answerFor bl (EndCertDer r) = case_sum (ErrReply \<circ> bl_toSyncError bl) CertDerReply r"
| "answerFor bl (EndPublicKey r) = case_sum (ErrReply \<circ> bl_toSyncError bl) PublicKeyReply r"
| "answerFor bl (EndDerive r) = case_sum (ErrReply \<circ> bl_toSyncError bl) DerivedSecretReply r"
| "answerFor bl (EndSignRaw r) = case_sum (ErrReply \<circ> bl_toSyncError bl) RawSignatureReply r"
| "answerFor bl (EndDecrypt r) = case_sum (ErrReply \<circ> bl_toSyncError bl) RawSignatureReply r"

fun secretOf :: "('oc, 'lo) broker_end \<Rightarrow> bytes option" where
  "secretOf (EndDecrypt (Inr b)) = Some b"
| "secretOf (EndDerive (Inr b)) = Some b"
| "secretOf _ = None"

fun_cases secretOf_SomeE: "secretOf fin = Some b"

definition cleansed :: "(cbor \<Rightarrow> cbor) \<Rightarrow> residue \<Rightarrow> bool" where
  "cleansed wipe r = (case r of DeadCopy b \<Rightarrow> all_zero b | DeadTree v \<Rightarrow> v \<in> range wipe)"

lemma brokerContinuation_secret:
  "secretOf fin = Some b \<Longrightarrow> \<exists>field. brokerContinuation bl connId req fin = PostedSecret connId req b field"
  by (auto simp: postSecretReply_def elim!: secretOf_SomeE)

lemma runBrokerPost_sends:
  assumes "\<not> t_loopQuiesced t" and "le_builds env" and "le_sends env"
  shows "fst (runBrokerPost bl env (brokerContinuation bl connId req fin) t)
           = sendTo (le_wire env) connId (bl_makeReply bl req (answerFor bl fin)) [] t"
  using assms
  by (cases fin)
    (auto simp: sendOnLoop_def postReply_def postErr_def syncErrorReply_def postSecretReply_def Let_def
      split: sum.split public_key.split)

lemma runBrokerPost_cleansed:
  "list_all (cleansed (le_scrub env)) (snd (runBrokerPost bl env p t))"
  by (cases p) (auto simp: sendOnLoop_def cleansed_def Let_def)

lemma broker_call_addressed:
  assumes "w_trace (dispatch lib inb w) = w_trace w @ d" and "BrokerCalled connId req call \<in> set d"
  shows "connId = in_connId inb \<and> req = in_req inb"
proof -
  have "List.map_filter answerTo d = [(in_connId inb, in_req inb)]"
    using settles_dispatch [of inb lib] assms(1) unfolding settles_def by (metis same_append_eq)
  moreover have "(connId, req) \<in> set (List.map_filter answerTo d)"
    using assms(2) by (force simp: List.map_filter_def)
  ultimately show ?thesis by simp
qed

section \<open>Properties\<close>


definition demoBroker :: "(nat, nat) broker_lib" where
  "demoBroker = \<lparr>bl_makeReply = (\<lambda>req r. case r of RawSignatureReply b \<Rightarrow> CBytes b | _ \<Rightarrow> CUInt 0),
     bl_toSyncError = (\<lambda>_. InvalidRequest), bl_loginSyncError = (\<lambda>_. NotAuthorized)\<rparr>"

definition demoDecrypt :: "nat Inbound" where
  "demoDecrypt = \<lparr>in_connId = 1, in_req = 6, in_caller = ''conn:1'', in_fds = [],
     in_body = PkDecrypt ''R'' ''c'' ''rsa'' [9]\<rparr>"

definition demoLoop :: loop_env where
  "demoLoop = \<lparr>le_wire = demoEnv, le_scrub = (\<lambda>_. COther 0), le_builds = True, le_sends = True\<rparr>"


end
