(* ===== verification/Agent_Loop.thy ===== *)
theory Agent_Loop
  imports Transport_Steps Trust_Gate Broker_Replies
begin

text \<open>
  The agent's loop as \<^verbatim>\<open>agent/src/main.cpp\<close> puts it together: the transport of \<open>Connections\<close> with the
  frontend of \<open>Frontend\<close> and \<open>Trust_Gate\<close> as its sink and as one of its disconnect handlers, the peers'
  credentials as the authoriser's source, and the postings that come back to the loop. Both components
  keep their own state; the replies a handler traced are carried out on the transport in the order of the
  trace, and a caller the transport reports gone leaves a posted clean-up behind.
\<close>

section \<open>What a dispatch may do to the frontend's stores\<close>

text \<open>
  A relation between the worlds before and after that every step of a handler keeps. The handlers are made
  of traced calls, core updates and one waiting question; the ones for a card also record who owns the
  operation they launch, which takes a card that is routed.
\<close>

locale handler_steps =
  fixes R :: "('core, 'box) world \<Rightarrow> ('core, 'box) world \<Rightarrow> bool" and caller :: string
  assumes refl: "R w w"
    and trans: "R w w1 \<Longrightarrow> R w1 w2 \<Longrightarrow> R w w2"
    and emitted: "R w (emit e w)"
    and core: "R w (w\<lparr>w_core := c\<rparr>)"
    and asked: "ak_caller q = caller
      \<Longrightarrow> R w (w\<lparr>w_confirmsInFlight := sm_put caller () (w_confirmsInFlight w), w_asked := w_asked w @ [q]\<rparr>)"
begin

definition within :: "(('core, 'box) world \<Rightarrow> ('core, 'box) world) \<Rightarrow> bool" where
  "within k \<longleftrightarrow> (\<forall>w. R w (k w))"

lemma within_reply [simp]: "R w (sendReply connId req r w)" "R w (replyError connId req err w)"
  by (simp_all add: sendReply_def replyError_def emitted)

lemma within_emit_core [simp]: "R w (emit e (w\<lparr>w_core := c\<rparr>))"
  by (rule trans [OF core emitted])

lemma withinI: "(\<And>w. R w (k w)) \<Longrightarrow> within k"
  by (simp add: within_def)

lemma within_after: "within k \<Longrightarrow> R w w1 \<Longrightarrow> R w (k w1)"
  by (auto simp: within_def intro: trans)

lemma within_replies: "within (sendReply connId req r)" "within (replyError connId req err)"
  by (simp_all add: withinI)

lemma within_withCard: "(\<And>routing. within (k routing)) \<Longrightarrow> within (withCard connId req handle capBit k)"
  by (auto simp: within_def withCard_def split: option.split)

lemma within_withCert: "within k \<Longrightarrow> within (withCert connId req cert k)"
  by (auto simp: within_def withCert_def)

lemma within_withAuthorization: "within k \<Longrightarrow> within (withAuthorization lib connId req act c k)"
  by (rule withinI)
    (auto simp: withAuthorization_def Let_def intro: within_after [OF _ emitted] within_after [OF within_replies(2) emitted]
      split: AuthorizationOutcome.split)

lemma within_withRateLimit: "within k \<Longrightarrow> within (withRateLimit lib connId req c k)"
  by (rule withinI)
    (auto simp: withRateLimit_def Let_def intro: within_after [OF _ within_emit_core] within_after [OF within_replies(2)]
      split: prod.split)

lemma within_withDocument: "(\<And>b. within (k b)) \<Longrightarrow> within (withDocument lib connId req fds idx k)"
  by (rule withinI)
    (auto simp: withDocument_def Let_def intro: within_after [OF _ emitted] within_after [OF within_replies(2) emitted]
      split: read_result.split)

lemma within_withSignOptions: "(\<And>r. within (k r)) \<Longrightarrow> within (withSignOptions lib connId req opts src k)"
  by (auto simp: within_def withSignOptions_def split: sum.split)

lemma within_readDocuments:
  "(\<And>inputs. within (k inputs)) \<Longrightarrow> within (readDocuments lib connId req fds docs inputs k)"
  by (induction docs arbitrary: inputs) (auto intro!: within_withDocument)

lemma within_if:
  "within k \<Longrightarrow> within k' \<Longrightarrow> within (if b then k else k')" "within k \<Longrightarrow> within k' \<Longrightarrow> within (\<lambda>w. if b then k w else k' w)"
  by (simp_all add: within_def)

lemma within_withMutableKey: "(\<And>mut. within (k mut)) \<Longrightarrow> within (withMutableKey lib connId req key k)"
  by (auto simp: within_def withMutableKey_def split: option.split)

lemma within_apply: "within (applyConfigWrite lib connId req key value)" "within (applyConfigReset lib connId req key)"
  by (auto simp: within_def applyConfigWrite_def applyConfigReset_def Let_def split: sum.split prod.split
      intro: within_after [OF within_replies(1)] within_after [OF within_replies(2)])

lemma within_confirm: "c = caller \<Longrightarrow> within (confirmThenApply lib connId req key c what todo)"
  by (auto simp: within_def confirmThenApply_def Let_def intro: trans [OF asked emitted] split: option.split)

lemma within_broker: "within (callBroker lib connId req call)"
  by (simp add: withinI callBroker_def)

lemma within_direct:
  "within (handleHello lib connId req proto wants)" "within (handleGetState connId req)"
  "within (handleLayoutVisual lib connId req label box)" "within (handleGetAppearanceFont lib connId req)"
  "within (handleGetConfig lib connId req)" "within (handlePkLogout lib connId req reader c)"
  "within (handlePkLoginState lib connId req reader c)" "within (handlePkSignRaw lib connId req reader cert mech payload c)"
  "within (handlePkDecrypt lib connId req reader cert mech payload c)" "within (handleCancel lib connId req opId c)"
  "within (handleGetSignResult lib connId req opId c)"
  by (auto simp: within_def handleHello_def handleGetState_def handleLayoutVisual_def handleGetAppearanceFont_def
      handleGetConfig_def handlePkLogout_def handlePkLoginState_def handlePkSignRaw_def handlePkDecrypt_def
      handleCancel_def handleGetSignResult_def callBroker_def Let_def emitted
      intro: within_after [OF within_replies(1)] split: option.split)

lemmas within_intros = within_replies within_withCard within_withCert within_withAuthorization within_withRateLimit
  within_withDocument within_withSignOptions within_readDocuments within_if
  within_withMutableKey within_apply within_confirm within_broker within_direct

lemma dispatch_without_card:
  assumes "in_caller inb = caller" and "\<And>handle. cardRouting handle (w_presence w) = None"
  shows "R w (dispatch lib inb w)"
proof -
  have refused: "withCard connId req handle capBit k w = replyError connId req UnknownCard w" for connId req handle capBit k
    by (simp add: withCard_def assms(2))
  show ?thesis
    using assms(1)
    by (cases "in_body inb")
      (auto simp: dispatch_def refused handleReadIdentity_def handleGetPhoto_def handleReadCertificates_def
        handleReadTokenInfo_def handleSign_def handleSignBatch_def handleListCredentials_def handleManagePin_def
        handleActivateSigningKey_def handleCertDer_def handlePkPublicKey_def handlePkLogin_def handlePkDerive_def
        handleSetConfig_def handleResetConfig_def handleImportCscaMasterList_def Let_def
        intro!: within_intros within_after [OF _ refl])
qed

end

locale handler_relation = handler_steps +
  assumes owned: "R w (w\<lparr>w_opOwners := sm_put opId caller (w_opOwners w)\<rparr>)"
begin

lemma within_launch: "c = caller \<Longrightarrow> within (launch lib connId req routing c job)"
  by (rule withinI)
    (auto simp: launch_def replyLaunched_def Let_def split: prod.split sum.split
      intro: within_after [OF within_replies(2)] within_after [OF within_replies(1)] trans [OF within_emit_core owned])

lemma within_checkedLaunch:
  "c = caller \<Longrightarrow> within (\<lambda>w. case check w of None \<Rightarrow> launch lib connId req routing c (job w) w
      | Some e \<Rightarrow> replyError connId req e w)"
  by (rule withinI) (simp add: within_after [OF within_launch refl] split: option.split)

lemma dispatch_within:
  assumes "in_caller inb = caller"
  shows "R w (dispatch lib inb w)"
proof -
  have "within (dispatch lib inb)"
    using assms
    by (cases "in_body inb")
      (auto simp: dispatch_def handleReadIdentity_def handleGetPhoto_def handleReadCertificates_def
        handleReadTokenInfo_def handleSign_def handleSignBatch_def handleListCredentials_def handleManagePin_def
        handleActivateSigningKey_def handleCertDer_def handlePkPublicKey_def handlePkLogin_def handlePkDerive_def
        handleSetConfig_def handleResetConfig_def handleImportCscaMasterList_def Let_def
        intro!: within_intros within_launch within_checkedLaunch)
  then show ?thesis by (simp add: within_def)
qed

end

section \<open>The parts together\<close>

record ('core, 'cred, 'box, 'oc, 'lo) agent_env =
  ae_lib :: "('core, 'cred, 'box) agent_lib"
  ae_resolve :: "'cred \<Rightarrow> PeerAuth"
  ae_policy :: Policy
  ae_broker :: "('oc, 'lo) broker_lib"
  ae_fd :: "bytes \<Rightarrow> nat"
  ae_loop :: loop_env
  ae_parse :: "bytes \<Rightarrow> (nat \<times> 'box request_body) option"
  ae_verdicts :: "ConfirmAction \<Rightarrow> PromptReplyStatus \<Rightarrow> bool"

abbreviation ae_wire :: "('core, 'cred, 'box, 'oc, 'lo) agent_env \<Rightarrow> wire_env" where
  "ae_wire e \<equiv> le_wire (ae_loop e)"

record ('core, 'cred, 'box) agent =
  ag_transport :: "'cred transport"
  ag_world :: "('core, 'box) world"
  ag_evictions :: "string list"

text \<open>The third of the disconnect handlers \<^verbatim>\<open>main\<close> registers is the frontend's.\<close>

definition frontendHandler :: nat where
  "frontendHandler = 2"

text \<open>The authoriser and the requester labels read the live transport.\<close>

definition libAt ::
    "('core, 'cred, 'box, 'oc, 'lo) agent_env \<Rightarrow> 'cred transport \<Rightarrow> ('core, 'cred, 'box) agent_lib" where
  "libAt e t = (ae_lib e)\<lparr>
     al_authorize := (\<lambda>act caller. fst (authorizeCaller (al_actions (ae_lib e)) (ae_resolve e) (ae_policy e) act caller t)),
     al_credentials := (\<lambda>caller. credentialsFor caller t)\<rparr>"

text \<open>A traced call that goes to the transport, as the transport sees it.\<close>

fun fxCommand :: "('core, 'cred, 'box, 'oc, 'lo) agent_env \<Rightarrow> 'box fx \<Rightarrow> command option" where
  "fxCommand e (Send connId req r artifacts) = Some (DoSend connId (bl_makeReply (ae_broker e) req r) (map (ae_fd e) artifacts))"
| "fxCommand e (SendThenClose connId req r) = Some (DoSendThenClose connId (bl_makeReply (ae_broker e) req r))"
| "fxCommand e (Wants connId wants) = Some (DoSetWants connId wants)"
| "fxCommand e _ = None"

definition newFx :: "('core, 'box) world \<Rightarrow> ('core, 'box) world \<Rightarrow> 'box fx list" where
  "newFx w w' = drop (length (w_trace w)) (w_trace w')"

definition carryOut ::
    "('core, 'cred, 'box, 'oc, 'lo) agent_env \<Rightarrow> 'box fx list \<Rightarrow> 'cred transport \<Rightarrow> 'cred transport" where
  "carryOut e d = fold (runCommand (ae_wire e)) (List.map_filter (fxCommand e) d)"

text \<open>The request sink \<^verbatim>\<open>SocketFrontend::start\<close> installs.\<close>

definition toInbound :: "(nat \<times> 'box request_body) inbound \<Rightarrow> 'box Inbound" where
  "toInbound i = \<lparr>Inbound.in_connId = inbound.in_connId i, in_req = fst (in_request i),
     Inbound.in_caller = inbound.in_caller i, Inbound.in_fds = inbound.in_fds i, in_body = snd (in_request i)\<rparr>"

definition agentSink ::
    "('core, 'cred, 'box, 'oc, 'lo) agent_env \<Rightarrow> (nat \<times> 'box request_body) inbound
       \<Rightarrow> ('core, 'box) world \<times> 'cred transport \<Rightarrow> ('core, 'box) world \<times> 'cred transport" where
  "agentSink e i st =
     (case st of (w, t) \<Rightarrow>
       let w' = dispatch (libAt e t) (toInbound i) w in (w', carryOut e (newFx w w') t))"

text \<open>The transport after a step: the frontend's handler posts a clean-up for every caller it is told of.\<close>

definition settle :: "'cred transport \<Rightarrow> ('core, 'cred, 'box) agent \<Rightarrow> ('core, 'cred, 'box) agent" where
  "settle t' a =
     a\<lparr>ag_transport := t',
       ag_evictions := ag_evictions a
         @ map snd (filter (\<lambda>n. fst n = frontendHandler)
                      (drop (length (t_notified (ag_transport a))) (t_notified t')))\<rparr>"

text \<open>
  The steps of the loop. Cards come to the presence registry only from the monitor, which \<^verbatim>\<open>main\<close> starts after
  it has registered the disconnect handlers, and no longer once the loop is quiesced.
\<close>

inductive agentStep ::
    "('core, 'cred, 'box, 'oc, 'lo) agent_env \<Rightarrow> ('core, 'cred, 'box) agent \<Rightarrow> ('core, 'cred, 'box) agent \<Rightarrow> bool"
  for e where
  as_accept: "agentStep e a (a\<lparr>ag_transport := acceptOne creds (ag_transport a)\<rparr>)"
| as_writable: "agentStep e a (settle (flushWrites (ae_wire e) cid (ag_transport a)) a)"
| as_timeout: "agentStep e a (settle (onFirstFrameTimeout cid (ag_transport a)) a)"
| as_read: "sm_find (t_connections (ag_transport a)) cid = Some c \<Longrightarrow> co_readSource c
    \<Longrightarrow> onReadReady (ae_parse e) (agentSink e) cid pumped (ag_world a, ag_transport a) = (w', t')
    \<Longrightarrow> agentStep e a (settle t' (a\<lparr>ag_world := w'\<rparr>))"
| as_start: "\<not> t_loopQuiesced (ag_transport a)
    \<Longrightarrow> agentStep e a (a\<lparr>ag_transport := setRequestSink (ag_transport a)\<rparr>)"
| as_register: "h \<notin> set (t_disconnectHandlers (ag_transport a))
    \<Longrightarrow> agentStep e a (a\<lparr>ag_transport := onClientDisconnect h (ag_transport a)\<rparr>)"
| as_evict: "ag_evictions a = caller # rest
    \<Longrightarrow> agentStep e a (a\<lparr>ag_evictions := rest,
          ag_world := (if t_loopQuiesced (ag_transport a) then ag_world a
                       else onFrontendClientDisconnected caller (ag_world a))\<rparr>)"
| as_answer: "i < length (w_asked (ag_world a)) \<Longrightarrow> ae_verdicts e (ak_action (w_asked (ag_world a) ! i)) status
    \<Longrightarrow> agentStep e a (a\<lparr>ag_world := confirmWorker i status (ag_world a)\<rparr>)"
| as_continue: "w' = confirmContinuation (ae_lib e) (ag_world a)
    \<Longrightarrow> agentStep e a (settle (carryOut e (newFx (ag_world a) w') (ag_transport a)) (a\<lparr>ag_world := w'\<rparr>))"
| as_broker: "agentStep e a (settle (fst (runBrokerPost (ae_broker e) (ae_loop e) p (ag_transport a))) a)"
| as_post: "\<not> t_loopQuiesced (ag_transport a)
    \<Longrightarrow> agentStep e a (settle (runCommand (ae_wire e) c (ag_transport a)) a)"
| as_stash: "\<not> t_loopQuiesced (ag_transport a)
    \<Longrightarrow> agentStep e a (a\<lparr>ag_world := stashSignArtifact opId owner artifact (ag_world a)\<rparr>)"
| as_expire: "\<not> t_loopQuiesced (ag_transport a)
    \<Longrightarrow> agentStep e a (a\<lparr>ag_world := evictSignResult opId (ag_world a)\<rparr>)"
| as_finished: "\<not> t_loopQuiesced (ag_transport a)
    \<Longrightarrow> agentStep e a (a\<lparr>ag_world := opFinished opId (ag_world a)\<rparr>)"
| as_core: "agentStep e a (a\<lparr>ag_world := (ag_world a)\<lparr>w_core := c\<rparr>\<rparr>)"
| as_presence: "frontendHandler \<in> set (t_disconnectHandlers (ag_transport a))
    \<Longrightarrow> agentStep e a (a\<lparr>ag_world := (ag_world a)\<lparr>w_presence := p\<rparr>\<rparr>)"
| as_quiesce: "agentStep e a (a\<lparr>ag_transport := quiesceLoop (ag_transport a), ag_world := quiesceFrontend (ag_world a)\<rparr>)"
| as_destroy: "t_loopQuiesced (ag_transport a) \<Longrightarrow> agentStep e a (a\<lparr>ag_world := destroyFrontend (ag_world a)\<rparr>)"

definition agentInit :: "('core, 'cred, 'box) agent \<Rightarrow> bool" where
  "agentInit a \<longleftrightarrow>
     transportInit (ag_transport a) \<and> \<not> t_sink (ag_transport a) \<and> \<not> t_loopQuiesced (ag_transport a)
     \<and> frontInit (ag_world a, {}) \<and> \<not> w_quiesced (ag_world a) \<and> w_opOwners (ag_world a) = []
     \<and> p_cardRouting (w_presence (ag_world a)) = [] \<and> ag_evictions a = []"

section \<open>The transport inside the agent\<close>

lemma carryOut_steps: "(transportStep env parse)\<^sup>*\<^sup>* t (fold (runCommand env) cs t)"
proof (induction cs arbitrary: t)
  case (Cons c cs)
  from converse_rtranclp_into_rtranclp [of "transportStep env parse", OF step_command Cons.IH] show ?case by simp
qed simp

lemma broker_command:
  "\<exists>cs. fst (runBrokerPost bl env p t) = fold (runCommand (le_wire env)) cs t"
proof -
  have send: "\<exists>cs. fst (sendOnLoop env connId message t) = fold (runCommand (le_wire env)) cs t" for connId message
    by (cases "le_sends env")
      (auto simp: sendOnLoop_def intro: exI [of _ "[]"] exI [of _ "[DoSend connId message []]"])
  show ?thesis
    by (cases p) (auto simp: Let_def send split: prod.split intro: exI [of _ "[]"], metis send fst_conv)
qed

lemma agentSink_commands: "\<exists>cs. snd (agentSink e i (w, t)) = fold (runCommand (ae_wire e)) cs t"
  by (auto simp: agentSink_def carryOut_def Let_def)

lemma settle_simps [simp]:
  "ag_transport (settle t' a) = t'" "ag_world (settle t' a) = ag_world a"
  by (simp_all add: settle_def)

lemma agentStep_transport:
  assumes "agentStep e a a'"
  shows "(transportStep (ae_wire e) (ae_parse e))\<^sup>*\<^sup>* (ag_transport a) (ag_transport a')"
  using assms
proof (induction rule: agentStep.induct)
  case (as_read a cid c pumped w' t')
  obtain script where "snd (onReadReady (ae_parse e) (agentSink e) cid pumped (ag_world a, ag_transport a))
      = snd (onReadReady (ae_parse e) (commandSink (ae_wire e)) cid pumped (script, ag_transport a))"
    using onReadReady_script [where sink = "agentSink e", OF agentSink_commands] by blast
  with as_read show ?case by (auto intro: r_into_rtranclp step_read)
next
  case (as_broker a p)
  then show ?case using broker_command [of "ae_broker e" "ae_loop e" p] by (metis carryOut_steps settle_simps(1))
qed (auto simp: carryOut_def intro: r_into_rtranclp carryOut_steps transportStep.intros)

interpretation agent_transport: simulation agentInit "agentStep e" "\<lambda>_. True"
    transportInit "transportStep (ae_wire e) (ae_parse e)" ag_transport for e
  by unfold_locales (auto simp: agentInit_def agentStep_transport)

section \<open>The frontend inside the agent\<close>

text \<open>The callers that left: every token handed out whose connection is no longer in the table.\<close>

definition goneCallers :: "'cred transport \<Rightarrow> string set" where
  "goneCallers t = {callerOf k | k. k < t_nextConnId t \<and> \<not> isLive k t}"

definition agentOk :: "('core, 'cred, 'box) agent \<Rightarrow> bool" where
  "agentOk a \<longleftrightarrow>
     transportOk (ag_transport a) \<and> w_quiesced (ag_world a) = t_loopQuiesced (ag_transport a)
     \<and> (t_sink (ag_transport a) \<longrightarrow> \<not> t_loopQuiesced (ag_transport a))
     \<and> set (ag_evictions a) \<subseteq> goneCallers (ag_transport a)"

lemma goneCallers_live: "transportOk t \<Longrightarrow> isLive cid t \<Longrightarrow> callerOf cid \<notin> goneCallers t"
  by (auto simp: goneCallers_def)

lemma goneCallers_same: "sameShape t t' \<Longrightarrow> goneCallers t' = goneCallers t"
  using isLive_same [of t t'] by (simp add: goneCallers_def sameShape_def)

lemma isLive_issued: "transportOk t \<Longrightarrow> isLive k t \<Longrightarrow> k < t_nextConnId t"
  by (auto simp: isLive_def transportOk_def)

lemma goneCallers_close:
  "transportOk t \<Longrightarrow> sm_find (t_connections t) k = Some c
     \<Longrightarrow> goneCallers (closeConnection k t) = insert (callerOf k) (goneCallers t)"
  by (auto simp: goneCallers_def closeConnection_def isLive_def transportOk_def split: if_splits)

lemma goneCallers_evolves:
  assumes "transportOk t" and "evolves t t'"
  shows "goneCallers t' = goneCallers t \<union> leavers t t'"
proof -
  have "t_nextConnId t' = t_nextConnId t" using evolves_flags [OF assms(2)] by simp
  then show ?thesis
    using evolves_dead [OF assms(2)] isLive_issued [OF assms(1)] by (auto simp: goneCallers_def leavers_def)
qed

lemma evolves_frontStep: "evolves t t' \<Longrightarrow> (frontStep lib verdicts)\<^sup>*\<^sup>* (w, goneCallers t) (w, goneCallers t')"
proof (induction rule: evolves.induct)
  case (ev_same t t')
  then show ?case by (simp add: goneCallers_same)
next
  case (ev_close t k c)
  then show ?case by (simp add: goneCallers_close fs_disconnect r_into_rtranclp)
qed simp

interpretation quiesced_kept: handler_relation "\<lambda>w w'. w_quiesced w' = w_quiesced w" caller for caller
  by unfold_locales (simp_all add: emit_def)

lemma confirmContinuation_quiesced [simp]: "w_quiesced (confirmContinuation lib w) = w_quiesced w"
proof -
  have "w_quiesced (runApply lib q w1) = w_quiesced w1" for q w1
    using runApply_trace [of lib q w1] by (auto simp: loopPart_def)
  then show ?thesis
    by (simp add: confirmContinuation_def Let_def replyError_def sendReply_def emit_def split: list.split)
qed

lemma carryOut_ok: "transportOk t \<Longrightarrow> transportOk (carryOut e d t)"
  by (simp add: carryOut_def fold_runCommand_ok)

lemma carryOut_evolves: "transportOk t \<Longrightarrow> evolves t (carryOut e d t)"
  by (simp add: carryOut_def evolves_commands)

text \<open>A read, whatever it delivers: the frontend dispatches for a caller that is still there.\<close>

definition readFrom ::
    "('core, 'cred, 'box, 'oc, 'lo) agent_env \<Rightarrow> ('core, 'cred, 'box) agent
       \<Rightarrow> ('core, 'box) world \<Rightarrow> 'cred transport \<Rightarrow> bool" where
  "readFrom e a w t \<longleftrightarrow>
     transportOk t \<and> evolves (ag_transport a) t \<and> w_quiesced w = w_quiesced (ag_world a)
     \<and> (frontStep (ae_lib e) (ae_verdicts e))\<^sup>*\<^sup>* (ag_world a, goneCallers (ag_transport a)) (w, goneCallers t)"

lemma readFrom_evolve: "readFrom e a w t \<Longrightarrow> transportOk t' \<Longrightarrow> evolves t t' \<Longrightarrow> readFrom e a w t'"
  unfolding readFrom_def by (blast intro: ev_trans rtranclp_trans evolves_frontStep)

lemma readFrom_sink:
  assumes "readFrom e a w t" and "\<not> w_quiesced w" and "isLive cid t" and "inbound.in_caller i = callerOf cid"
  shows "readFrom e a (fst (agentSink e i (w, t))) (snd (agentSink e i (w, t)))"
proof -
  let ?w = "dispatch (libAt e t) (toInbound i) w"
  have "callerOf cid \<notin> goneCallers t" using assms(1,3) by (intro goneCallers_live) (simp_all add: readFrom_def)
  then have "frontStep (ae_lib e) (ae_verdicts e) (w, goneCallers t) (?w, goneCallers t)"
    by (intro fs_dispatch) (simp_all add: assms(2,4) toInbound_def libAt_def)
  moreover have "w_quiesced ?w = w_quiesced w" by (rule quiesced_kept.dispatch_within [OF refl])
  ultimately have "readFrom e a ?w t" using assms(1) by (auto simp: readFrom_def)
  with assms(1) show ?thesis
    by (auto simp: agentSink_def Let_def readFrom_def [of e a w t] intro: readFrom_evolve carryOut_ok carryOut_evolves)
qed

lemma read_readFrom:
  assumes "agentOk a" and "sm_find (t_connections (ag_transport a)) cid = Some c"
  shows "readFrom e a (fst (onReadReady (ae_parse e) (agentSink e) cid pumped (ag_world a, ag_transport a)))
           (snd (onReadReady (ae_parse e) (agentSink e) cid pumped (ag_world a, ag_transport a)))"
proof (rule onReadReady_rule [where P = "readFrom e a", OF _ assms(2)])
  have ok: "transportOk (ag_transport a)" using assms(1) by (simp add: agentOk_def)
  then show begun: "readFrom e a (ag_world a) (ag_transport a)" by (simp add: readFrom_def)
  let ?c = "c\<lparr>co_sawFirstFrame := True, co_firstFrameTimer := False\<rparr>"
  have "connOk cid ?c" using transportOk_conn [OF ok assms(2)] by (simp add: connOk_def connBounds_def)
  then show "readFrom e a (ag_world a) (setConn cid ?c (ag_transport a))"
    by (intro readFrom_evolve [OF begun] setConn_ok [OF ok assms(2)] evolves_setConn [OF assms(2)]) simp_all
  show "readFrom e a w (closeConnection cid t)" if "readFrom e a w t" for w t
  proof -
    have "transportOk t" using that by (simp add: readFrom_def)
    then show ?thesis by (intro readFrom_evolve [OF that] closeConnection_ok evolves_close)
  qed
  show "readFrom e a (fst (agentSink e i (w, t))) (snd (agentSink e i (w, t)))"
    if "readFrom e a w t" "isLive cid t" "t_sink t" "inbound.in_caller i = co_caller c" "inbound.in_connId i = cid" for w t i
  proof (rule readFrom_sink [OF that(1) _ that(2)])
    have "t_sink (ag_transport a)" using that(1,3) evolves_flags by (metis readFrom_def)
    then show "\<not> w_quiesced w" using assms(1) that(1) by (simp add: agentOk_def readFrom_def)
    show "inbound.in_caller i = callerOf cid"
      using that(4) transportOk_conn [OF ok assms(2)] by (simp add: connOk_def connBounds_def)
  qed
qed

lemma settle_evictions:
  assumes "evolves (ag_transport a) t'"
  shows "set (ag_evictions (settle t' a)) = set (ag_evictions a)
           \<union> (if frontendHandler \<in> set (t_disconnectHandlers (ag_transport a)) then leavers (ag_transport a) t' else {})"
proof -
  obtain d where "t_notified t' = t_notified (ag_transport a) @ d"
    "set d = set (t_disconnectHandlers (ag_transport a)) \<times> leavers (ag_transport a) t'"
    using evolves_notified [OF assms] by blast
  moreover have "snd ` {n \<in> H \<times> L. fst n = h} = (if h \<in> H then L else {})" for h :: nat and H and L :: "string set"
    by (auto simp: image_iff)
  ultimately show ?thesis by (simp add: settle_def)
qed

lemma settle_ok:
  assumes "agentOk a" and "transportOk t'" and "evolves (ag_transport a) t'" and "w_quiesced w' = w_quiesced (ag_world a)"
  shows "agentOk (settle t' (a\<lparr>ag_world := w'\<rparr>))"
proof -
  let ?a = "a\<lparr>ag_world := w'\<rparr>"
  have gone: "goneCallers t' = goneCallers (ag_transport a) \<union> leavers (ag_transport a) t'"
    using assms(1) by (intro goneCallers_evolves [OF _ assms(3)]) (simp add: agentOk_def)
  have "set (ag_evictions (settle t' ?a)) \<subseteq> set (ag_evictions a) \<union> leavers (ag_transport a) t'"
    using settle_evictions [of ?a t'] assms(3) by simp
  moreover have "set (ag_evictions a) \<subseteq> goneCallers (ag_transport a)" using assms(1) by (simp add: agentOk_def)
  ultimately have "set (ag_evictions (settle t' ?a)) \<subseteq> goneCallers t'" unfolding gone by blast
  with assms(1,2,4) evolves_flags [OF assms(3)] show ?thesis by (simp add: agentOk_def)
qed

lemma settle_same_ok:
  "agentOk a \<Longrightarrow> transportOk t' \<Longrightarrow> evolves (ag_transport a) t' \<Longrightarrow> agentOk (settle t' a)"
  using settle_ok [of a t' "ag_world a"] by simp

lemma accept_gone: "goneCallers (acceptOne creds t) = goneCallers t"
proof -
  have "k < t_nextConnId (acceptOne creds t) \<and> \<not> isLive k (acceptOne creds t) \<longleftrightarrow> k < t_nextConnId t \<and> \<not> isLive k t" for k
    by (auto simp: acceptOne_def Let_def isLive_def split: option.split)
  then show ?thesis by (simp add: goneCallers_def)
qed

lemma gone_flags [simp]:
  "goneCallers (setRequestSink t) = goneCallers t" "goneCallers (onClientDisconnect h t) = goneCallers t"
  "goneCallers (quiesceLoop t) = goneCallers t"
  by (simp_all add: goneCallers_def isLive_def setRequestSink_def onClientDisconnect_def quiesceLoop_def)

lemma accept_flags [simp]:
  "t_sink (acceptOne creds t) = t_sink t" "t_loopQuiesced (acceptOne creds t) = t_loopQuiesced t"
  by (simp_all add: acceptOne_def Let_def split: option.split)

lemma flags_simps [simp]:
  "t_loopQuiesced (setRequestSink t) = t_loopQuiesced t" "t_loopQuiesced (onClientDisconnect h t) = t_loopQuiesced t"
  "t_sink (onClientDisconnect h t) = t_sink t" "t_loopQuiesced (quiesceLoop t)" "\<not> t_sink (quiesceLoop t)"
  by (simp_all add: setRequestSink_def onClientDisconnect_def quiesceLoop_def)

lemma upkeep_quiesced [simp]:
  "w_quiesced (onFrontendClientDisconnected caller w) = w_quiesced w" "w_quiesced (confirmWorker i status w) = w_quiesced w"
  "w_quiesced (stashSignArtifact opId owner artifact w) = w_quiesced w" "w_quiesced (evictSignResult opId w) = w_quiesced w"
  "w_quiesced (opFinished opId w) = w_quiesced w" "w_quiesced (quiesceFrontend w)"
  "w_quiesced (destroyFrontend w) = w_quiesced w"
  by (simp_all add: onFrontendClientDisconnected_def confirmWorker_def Let_def emit_def stashSignArtifact_def
      evictSignResult_def opFinished_def quiesceFrontend_def destroyFrontend_def)

lemma broker_evolves:
  "transportOk t \<Longrightarrow> transportOk (fst (runBrokerPost bl env p t)) \<and> evolves t (fst (runBrokerPost bl env p t))"
  using broker_command [of bl env p t] by (metis evolves_commands fold_runCommand_ok)

lemma agentOk_transport: "agentOk a \<Longrightarrow> transportOk (ag_transport a)"
  by (simp add: agentOk_def)

lemma agentStep_ok:
  assumes "agentStep e a a'" and "agentOk a"
  shows "agentOk a'"
  using assms
proof (induction rule: agentStep.induct)
  case (as_read a cid c pumped w' t')
  then have "readFrom e a w' t'" using read_readFrom [of a cid c e pumped] by simp
  with as_read show ?case by (intro settle_ok) (simp_all add: readFrom_def)
next
  case (as_continue w' a)
  note ok = agentOk_transport [OF as_continue.prems]
  from as_continue show ?case by (intro settle_ok carryOut_ok [OF ok] carryOut_evolves [OF ok]) simp_all
next
  case (as_accept a creds)
  then show ?case by (simp add: agentOk_def acceptOne_ok accept_gone)
next
  case (as_writable a cid)
  then show ?case by (intro settle_same_ok flushWrites_ok evolves_flush) (auto intro: agentOk_transport)
next
  case (as_timeout a cid)
  then show ?case by (intro settle_same_ok timeout_ok evolves_timeout) (auto intro: agentOk_transport)
next
  case (as_broker a p)
  then show ?case using broker_evolves [OF agentOk_transport] by (intro settle_same_ok) blast+
next
  case (as_post a c)
  then show ?case by (intro settle_same_ok runCommand_ok evolves_command) (auto intro: agentOk_transport)
qed (auto simp: agentOk_def inv_intros)

lemma agentStep_front:
  assumes "agentStep e a a'" and "agentOk a"
  shows "(frontStep (ae_lib e) (ae_verdicts e))\<^sup>*\<^sup>* (ag_world a, goneCallers (ag_transport a))
           (ag_world a', goneCallers (ag_transport a'))"
  using assms
proof (induction rule: agentStep.induct)
  case (as_read a cid c pumped w' t')
  then have "readFrom e a w' t'" using read_readFrom [of a cid c e pumped] by simp
  then show ?case by (simp add: readFrom_def)
next
  case (as_continue w' a)
  have "evolves (ag_transport a) (carryOut e (newFx (ag_world a) w') (ag_transport a))"
    by (rule carryOut_evolves [OF agentOk_transport [OF as_continue.prems]])
  with as_continue show ?case
    by (simp add: converse_rtranclp_into_rtranclp [of "frontStep (ae_lib e) (ae_verdicts e)", OF fs_continue evolves_frontStep])
next
  case (as_broker a p)
  then show ?case by (simp add: evolves_frontStep broker_evolves agentOk_transport)
next
  case (as_evict a caller rest)
  then show ?case by (auto simp: agentOk_def intro: fs_forget)
next
  case (as_destroy a)
  then show ?case by (auto simp: agentOk_def intro: fs_destroy)
qed (auto simp: accept_gone intro: agentOk_transport evolves_frontStep [OF evolves_flush] evolves_frontStep [OF evolves_timeout]
    evolves_frontStep [OF evolves_command] frontStep.intros)

interpretation agent_front: simulation agentInit "agentStep e" agentOk
    frontInit "frontStep (ae_lib e) (ae_verdicts e)" "\<lambda>a. (ag_world a, goneCallers (ag_transport a))" for e
proof
  show "agentOk a" if "agentInit a" for a :: "('a, 'b, 'c) agent"
    using that transport_system.inv_init by (auto simp: agentInit_def agentOk_def)
  show "frontInit (ag_world a, goneCallers (ag_transport a))" if "agentInit a" for a :: "('a, 'b, 'c) agent"
    using that by (simp add: agentInit_def frontInit_def)
qed (auto intro: agentStep_ok agentStep_front)

end
