(* ===== verification/Agent_Clients.thy ===== *)
theory Agent_Clients
  imports Agent_Loop
begin

text \<open>
  What the agent's loop promises its clients: a request is answered on the connection it came over and
  moves no byte on another; a card operation needs the credentials of the peer that asked for it; and the
  frontend keeps the ownership of an operation only for clients that are there or whose clean-up is on its
  way.
\<close>

section \<open>Records of clients\<close>

text \<open>The callers the frontend keeps an operation for, and with them the ones with a waiting question.\<close>

definition opCallers :: "('core, 'box) world \<Rightarrow> string set" where
  "opCallers w = snd ` set (w_opOwners w)"

definition owners :: "('core, 'box) world \<Rightarrow> string set" where
  "owners w = opCallers w \<union> fst ` set (w_confirmsInFlight w)"

definition liveCallers :: "'cred transport \<Rightarrow> string set" where
  "liveCallers t = {callerOf k | k. isLive k t}"

text \<open>The callers the frontend's handler was told of.\<close>

definition told :: "'cred transport \<Rightarrow> string set" where
  "told t = {caller. (frontendHandler, caller) \<in> set (t_notified t)}"

definition hears :: "'cred transport \<Rightarrow> bool" where
  "hears t \<longleftrightarrow> frontendHandler \<in> set (t_disconnectHandlers t)"

text \<open>
  While the loop runs, a caller with a record that the frontend was told of has its clean-up on the way;
  the owner of an operation is there or was told of, since none is owned before the frontend hears.
\<close>

definition accounted :: "('core, 'cred, 'box) agent \<Rightarrow> bool" where
  "accounted a \<longleftrightarrow>
     agentOk a
     \<and> (\<not> t_loopQuiesced (ag_transport a) \<longrightarrow>
          owners (ag_world a) \<inter> told (ag_transport a) \<subseteq> set (ag_evictions a)
          \<and> opCallers (ag_world a) \<subseteq> liveCallers (ag_transport a) \<union> told (ag_transport a)
          \<and> (\<not> hears (ag_transport a) \<longrightarrow>
               w_opOwners (ag_world a) = [] \<and> p_cardRouting (w_presence (ag_world a)) = []))"

lemma sm_put_values: "snd ` set (sm_put k v m) \<subseteq> insert v (snd ` set m)"
  by (induction k v m rule: sm_put.induct) auto

text \<open>A dispatch records at most its own caller, and leaves the presence registry alone.\<close>

definition records :: "string \<Rightarrow> ('core, 'box) world \<Rightarrow> ('core, 'box) world \<Rightarrow> bool" where
  "records caller w w' \<longleftrightarrow>
     opCallers w' \<subseteq> insert caller (opCallers w) \<and> owners w' \<subseteq> insert caller (owners w)
     \<and> w_presence w' = w_presence w"

lemma records_trans: "records caller w w1 \<Longrightarrow> records caller w1 w2 \<Longrightarrow> records caller w w2"
  by (simp add: records_def) blast

interpretation recording: handler_relation "records caller" caller for caller
proof
  show "records caller w (w\<lparr>w_opOwners := sm_put opId caller (w_opOwners w)\<rparr>)" for w :: "('a, 'b) world" and opId
    using sm_put_values [of opId caller "w_opOwners w"] by (auto simp: records_def owners_def opCallers_def)
  show "records caller w w2" if "records caller w w1" "records caller w1 w2" for w w1 w2 :: "('a, 'b) world"
    using that by (rule records_trans)
qed (auto simp: records_def owners_def opCallers_def emit_def sm_put_keys)

interpretation cardless: handler_steps "\<lambda>w w'. w_opOwners w' = w_opOwners w \<and> w_presence w' = w_presence w" caller for caller
  by unfold_locales (auto simp: emit_def)

text \<open>The sink of a read, frame by frame.\<close>

definition readRecords ::
    "string \<Rightarrow> ('core, 'box) world \<Rightarrow> 'cred transport \<Rightarrow> ('core, 'box) world \<Rightarrow> 'cred transport \<Rightarrow> bool" where
  "readRecords caller w t w' t' \<longleftrightarrow>
     records caller w w' \<and> (p_cardRouting (w_presence w) = [] \<longrightarrow> w_opOwners w' = w_opOwners w)"

lemma read_records:
  assumes "sm_find (t_connections t) cid = Some c"
    and "onReadReady (ae_parse e) (agentSink e) cid pumped (w, t) = (w', t')"
  shows "readRecords (co_caller c) w t w' t'"
proof -
  let ?P = "readRecords (co_caller c) w t"
  have "?P (fst (onReadReady (ae_parse e) (agentSink e) cid pumped (w, t)))
           (snd (onReadReady (ae_parse e) (agentSink e) cid pumped (w, t)))"
  proof (rule onReadReady_rule [where P = ?P, OF _ assms(1)])
    show "?P (fst (agentSink e i (v, u))) (snd (agentSink e i (v, u)))"
      if "?P v u" "inbound.in_caller i = co_caller c" for v u i
    proof -
      let ?v = "dispatch (libAt e u) (toInbound i) v"
      have caller: "Inbound.in_caller (toInbound i) = co_caller c" by (simp add: toInbound_def that(2))
      have "records (co_caller c) v ?v" by (rule recording.dispatch_within [OF caller])
      moreover have "w_opOwners ?v = w_opOwners v" if "p_cardRouting (w_presence v) = []"
        using cardless.dispatch_without_card [OF caller, of v "libAt e u"] that by (simp add: cardRouting_def)
      moreover have "w_presence v = w_presence w" using that(1) by (simp add: readRecords_def records_def)
      ultimately have "?P ?v u" using that(1) by (auto simp: readRecords_def intro: records_trans)
      then show ?thesis by (simp add: readRecords_def agentSink_def Let_def)
    qed
  qed (auto simp: readRecords_def records_def)
  with assms(2) show ?thesis by simp
qed

text \<open>What the transport tells while it evolves.\<close>

lemma told_evolves: "evolves t t' \<Longrightarrow> told t' = told t \<union> (if hears t then leavers t t' else {})"
  by (drule evolves_notified) (auto simp: told_def hears_def)

lemma live_evolves: "evolves t t' \<Longrightarrow> liveCallers t = liveCallers t' \<union> leavers t t'"
  using evolves_dead by (auto simp: liveCallers_def leavers_def)

lemma live_untold: "transportOk t \<Longrightarrow> liveCallers t \<inter> told t = {}"
  by (auto simp: liveCallers_def told_def transportOk_def notifiedOk_def isLive_def)

lemma hears_evolves: "evolves t t' \<Longrightarrow> hears t' \<longleftrightarrow> hears t"
  by (drule evolves_flags) (simp add: hears_def)

lemma settle_accounted:
  assumes acc: "accounted a" and ev: "evolves (ag_transport a) t'" and ok: "agentOk (settle t' (a\<lparr>ag_world := w'\<rparr>))"
    and own: "owners w' \<subseteq> owners (ag_world a) \<union> liveCallers (ag_transport a)"
    and ops: "opCallers w' \<subseteq> opCallers (ag_world a) \<union> liveCallers (ag_transport a)"
    and early: "p_cardRouting (w_presence (ag_world a)) = [] \<Longrightarrow> w_opOwners (ag_world a) = [] \<Longrightarrow> w_opOwners w' = []"
    and seen: "w_presence w' = w_presence (ag_world a)"
  shows "accounted (settle t' (a\<lparr>ag_world := w'\<rparr>))"
proof -
  let ?t = "ag_transport a" and ?a = "settle t' (a\<lparr>ag_world := w'\<rparr>)"
  have evict: "set (ag_evictions ?a) = set (ag_evictions a) \<union> (if hears ?t then leavers ?t t' else {})"
    using settle_evictions [of "a\<lparr>ag_world := w'\<rparr>" t'] ev by (simp add: hears_def)
  note told = told_evolves [OF ev] and live = live_evolves [OF ev]
  have fresh: "liveCallers ?t \<inter> told ?t = {}"
    using acc by (intro live_untold) (simp add: accounted_def agentOk_def)
  have "owners w' \<inter> told t' \<subseteq> set (ag_evictions ?a) \<and> opCallers w' \<subseteq> liveCallers t' \<union> told t'
      \<and> (\<not> hears t' \<longrightarrow> w_opOwners w' = [] \<and> p_cardRouting (w_presence w') = [])" if "\<not> t_loopQuiesced t'"
  proof -
    have old: "owners (ag_world a) \<inter> told ?t \<subseteq> set (ag_evictions a)" "opCallers (ag_world a) \<subseteq> liveCallers ?t \<union> told ?t"
      "\<not> hears ?t \<longrightarrow> w_opOwners (ag_world a) = [] \<and> p_cardRouting (w_presence (ag_world a)) = []"
      using acc that evolves_flags [OF ev] by (simp_all add: accounted_def)
    have none: "\<not> hears ?t \<longrightarrow> w_opOwners w' = [] \<and> p_cardRouting (w_presence w') = []"
      using old(3) early seen by simp
    have "owners w' \<inter> told t' \<subseteq> set (ag_evictions ?a)" unfolding told evict using old(1) own fresh by blast
    moreover have "opCallers w' \<subseteq> liveCallers t' \<union> told t'"
    proof (cases "hears ?t")
      case True
      with old(2) ops show ?thesis unfolding told live by auto
    next
      case False
      with none show ?thesis by (simp add: opCallers_def)
    qed
    ultimately show ?thesis using none hears_evolves [OF ev] by simp
  qed
  with ok show ?thesis by (simp add: accounted_def)
qed

lemma settle_quiet_accounted:
  assumes "accounted a" and "transportOk t'" and "evolves (ag_transport a) t'"
    and "owners w' \<subseteq> owners (ag_world a)" and "w_opOwners w' = w_opOwners (ag_world a)"
    and "w_presence w' = w_presence (ag_world a)" and "w_quiesced w' = w_quiesced (ag_world a)"
  shows "accounted (settle t' (a\<lparr>ag_world := w'\<rparr>))"
  using assms by (intro settle_accounted settle_ok) (auto simp: accounted_def opCallers_def)

lemmas settle_accounted_id = settle_quiet_accounted [where w' = "ag_world a" and a = a for a, simplified]

text \<open>The steps that leave the transport's table alone.\<close>

lemma owners_upkeep:
  "owners (onFrontendClientDisconnected caller w) \<subseteq> owners w - {caller}"
  "owners (confirmWorker i status w) = owners w" "owners (stashSignArtifact opId owner artifact w) = owners w"
  "owners (evictSignResult opId w) = owners w" "owners (opFinished opId w) \<subseteq> owners w"
  by (auto simp: owners_def opCallers_def onFrontendClientDisconnected_def confirmWorker_def Let_def emit_def
      stashSignArtifact_def evictSignResult_def opFinished_def sm_erase_def sm_erase_if_def)

lemma ops_upkeep:
  "set (w_opOwners (onFrontendClientDisconnected caller w)) \<subseteq> set (w_opOwners w)"
  "w_opOwners (confirmWorker i status w) = w_opOwners w" "w_opOwners (stashSignArtifact opId owner artifact w) = w_opOwners w"
  "w_opOwners (evictSignResult opId w) = w_opOwners w" "set (w_opOwners (opFinished opId w)) \<subseteq> set (w_opOwners w)"
  "w_presence (onFrontendClientDisconnected caller w) = w_presence w" "w_presence (confirmWorker i status w) = w_presence w"
  "w_presence (stashSignArtifact opId owner artifact w) = w_presence w" "w_presence (evictSignResult opId w) = w_presence w"
  "w_presence (opFinished opId w) = w_presence w"
  by (auto simp: onFrontendClientDisconnected_def confirmWorker_def Let_def emit_def
      stashSignArtifact_def evictSignResult_def opFinished_def sm_erase_def sm_erase_if_def)

lemma owners_traced [simp]:
  "owners (emit fx w) = owners w" "owners (sendReply connId req r w) = owners w"
  "owners (replyError connId req err w) = owners w" "owners (w\<lparr>w_core := c\<rparr>) = owners w"
  "owners (w\<lparr>w_continuations := cs\<rparr>) = owners w" "owners (w\<lparr>w_presence := p\<rparr>) = owners w"
  by (simp_all add: owners_def opCallers_def emit_def sendReply_def replyError_def)

lemma traced_simps [simp]:
  "w_opOwners (emit fx w) = w_opOwners w" "w_opOwners (sendReply connId req r w) = w_opOwners w"
  "w_opOwners (replyError connId req err w) = w_opOwners w"
  "w_presence (emit fx w) = w_presence w" "w_presence (sendReply connId req r w) = w_presence w"
  "w_presence (replyError connId req err w) = w_presence w"
  by (simp_all add: emit_def sendReply_def replyError_def)

lemma runApply_records:
  "owners (runApply lib q w) = owners w \<and> w_opOwners (runApply lib q w) = w_opOwners w
     \<and> w_presence (runApply lib q w) = w_presence w"
  by (cases "ak_apply q")
    (simp_all add: runApply_def applyConfigWrite_def applyConfigReset_def applyImport_def Let_def
      split: sum.split prod.split read_result.split)

lemma owners_answered: "owners (w\<lparr>w_confirmsInFlight := sm_erase caller (w_confirmsInFlight w)\<rparr>) \<subseteq> owners w"
  by (auto simp: owners_def opCallers_def sm_erase_def)

lemma continuation_records:
  "owners (confirmContinuation lib w) \<subseteq> owners w" "w_opOwners (confirmContinuation lib w) = w_opOwners w"
  "w_presence (confirmContinuation lib w) = w_presence w"
  using owners_answered [where w = "w\<lparr>w_continuations := cs\<rparr>" for cs]
  by (simp_all add: confirmContinuation_def Let_def runApply_records split: list.split)

lemma accountedI:
  assumes "agentOk a'" and acc: "accounted a"
    and running: "\<not> t_loopQuiesced (ag_transport a') \<Longrightarrow> \<not> t_loopQuiesced (ag_transport a)"
    and shrink: "owners (ag_world a') \<subseteq> owners (ag_world a) - (set (ag_evictions a) - set (ag_evictions a'))"
    and ops: "set (w_opOwners (ag_world a')) \<subseteq> set (w_opOwners (ag_world a))"
    and seen: "hears (ag_transport a') \<or> w_presence (ag_world a') = w_presence (ag_world a)"
    and told: "told (ag_transport a') = told (ag_transport a)"
    and live: "liveCallers (ag_transport a) \<subseteq> liveCallers (ag_transport a')"
    and hears: "hears (ag_transport a) \<Longrightarrow> hears (ag_transport a')"
  shows "accounted a'"
proof -
  have "owners (ag_world a') \<inter> told (ag_transport a') \<subseteq> set (ag_evictions a')
      \<and> opCallers (ag_world a') \<subseteq> liveCallers (ag_transport a') \<union> told (ag_transport a')
      \<and> (\<not> hears (ag_transport a') \<longrightarrow>
           w_opOwners (ag_world a') = [] \<and> p_cardRouting (w_presence (ag_world a')) = [])"
    if "\<not> t_loopQuiesced (ag_transport a')"
  proof (intro conjI)
    have old: "owners (ag_world a) \<inter> told (ag_transport a) \<subseteq> set (ag_evictions a)"
      "opCallers (ag_world a) \<subseteq> liveCallers (ag_transport a) \<union> told (ag_transport a)"
      "\<not> hears (ag_transport a) \<longrightarrow> w_opOwners (ag_world a) = [] \<and> p_cardRouting (w_presence (ag_world a)) = []"
      using acc running [OF that] by (simp_all add: accounted_def)
    show "owners (ag_world a') \<inter> told (ag_transport a') \<subseteq> set (ag_evictions a')"
      using old(1) shrink unfolding told by blast
    have "opCallers (ag_world a') \<subseteq> opCallers (ag_world a)" unfolding opCallers_def using ops by blast
    with old(2) live show "opCallers (ag_world a') \<subseteq> liveCallers (ag_transport a') \<union> told (ag_transport a')"
      unfolding told by blast
    show "\<not> hears (ag_transport a') \<longrightarrow> w_opOwners (ag_world a') = [] \<and> p_cardRouting (w_presence (ag_world a')) = []"
      using old(3) hears seen ops by auto
  qed
  with assms(1) show ?thesis by (simp add: accounted_def)
qed

lemma transport_upkeep:
  "told (acceptOne creds t) = told t" "told (setRequestSink t) = told t" "told (onClientDisconnect h t) = told t"
  "hears (acceptOne creds t) = hears t" "hears (setRequestSink t) = hears t" "hears t \<Longrightarrow> hears (onClientDisconnect h t)"
  "liveCallers (setRequestSink t) = liveCallers t" "liveCallers (onClientDisconnect h t) = liveCallers t"
  "liveCallers t \<subseteq> liveCallers (acceptOne creds t)"
  by (auto simp: told_def hears_def liveCallers_def isLive_def acceptOne_def Let_def setRequestSink_def onClientDisconnect_def
      split: option.split)

lemma read_accounted:
  assumes a: "accounted a" and c: "sm_find (t_connections (ag_transport a)) cid = Some c"
    and run: "onReadReady (ae_parse e) (agentSink e) cid pumped (ag_world a, ag_transport a) = (w', t')"
    and after: "agentOk (settle t' (a\<lparr>ag_world := w'\<rparr>))"
  shows "accounted (settle t' (a\<lparr>ag_world := w'\<rparr>))"
proof -
  have ok: "agentOk a" using a by (simp add: accounted_def)
  have "evolves (ag_transport a) t'" using read_readFrom [OF ok c, of e pumped] run by (simp add: readFrom_def)
  moreover have "co_caller c \<in> liveCallers (ag_transport a)"
    using transportOk_conn [OF agentOk_transport [OF ok] c] c by (auto simp: connOk_def connBounds_def liveCallers_def isLive_def)
  ultimately show ?thesis
    using after read_records [OF c run] by (intro settle_accounted [OF a]) (auto simp: readRecords_def records_def)
qed

lemma agentStep_accounted:
  assumes "agentStep e a a'" and "accounted a"
  shows "accounted a'"
proof -
  have ok: "agentOk a" using assms(2) by (simp add: accounted_def)
  note tok = agentOk_transport [OF ok]
  note after = agentStep_ok [OF assms(1) ok]
  show ?thesis
    using assms(1)
  proof cases
    case (as_read cid c pumped w' t')
    show ?thesis unfolding as_read(1) using after [unfolded as_read(1)] by (rule read_accounted [OF assms(2) as_read(2,4)])
  next
    case (as_continue w')
    then show ?thesis
      using settle_quiet_accounted [OF assms(2) carryOut_ok [OF tok] carryOut_evolves [OF tok] continuation_records] by simp
  next
    case (as_writable cid)
    then show ?thesis using settle_accounted_id [OF assms(2) flushWrites_ok [OF tok] evolves_flush [OF tok]] by simp
  next
    case (as_timeout cid)
    then show ?thesis using settle_accounted_id [OF assms(2) timeout_ok [OF tok] evolves_timeout [OF tok]] by simp
  next
    case (as_broker p)
    have "accounted (settle (fst (runBrokerPost (ae_broker e) (ae_loop e) p (ag_transport a))) a)"
      using broker_evolves [OF tok, of "ae_broker e" "ae_loop e" p] by (intro settle_accounted_id [OF assms(2)]) simp_all
    with as_broker show ?thesis by simp
  next
    case (as_post c)
    then show ?thesis using settle_accounted_id [OF assms(2) runCommand_ok [OF tok] evolves_command [OF tok]] by simp
  next
    case (as_evict caller rest)
    show ?thesis
    proof (cases "t_loopQuiesced (ag_transport a)")
      case False
      with as_evict owners_upkeep(1) [of caller "ag_world a"] show ?thesis
        by (intro accountedI [OF after assms(2)]) (auto simp: ops_upkeep)
    qed (use as_evict after in \<open>simp add: accounted_def\<close>)
  next
    case as_destroy
    with after show ?thesis by (simp add: accounted_def)
  next
    case as_quiesce
    with after show ?thesis by (simp add: accounted_def)
  next
    case (as_presence p)
    then show ?thesis by (intro accountedI [OF after assms(2)]) (simp_all add: hears_def)
  qed (rule accountedI [OF after assms(2)]; simp add: owners_upkeep ops_upkeep transport_upkeep)+
qed

interpretation client_records: invariant_system agentInit "agentStep e" accounted for e
proof
  show "accounted a" if "agentInit a" for a :: "('a, 'b, 'c) agent"
    using agent_front.conc.inv_init [OF that] that
    by (auto simp: accounted_def agentInit_def frontInit_def owners_def opCallers_def)
qed (rule agentStep_accounted)

section \<open>Replies of a read\<close>

text \<open>The traced calls that go to the transport, and the bytes they are.\<close>

fun onConn :: "nat \<Rightarrow> 'box fx \<Rightarrow> bool" where
  "onConn cid (Send connId req r artifacts) \<longleftrightarrow> connId = cid"
| "onConn cid (SendThenClose connId req r) \<longleftrightarrow> connId = cid"
| "onConn cid (Wants connId wants) \<longleftrightarrow> connId = cid"
| "onConn cid _ \<longleftrightarrow> True"

definition replyBytes :: "('core, 'cred, 'box, 'oc, 'lo) agent_env \<Rightarrow> 'box fx list \<Rightarrow> bytes" where
  "replyBytes e d = concat (map (commandBytes (ae_wire e)) (List.map_filter (fxCommand e) d))"

lemma replyBytes_append [simp]: "replyBytes e (d @ d') = replyBytes e d @ replyBytes e d'"
  by (simp add: replyBytes_def List.map_filter_def)

lemma fxCommand_target: "list_all (onConn cid) d \<Longrightarrow> list_all (\<lambda>c. target c = Some cid) (List.map_filter (fxCommand e) d)"
proof (induction d)
  case (Cons fx d)
  then show ?case by (cases fx) (simp_all add: List.map_filter_simps)
qed (simp add: List.map_filter_simps)

lemma direct_onConn:
  "emits (onConn connId) (handleHello lib connId req proto wants)" "emits (onConn connId) (handleGetState connId req)"
  "emits (onConn connId) (handleLayoutVisual lib connId req label box)"
  "emits (onConn connId) (handleGetAppearanceFont lib connId req)" "emits (onConn connId) (handleGetConfig lib connId req)"
  "emits (onConn connId) (handlePkLogout lib connId req reader caller)"
  "emits (onConn connId) (handlePkLoginState lib connId req reader caller)"
  "emits (onConn connId) (handlePkSignRaw lib connId req reader cert mech payload caller)"
  "emits (onConn connId) (handlePkDecrypt lib connId req reader cert mech payload caller)"
  "emits (onConn connId) (handleCancel lib connId req opId caller)"
  "emits (onConn connId) (handleGetSignResult lib connId req opId caller)"
  by (auto simp: emits_def handleHello_def handleGetState_def handleLayoutVisual_def handleGetAppearanceFont_def
      handleGetConfig_def handlePkLogout_def handlePkLoginState_def handlePkSignRaw_def handlePkDecrypt_def
      handleCancel_def handleGetSignResult_def callBroker_def Let_def split: option.split)

lemma dispatch_onConn: "emits (onConn (Inbound.in_connId inb)) (dispatch lib inb)"
  by (cases "in_body inb")
    (auto simp: dispatch_def handleReadIdentity_def handleGetPhoto_def handleReadCertificates_def
      handleReadTokenInfo_def handleSign_def handleSignBatch_def handleListCredentials_def handleManagePin_def
      handleActivateSigningKey_def handleCertDer_def handlePkPublicKey_def handlePkLogin_def handlePkDerive_def
      handleSetConfig_def handleResetConfig_def handleImportCscaMasterList_def Let_def
      intro!: emit_intros direct_onConn)

text \<open>One request, carried out.\<close>

lemma sink_request:
  obtains d where "w_trace (fst (agentSink e i (w, t))) = w_trace w @ d" "list_all (onConn (inbound.in_connId i)) d"
    "List.map_filter answerTo d = [(inbound.in_connId i, fst (in_request i))]"
    "snd (agentSink e i (w, t)) = fold (runCommand (ae_wire e)) (List.map_filter (fxCommand e) d) t"
proof -
  let ?w = "dispatch (libAt e t) (toInbound i) w"
  have at: "Inbound.in_connId (toInbound i) = inbound.in_connId i" "in_req (toInbound i) = fst (in_request i)"
    by (simp_all add: toInbound_def)
  obtain d where d: "w_trace ?w = w_trace w @ d" "list_all (onConn (inbound.in_connId i)) d"
    using dispatch_onConn [of "toInbound i" "libAt e t"] at unfolding emits_def by metis
  moreover have "List.map_filter answerTo d = [(inbound.in_connId i, fst (in_request i))]"
    using settles_dispatch [of "toInbound i" "libAt e t"] d(1) at unfolding settles_def by (metis same_append_eq)
  ultimately show ?thesis
    by (intro that [of d]) (simp_all add: agentSink_def Let_def newFx_def carryOut_def)
qed

lemma commands_other:
  "list_all (\<lambda>c. target c = Some cid) cs \<Longrightarrow> k \<noteq> cid \<Longrightarrow>
     sm_find (t_connections (fold (runCommand env) cs t)) k = sm_find (t_connections t) k
     \<and> wireBytes k (fold (runCommand env) cs t) = wireBytes k t"
  by (induction cs arbitrary: t) (simp_all add: command_other)

text \<open>What a read has done to the connections so far.\<close>

definition readSoFar ::
    "('core, 'cred, 'box, 'oc, 'lo) agent_env \<Rightarrow> nat \<Rightarrow> ('core, 'box) world \<Rightarrow> 'cred transport
       \<Rightarrow> ('core, 'box) world \<Rightarrow> 'cred transport \<Rightarrow> bool" where
  "readSoFar e cid w0 t0 w t \<longleftrightarrow>
     transportOk t
     \<and> (\<forall>k. k \<noteq> cid \<longrightarrow> sm_find (t_connections t) k = sm_find (t_connections t0) k \<and> wireBytes k t = wireBytes k t0)
     \<and> (\<exists>d. w_trace w = w_trace w0 @ d
           \<and> prefix (wireBytes cid t) (stream cid t0 @ replyBytes e d)
           \<and> (isLive cid t \<longrightarrow> stream cid t = stream cid t0 @ replyBytes e d))"

lemma readSoFar_sink:
  assumes "readSoFar e cid w0 t0 w t" and "isLive cid t" and "inbound.in_connId i = cid"
  shows "readSoFar e cid w0 t0 (fst (agentSink e i (w, t))) (snd (agentSink e i (w, t)))"
proof -
  obtain d where d: "w_trace w = w_trace w0 @ d" "stream cid t = stream cid t0 @ replyBytes e d"
    using assms(1,2) by (auto simp: readSoFar_def)
  obtain d' where d': "w_trace (fst (agentSink e i (w, t))) = w_trace w @ d'" "list_all (onConn cid) d'"
    "snd (agentSink e i (w, t)) = fold (runCommand (ae_wire e)) (List.map_filter (fxCommand e) d') t"
    using sink_request [of e i w t] assms(3) by metis
  note mine = fxCommand_target [OF d'(2), of e]
  have ok: "transportOk t" using assms(1) by (simp add: readSoFar_def)
  let ?cs = "List.map_filter (fxCommand e) d'"
  have "prefix (wireBytes cid (fold (runCommand (ae_wire e)) ?cs t)) (stream cid t0 @ replyBytes e (d @ d'))
      \<and> (isLive cid (fold (runCommand (ae_wire e)) ?cs t)
          \<longrightarrow> stream cid (fold (runCommand (ae_wire e)) ?cs t) = stream cid t0 @ replyBytes e (d @ d'))"
    using conn_stream.commands_append [OF ok mine, of "ae_wire e"] d(2) by (simp add: replyBytes_def [symmetric])
  moreover have "transportOk (fold (runCommand (ae_wire e)) ?cs t)" using ok by (rule fold_runCommand_ok)
  ultimately show ?thesis
    using assms(1) commands_other [OF mine, of _ "ae_wire e" t] d(1) d'(1,3)
    unfolding readSoFar_def by (auto intro!: exI [of _ "d @ d'"])
qed

lemma read_so_far:
  assumes "transportOk t" and "sm_find (t_connections t) cid = Some c"
  shows "readSoFar e cid w t (fst (onReadReady (ae_parse e) (agentSink e) cid pumped (w, t)))
           (snd (onReadReady (ae_parse e) (agentSink e) cid pumped (w, t)))"
proof (rule onReadReady_rule [where P = "readSoFar e cid w t", OF _ assms(2)])
  show "readSoFar e cid w t w t"
    using assms(1) by (auto simp: readSoFar_def replyBytes_def List.map_filter_simps stream_def)
  let ?c = "c\<lparr>co_sawFirstFrame := True, co_firstFrameTimer := False\<rparr>"
  have "connOk cid ?c" using transportOk_conn [OF assms] by (simp add: connOk_def connBounds_def)
  then have "transportOk (setConn cid ?c t)" by (intro setConn_ok [OF assms]) simp_all
  then show "readSoFar e cid w t w (setConn cid ?c t)"
    using assms(2) by (auto simp: readSoFar_def replyBytes_def List.map_filter_simps stream_def)
  show "readSoFar e cid w t v (closeConnection cid u)" if "readSoFar e cid w t v u" for v u
    using that closeConnection_ok [of u cid] by (auto simp: readSoFar_def)
qed (rule readSoFar_sink)

text \<open>The answers of a read are those to its requests, in their order, up to where it stopped.\<close>

definition answersInOrder :: "nat \<Rightarrow> (nat \<times> 'box request_body) list \<Rightarrow> ('core, 'box) world \<Rightarrow> ('core, 'box) world \<Rightarrow> bool" where
  "answersInOrder cid requests w w' \<longleftrightarrow>
     (\<exists>d served. w_trace w' = w_trace w @ d \<and> prefix served requests
        \<and> List.map_filter answerTo d = map (\<lambda>r. (cid, fst r)) served)"

lemma inOrder_none: "answersInOrder cid requests w w"
  unfolding answersInOrder_def by (intro exI [of _ "[]"]) (simp add: List.map_filter_simps)

lemma inOrder_Cons:
  assumes "w_trace w1 = w_trace w @ d" and "List.map_filter answerTo d = [(cid, fst r)]" and "answersInOrder cid requests w1 w'"
  shows "answersInOrder cid (r # requests) w w'"
proof -
  obtain d' served where "w_trace w' = w_trace w1 @ d'" "prefix served requests"
    "List.map_filter answerTo d' = map (\<lambda>r. (cid, fst r)) served"
    using assms(3) by (auto simp: answersInOrder_def)
  with assms(1,2) show ?thesis
    unfolding answersInOrder_def by (intro exI [of _ "d @ d'"] exI [of _ "r # served"]) (simp add: List.map_filter_def)
qed

lemma frames_ignored:
  "\<not> t_sink t \<Longrightarrow> fst (dispatchFrames parse sink caller cid frames ok (w, t)) = w"
proof (induction frames)
  case (Cons fr frames)
  then show ?case
    by (cases fr; cases "parse (fst fr)"; cases "sm_find (t_connections t) cid") simp_all
qed simp

lemma frames_answered:
  assumes "transportOk t"
  shows "answersInOrder cid (List.map_filter (\<lambda>fr. ae_parse e (fst fr)) frames) w
           (fst (dispatchFrames (ae_parse e) (agentSink e) caller cid frames ok (w, t)))"
proof (cases "t_sink t")
  case True
  with assms show ?thesis
  proof (induction frames arbitrary: w t)
    case (Cons fr frames)
    obtain body fds where fr: "fr = (body, fds)" by force
    show ?case
    proof (cases "ae_parse e body")
      case (Some req)
      let ?i = "\<lparr>inbound.in_caller = caller, inbound.in_connId = cid, in_request = req, inbound.in_fds = fds\<rparr>"
      obtain w1 t1 where sunk: "agentSink e ?i (w, t) = (w1, t1)" by fastforce
      obtain d where d: "w_trace w1 = w_trace w @ d" "List.map_filter answerTo d = [(cid, fst req)]"
        "t1 = fold (runCommand (ae_wire e)) (List.map_filter (fxCommand e) d) t"
        by (rule sink_request [of e ?i w t]) (simp add: sunk)
      have "transportOk t1" "t_sink t1"
        using Cons.prems evolves_flags [OF evolves_commands] unfolding d(3) by (auto intro: fold_runCommand_ok)
      note rest = inOrder_Cons [OF d(1,2) Cons.IH [OF this]]
      show ?thesis
        using Some rest sunk Cons.prems(2)
        by (cases "sm_find (t_connections t) cid") (simp_all add: fr List.map_filter_simps inOrder_none)
    qed (simp add: fr inOrder_none)
  qed (simp add: inOrder_none)
qed (simp add: frames_ignored inOrder_none)

lemma read_answered:
  assumes "transportOk t" and "sm_find (t_connections t) cid = Some c"
  shows "answersInOrder cid (List.map_filter (\<lambda>fr. ae_parse e (fst fr)) (pu_frames pumped)) w
           (fst (onReadReady (ae_parse e) (agentSink e) cid pumped (w, t)))"
proof -
  let ?c = "c\<lparr>co_sawFirstFrame := True, co_firstFrameTimer := False\<rparr>"
  have "connOk cid ?c" using transportOk_conn [OF assms] by (simp add: connOk_def connBounds_def)
  then have "transportOk (setConn cid ?c t)" by (intro setConn_ok [OF assms]) simp_all
  with assms show ?thesis by (simp add: onReadReady_def Let_def frames_answered)
qed

section \<open>Whose authority a request runs on\<close>

text \<open>The action a traced call needs: card work that spends a secret, and changes of trust.\<close>

fun neededAction :: "action_ids \<Rightarrow> 'box fx \<Rightarrow> string option" where
  "neededAction ids (Launched tgt (JobSign params)) = Some (kActionSign ids)"
| "neededAction ids (Launched tgt (JobSignBatch params inputs)) = Some (kActionSign ids)"
| "neededAction ids (Launched tgt (JobManagePin request snapshot)) = Some (kActionCredentialsManage ids)"
| "neededAction ids (Launched tgt JobActivateSigningKey) = Some (kActionCredentialsManage ids)"
| "neededAction ids (Asked q) = Some (kActionConfigureTrust ids)"
| "neededAction ids _ = None"

definition permitted :: "('core, 'cred, 'box) agent_lib \<Rightarrow> string \<Rightarrow> 'box fx \<Rightarrow> bool" where
  "permitted lib caller fx \<longleftrightarrow>
     (case neededAction (al_actions lib) fx of None \<Rightarrow> True | Some act \<Rightarrow> al_authorize lib act caller = Granted)"

lemma permitted_plain [simp]: "neededAction (al_actions lib) fx = None \<Longrightarrow> permitted lib caller fx"
  by (simp add: permitted_def)

lemma emits_granted:
  assumes "\<And>e. P (Send connId req (ErrReply e) [])" and "P (Authorized act caller)"
    and "al_authorize lib act caller = Granted \<Longrightarrow> emits P k"
  shows "emits P (withAuthorization lib connId req act caller k)"
proof (cases "al_authorize lib act caller = Granted")
  case True
  with assms show ?thesis by (intro emits_withAuthorization) simp_all
next
  case False
  with assms(1,2) show ?thesis
    by (auto simp: emits_def withAuthorization_def Let_def split: AuthorizationOutcome.split)
qed

lemma emits_gated:
  "(al_authorize lib act caller = Granted \<Longrightarrow> emits (permitted lib caller) k)
     \<Longrightarrow> emits (permitted lib caller) (withAuthorization lib connId req act caller k)"
  by (rule emits_granted) simp_all

lemma direct_permitted:
  "emits (permitted lib c) (handleHello lib connId req proto wants)" "emits (permitted lib c) (handleGetState connId req)"
  "emits (permitted lib c) (handleLayoutVisual lib connId req label box)"
  "emits (permitted lib c) (handleGetAppearanceFont lib connId req)" "emits (permitted lib c) (handleGetConfig lib connId req)"
  "emits (permitted lib c) (handlePkLogout lib connId req reader caller)"
  "emits (permitted lib c) (handlePkLoginState lib connId req reader caller)"
  "emits (permitted lib c) (handlePkSignRaw lib connId req reader cert mech payload caller)"
  "emits (permitted lib c) (handlePkDecrypt lib connId req reader cert mech payload caller)"
  "emits (permitted lib c) (handleCancel lib connId req opId caller)"
  "emits (permitted lib c) (handleGetSignResult lib connId req opId caller)"
  by (auto simp: emits_def handleHello_def handleGetState_def handleLayoutVisual_def handleGetAppearanceFont_def
      handleGetConfig_def handlePkLogout_def handlePkLoginState_def handlePkSignRaw_def handlePkDecrypt_def
      handleCancel_def handleGetSignResult_def callBroker_def Let_def split: option.split)

lemma emits_either: "(b \<Longrightarrow> emits P k) \<Longrightarrow> (\<not> b \<Longrightarrow> emits P k') \<Longrightarrow> emits P (if b then k else k')"
  by simp

lemmas gate_emits = emits_gated emits_withCard emits_withCert emits_withRateLimit emits_withDocument emits_withSignOptions
  emits_readDocuments emits_launch emits_checkedLaunch emits_either emits_if_fun emits_replyError emits_withMutableKey emits_writes
  emits_confirmThenApply emits_callBroker

lemma permitted_simps [simp]:
  "permitted lib c (Launched tgt (JobSign params)) \<longleftrightarrow> al_authorize lib (kActionSign (al_actions lib)) c = Granted"
  "permitted lib c (Launched tgt (JobSignBatch params inputs)) \<longleftrightarrow> al_authorize lib (kActionSign (al_actions lib)) c = Granted"
  "permitted lib c (Launched tgt (JobManagePin request snapshot))
     \<longleftrightarrow> al_authorize lib (kActionCredentialsManage (al_actions lib)) c = Granted"
  "permitted lib c (Launched tgt JobActivateSigningKey) \<longleftrightarrow> al_authorize lib (kActionCredentialsManage (al_actions lib)) c = Granted"
  "permitted lib c (Asked q) \<longleftrightarrow> al_authorize lib (kActionConfigureTrust (al_actions lib)) c = Granted"
  by (simp_all add: permitted_def)

lemma dispatch_permitted: "emits (permitted lib (Inbound.in_caller inb)) (dispatch lib inb)"
  by (cases "in_body inb")
    (auto simp: dispatch_def handleReadIdentity_def handleGetPhoto_def handleReadCertificates_def
      handleReadTokenInfo_def handleSign_def handleSignBatch_def handleListCredentials_def handleManagePin_def
      handleActivateSigningKey_def handleCertDer_def handlePkPublicKey_def handlePkLogin_def handlePkDerive_def
      handleSetConfig_def handleResetConfig_def handleImportCscaMasterList_def configAction_def Let_def
      intro!: gate_emits direct_permitted)

text \<open>Over the live transport: the peer the connection was accepted with meets the policy.\<close>

definition peerAllowed :: "('core, 'cred, 'box, 'oc, 'lo) agent_env \<Rightarrow> 'cred \<Rightarrow> string \<Rightarrow> bool" where
  "peerAllowed e creds act \<longleftrightarrow>
     (let ids = al_actions (ae_lib e); listed = governingList ids (ae_policy e) act
      in listed = [] \<or> meetsPolicy (ae_policy e) listed (ae_resolve e creds))"

lemma granted_peer:
  assumes "transportOk t" and "sm_find (t_connections t) cid = Some c"
    and "al_authorize (libAt e t) act (callerOf cid) = Granted"
  shows "peerAllowed e (co_creds c) act"
  using assms authorizeCaller_live [OF assms(1), of "al_actions (ae_lib e)" "ae_resolve e" "ae_policy e" act cid]
  by (simp add: libAt_def authorize_granted peerAllowed_def Let_def)

lemma sink_permitted:
  assumes "transportOk t" and "sm_find (t_connections t) cid = Some c" and "inbound.in_caller i = callerOf cid"
    and "w_trace (fst (agentSink e i (w, t))) = w_trace w @ d" and "fx \<in> set d"
    and "neededAction (al_actions (ae_lib e)) fx = Some act"
  shows "peerAllowed e (co_creds c) act"
proof -
  have "permitted (libAt e t) (callerOf cid) fx"
    using emitsD [OF dispatch_permitted [of "libAt e t" "toInbound i"]] assms(3,4,5)
    by (simp add: agentSink_def Let_def toInbound_def)
  moreover have "al_actions (libAt e t) = al_actions (ae_lib e)" by (simp add: libAt_def)
  ultimately show ?thesis using assms(6) by (intro granted_peer [OF assms(1,2)]) (simp add: permitted_def)
qed

definition readPermitted ::
    "('core, 'cred, 'box, 'oc, 'lo) agent_env \<Rightarrow> 'cred \<Rightarrow> ('core, 'box) world \<Rightarrow> 'cred transport
       \<Rightarrow> ('core, 'box) world \<Rightarrow> 'cred transport \<Rightarrow> bool" where
  "readPermitted e creds w0 t0 w t \<longleftrightarrow>
     transportOk t \<and> evolves t0 t
     \<and> (\<exists>d. w_trace w = w_trace w0 @ d
           \<and> (\<forall>fx \<in> set d. \<forall>act. neededAction (al_actions (ae_lib e)) fx = Some act \<longrightarrow> peerAllowed e creds act))"

lemma readPermitted_evolve:
  "readPermitted e creds w0 t0 w t \<Longrightarrow> transportOk t' \<Longrightarrow> evolves t t' \<Longrightarrow> readPermitted e creds w0 t0 w t'"
  unfolding readPermitted_def by (blast intro: ev_trans)

lemma readPermitted_sink:
  assumes "readPermitted e (co_creds c) w0 t0 w t" and "sm_find (t_connections t0) cid = Some c" and "isLive cid t"
    and "inbound.in_caller i = callerOf cid"
  shows "readPermitted e (co_creds c) w0 t0 (fst (agentSink e i (w, t))) (snd (agentSink e i (w, t)))"
proof -
  have ok: "transportOk t" "evolves t0 t" using assms(1) by (simp_all add: readPermitted_def)
  obtain c' where c': "sm_find (t_connections t) cid = Some c'" using assms(3) by (auto simp: isLive_def)
  with evolves_creds [OF ok(2) this] assms(2) have same: "co_creds c' = co_creds c" by simp
  obtain d where d: "w_trace w = w_trace w0 @ d"
    "\<forall>fx \<in> set d. \<forall>act. neededAction (al_actions (ae_lib e)) fx = Some act \<longrightarrow> peerAllowed e (co_creds c) act"
    using assms(1) by (auto simp: readPermitted_def)
  obtain d' where d': "w_trace (fst (agentSink e i (w, t))) = w_trace w @ d'"
    "snd (agentSink e i (w, t)) = fold (runCommand (ae_wire e)) (List.map_filter (fxCommand e) d') t"
    by (rule sink_request [of e i w t])
  have "\<forall>fx \<in> set d'. \<forall>act. neededAction (al_actions (ae_lib e)) fx = Some act \<longrightarrow> peerAllowed e (co_creds c) act"
    using sink_permitted [OF ok(1) c' assms(4) d'(1)] same by simp
  with d d'(1) have "readPermitted e (co_creds c) w0 t0 (fst (agentSink e i (w, t))) t"
    unfolding readPermitted_def using ok by (intro conjI exI [of _ "d @ d'"]) auto
  then show ?thesis unfolding d'(2) by (rule readPermitted_evolve [OF _ fold_runCommand_ok evolves_commands]) (fact ok(1))+
qed

lemma read_permitted:
  assumes "transportOk t" and "sm_find (t_connections t) cid = Some c"
  shows "readPermitted e (co_creds c) w t (fst (onReadReady (ae_parse e) (agentSink e) cid pumped (w, t)))
           (snd (onReadReady (ae_parse e) (agentSink e) cid pumped (w, t)))"
proof (rule onReadReady_rule [where P = "readPermitted e (co_creds c) w t", OF _ assms(2)])
  show begun: "readPermitted e (co_creds c) w t w t" using assms(1) by (simp add: readPermitted_def)
  let ?c = "c\<lparr>co_sawFirstFrame := True, co_firstFrameTimer := False\<rparr>"
  have caller: "co_caller c = callerOf cid" and "connOk cid ?c"
    using transportOk_conn [OF assms] by (simp_all add: connOk_def connBounds_def)
  then show "readPermitted e (co_creds c) w t w (setConn cid ?c t)"
    by (intro readPermitted_evolve [OF begun] setConn_ok [OF assms] evolves_setConn [OF assms(2)]) simp_all
  show "readPermitted e (co_creds c) w t v (closeConnection cid u)" if "readPermitted e (co_creds c) w t v u" for v u
    using that by (intro readPermitted_evolve [OF that] closeConnection_ok evolves_close) (simp_all add: readPermitted_def)
  show "readPermitted e (co_creds c) w t (fst (agentSink e i (v, u))) (snd (agentSink e i (v, u)))"
    if "readPermitted e (co_creds c) w t v u" "isLive cid u" "inbound.in_caller i = co_caller c" for v u i
    using that caller by (intro readPermitted_sink [OF _ assms(2)]) simp_all
qed

section \<open>A run to look at\<close>

text \<open>The monitor has shown a card, a client is connected, and the policy asks for its signing identity.\<close>

definition demoParts :: "(nat, nat, nat, nat, nat) agent_env" where
  "demoParts = \<lparr>ae_lib = demoAgent, ae_resolve = demoPeer, ae_policy = sitePolicy, ae_broker = demoBroker, ae_fd = length,
     ae_loop = demoLoop, ae_parse = (\<lambda>b. if b = [1] then Some (5, Sign ''obj/2'' ''cert'' 0 demoSignOpts) else None),
     ae_verdicts = (\<lambda>_ _. True)\<rparr>"

definition demoReady :: "(nat, nat, nat) agent" where
  "demoReady = \<lparr>ag_transport = demoTransport\<lparr>t_disconnectHandlers := [2]\<rparr>, ag_world = demoWorld, ag_evictions = []\<rparr>"

lemma demo_ready: "reach agentInit (agentStep e) demoReady"
  for e :: "(nat, nat, nat, 'oc, 'lo) agent_env"
proof -
  let ?cold = "\<lparr>ag_transport = demoStart\<lparr>t_sink := False\<rparr>, ag_world = demoWorld\<lparr>w_presence := presenceInit\<rparr>,
    ag_evictions = []\<rparr>"
  have "agentInit ?cold"
    by (simp add: agentInit_def transportInit_def demoStart_def frontInit_def demoWorld_def presenceInit_def)
  then have "reach agentInit (agentStep e) ?cold" by (rule reach_init)
  from reach_step [OF this as_start] have "reach agentInit (agentStep e) (?cold\<lparr>ag_transport := demoStart\<rparr>)"
    by (simp add: demoStart_def setRequestSink_def)
  from reach_step [OF this as_register [where h = 2]]
  have "reach agentInit (agentStep e) (?cold\<lparr>ag_transport := demoStart\<lparr>t_disconnectHandlers := [2]\<rparr>\<rparr>)"
    by (simp add: demoStart_def onClientDisconnect_def)
  from reach_step [OF this as_presence [where p = "w_presence demoWorld"]]
  have "reach agentInit (agentStep e)
      \<lparr>ag_transport = demoStart\<lparr>t_disconnectHandlers := [2]\<rparr>, ag_world = demoWorld, ag_evictions = []\<rparr>"
    by (simp add: demoWorld_def frontendHandler_def)
  from reach_step [OF this as_accept [where creds = "Some 501"]] show ?thesis
    by (simp add: acceptOne_def demoStart_def demoReady_def demoTransport_def demoConn_def kMaxConnections_def setConn_def
        callerOf_def caller_one numeral_2_eq_2)
qed

definition demoFrame :: "(nat \<times> nat request_body) inbound" where
  "demoFrame = \<lparr>inbound.in_caller = ''conn:1'', inbound.in_connId = 1, in_request = (5, Sign ''obj/2'' ''cert'' 0 demoSignOpts),
     inbound.in_fds = [40]\<rparr>"

lemma demo_granted:
  "t_connections t = [(1, c)] \<Longrightarrow> co_caller c = ''conn:1'' \<Longrightarrow> co_creds c = 501
     \<Longrightarrow> al_authorize (libAt demoParts t) ''sign'' ''conn:1'' = Granted"
  by (simp add: libAt_def demoParts_def authorizeCaller_def authorize_def demoAgent_def demoActions_def isDefaultAction_def
      credentialsFor_def sitePolicy_def demoPeer_def verdict_def signingIdAllowed_def Let_def)

lemma demo_sunk:
  assumes "t_connections t = [(1, c)]" and "co_caller c = ''conn:1''" and "co_creds c = 501"
  shows "\<exists>tgt job. dispatch (libAt demoParts t) (toInbound demoFrame) demoWorld
     = demoWorld\<lparr>w_opOwners := [(7, ''conn:1'')], w_core := 2,
        w_trace := [Authorized ''sign'' ''conn:1'', Charged ''conn:1'', ReadFile 40, Launched tgt (JobSign job),
          Send 1 5 (OpStarted 7) []]\<rparr>"
  using demo_granted [OF assms]
  by (simp add: dispatch_def toInbound_def demoFrame_def handleSign_def withCard_def cardRouting_def demoWorld_def
      demoAgent_def libAt_def demoParts_def demoRouting_def withCert_def withAuthorization_def demoActions_def withRateLimit_def
      withDocument_def withSignOptions_def launch_def replyLaunched_def emit_def sendReply_def Let_def
      resolveSignOptions_def resolveFormat_def demoSignLib_def demoSignOpts_def demoSignConfig_def valueOr_def
      resolveVisual_def)

definition demoPumped :: pumped where
  "demoPumped = \<lparr>pu_frames = [([1], [40])], pu_ok = False\<rparr>"

lemma demo_read:
  obtains tgt job t' where "onReadReady (ae_parse demoParts) (agentSink demoParts) 1 demoPumped (ag_world demoReady, ag_transport demoReady)
   = (demoWorld\<lparr>w_opOwners := [(7, ''conn:1'')], w_core := 2,
        w_trace := [Authorized ''sign'' ''conn:1'', Charged ''conn:1'', ReadFile 40, Launched tgt (JobSign job),
          Send 1 5 (OpStarted 7) []]\<rparr>, closeConnection 1 t')"
proof -
  let ?c = "demoConn\<lparr>co_sawFirstFrame := True, co_firstFrameTimer := False\<rparr>"
  let ?t = "setConn 1 ?c (ag_transport demoReady)"
  have "t_connections ?t = [(1, ?c)]"
    by (simp add: setConn_def demoReady_def demoTransport_def)
  then obtain tgt job where "dispatch (libAt demoParts ?t) (toInbound demoFrame) demoWorld
      = demoWorld\<lparr>w_opOwners := [(7, ''conn:1'')], w_core := 2,
        w_trace := [Authorized ''sign'' ''conn:1'', Charged ''conn:1'', ReadFile 40, Launched tgt (JobSign job),
          Send 1 5 (OpStarted 7) []]\<rparr>"
    using demo_sunk [of ?t ?c] by (auto simp: demoConn_def)
  moreover have "ae_parse demoParts [1] = Some (5, Sign ''obj/2'' ''cert'' 0 demoSignOpts)" by (simp add: demoParts_def)
  moreover have "sm_find (t_connections (ag_transport demoReady)) 1 = Some demoConn" "t_sink ?t" "co_caller demoConn = ''conn:1''"
    by (simp_all add: demoReady_def demoTransport_def demoStart_def demoConn_def)
  moreover have "sm_find (t_connections ?t) 1 = Some ?c" by simp
  ultimately show ?thesis
    by (intro that) (simp add: onReadReady_def demoPumped_def demoReady_def demoConn_def agentSink_def Let_def demoFrame_def)
qed

section \<open>Properties\<close>

text \<open>
  C3: what a client sends is answered on its own connection, in order, and touches nobody else's. In every
  reachable state of the agent, reading a connection dispatches a first part of the requests that arrived,
  leaves one answer for each of them in their order, appends exactly the bytes of those answers to what the
  connection is due (what has left is a prefix of that, should the connection be closed on the way), and
  leaves every other connection and every byte sent on it as they were.
\<close>
theorem answers_stay_on_their_connection:
  assumes "reach agentInit (agentStep e) a" and "sm_find (t_connections (ag_transport a)) cid = Some c"
    and "onReadReady (ae_parse e) (agentSink e) cid pumped (ag_world a, ag_transport a) = (w', t')"
  shows "(\<exists>d served. w_trace w' = w_trace (ag_world a) @ d
            \<and> prefix served (List.map_filter (\<lambda>fr. ae_parse e (fst fr)) (pu_frames pumped))
            \<and> List.map_filter answerTo d = map (\<lambda>r. (cid, fst r)) served
            \<and> prefix (wireBytes cid t') (stream cid (ag_transport a) @ replyBytes e d)
            \<and> (isLive cid t' \<longrightarrow> stream cid t' = stream cid (ag_transport a) @ replyBytes e d))
       \<and> (\<forall>k. k \<noteq> cid \<longrightarrow> sm_find (t_connections t') k = sm_find (t_connections (ag_transport a)) k
                          \<and> wireBytes k t' = wireBytes k (ag_transport a))"
proof -
  have ok: "transportOk (ag_transport a)" using agent_front.conc.reach_inv [OF assms(1)] by (rule agentOk_transport)
  have "answersInOrder cid (List.map_filter (\<lambda>fr. ae_parse e (fst fr)) (pu_frames pumped)) (ag_world a) w'"
    using read_answered [OF ok assms(2), of e pumped "ag_world a"] assms(3) by simp
  moreover have "readSoFar e cid (ag_world a) (ag_transport a) w' t'"
    using read_so_far [OF ok assms(2), of e "ag_world a" pumped] assms(3) by simp
  ultimately show ?thesis by (auto simp: answersInOrder_def readSoFar_def)
qed

theorem answers_stay_on_their_connection_witness:
  "\<exists>w' t'. onReadReady (ae_parse demoParts) (agentSink demoParts) 1 demoPumped (ag_world demoReady, ag_transport demoReady)
        = (w', t') \<and> List.map_filter answerTo (w_trace w') = [(1, 5)] \<and> wireBytes 2 t' = []
      \<and> prefix (wireBytes 1 t') [0, 1, 2, 3]"
proof -
  obtain tgt job t' w' where r: "onReadReady (ae_parse demoParts) (agentSink demoParts) 1 demoPumped
      (ag_world demoReady, ag_transport demoReady) = (w', t')"
    "w_trace w' = [Authorized ''sign'' ''conn:1'', Charged ''conn:1'', ReadFile 40, Launched tgt (JobSign job),
       Send 1 5 (OpStarted 7) []]"
    by (rule demo_read) simp
  have at: "sm_find (t_connections (ag_transport demoReady)) 1 = Some demoConn"
    by (simp add: demoReady_def demoTransport_def)
  have "w_trace (ag_world demoReady) = []" "stream 1 (ag_transport demoReady) = []" "wireBytes 2 (ag_transport demoReady) = []"
    by (simp_all add: demoReady_def demoWorld_def demoTransport_def demoStart_def demoConn_def stream_def wireBytes_def)
  moreover have "replyBytes demoParts (w_trace w') = [0, 1, 2, 3]"
    by (simp add: r(2) replyBytes_def List.map_filter_simps demoParts_def demoBroker_def demoLoop_def demoEnv_def)
  ultimately show ?thesis
    using answers_stay_on_their_connection [OF demo_ready at r(1)] r(1)
    by (auto simp: r(2) List.map_filter_simps)
qed



text \<open>
  C5: no operation outlives its client unnoticed. In every reachable state of a running agent, whoever owns
  an operation is connected, or the clean-up of that caller is already posted to the loop.
\<close>
theorem operation_owner_present:
  assumes "reach agentInit (agentStep e) a" and "\<not> t_loopQuiesced (ag_transport a)"
    and "sm_find (w_opOwners (ag_world a)) opId = Some caller"
  shows "(\<exists>cid. caller = callerOf cid \<and> sm_find (t_connections (ag_transport a)) cid \<noteq> None)
       \<or> caller \<in> set (ag_evictions a)"
proof -
  have acc: "accounted a" using assms(1) by (rule client_records.reach_inv)
  have "caller \<in> opCallers (ag_world a)" using sm_find_in [OF assms(3)] by (force simp: opCallers_def)
  moreover from this have "caller \<in> owners (ag_world a)" by (simp add: owners_def)
  ultimately have "caller \<in> liveCallers (ag_transport a) \<or> caller \<in> set (ag_evictions a)"
    using acc assms(2) unfolding accounted_def by blast
  then show ?thesis by (auto simp: liveCallers_def isLive_def)
qed

theorem operation_owner_present_witness:
  "\<exists>a. reach agentInit (agentStep demoParts) a \<and> sm_find (w_opOwners (ag_world a)) 7 = Some ''conn:1''
      \<and> sm_find (t_connections (ag_transport a)) 1 = None \<and> ''conn:1'' \<in> set (ag_evictions a)"
proof -
  obtain t' w' where r: "onReadReady (ae_parse demoParts) (agentSink demoParts) 1 demoPumped
      (ag_world demoReady, ag_transport demoReady) = (w', closeConnection 1 t')" "w_opOwners w' = [(7, ''conn:1'')]"
    by (rule demo_read) simp
  let ?a = "settle (closeConnection 1 t') (demoReady\<lparr>ag_world := w'\<rparr>)"
  have at: "sm_find (t_connections (ag_transport demoReady)) 1 = Some demoConn" "co_readSource demoConn"
    by (simp_all add: demoReady_def demoTransport_def demoConn_def)
  have reached: "reach agentInit (agentStep demoParts) ?a" by (rule reach_step [OF demo_ready as_read [OF at r(1)]])
  have "evolves (ag_transport demoReady) (closeConnection 1 t')"
    using read_readFrom [OF agent_front.conc.reach_inv [OF demo_ready] at(1), of demoParts demoPumped] r(1)
    by (simp add: readFrom_def)
  then have running: "\<not> t_loopQuiesced (ag_transport ?a)"
    using evolves_flags by (force simp: demoReady_def demoTransport_def demoStart_def)
  have owner: "sm_find (w_opOwners (ag_world ?a)) 7 = Some ''conn:1''" by (simp add: r(2))
  have "callerOf cid = ''conn:1'' \<longleftrightarrow> cid = 1" for cid
    using callerOf_inj [of cid 1] by (simp add: callerOf_def caller_one)
  then have "''conn:1'' \<in> set (ag_evictions ?a)"
    using operation_owner_present [OF reached running owner] by (auto simp: eq_commute [of "''conn:1''"])
  with reached owner show ?thesis by (intro exI [of _ ?a]) simp
qed

text \<open>
  C7: the agent is its two halves and nothing more. In every reachable state of the loop that the main program
  puts together, the transport is in a state its own transition system reaches, and the frontend is in one that
  its transition system reaches with exactly those callers gone whose connections have left the table. What
  is proved of either half alone therefore holds of the running agent.
\<close>
theorem agent_refines_its_parts:
  assumes "reach agentInit (agentStep e) a"
  shows "reach transportInit (transportStep (le_wire (ae_loop e)) (ae_parse e)) (ag_transport a)
       \<and> reach frontInit (frontStep (ae_lib e) (ae_verdicts e))
           (ag_world a, {callerOf k | k. k < t_nextConnId (ag_transport a) \<and> sm_find (t_connections (ag_transport a)) k = None})"
  using agent_transport.reach_view [OF assms] agent_front.reach_view [OF assms] by (simp add: goneCallers_def isLive_def)

theorem agent_refines_its_parts_witness:
  "reach transportInit (transportStep demoEnv (ae_parse demoParts)) (ag_transport demoReady)
   \<and> reach frontInit (frontStep demoAgent (\<lambda>_ _. True)) (demoWorld, {callerOf 0})"
proof -
  have "{callerOf k | k. k < t_nextConnId (ag_transport demoReady) \<and> sm_find (t_connections (ag_transport demoReady)) k = None}
      = {callerOf 0}"
    by (auto simp: demoReady_def demoTransport_def less_Suc_eq numeral_2_eq_2 split: if_splits)
  with agent_refines_its_parts [OF demo_ready [of demoParts]] show ?thesis by (simp add: demoReady_def demoParts_def demoLoop_def)
qed

end
