(* ===== verification/Loop_Postings.thy ===== *)
theory Loop_Postings
  imports Agent_Loop Op_Channel Card_Resolution
begin

text \<open>
  The rest of \<^verbatim>\<open>agent/src/backend/SocketFrontend.cpp\<close>: how the frontend is constructed, the confirmation provider it
  holds until \<^verbatim>\<open>main\<close> gives it one, the sinks it hands to an operation, and the calls it posts to the loop for
  others, with the callbacks \<^verbatim>\<open>main\<close> makes of them. A posted call is dropped once the loop is quiesced.
\<close>

section \<open>Construction and the confirmation provider\<close>

type_synonym ConfirmFn = "ConfirmAction \<Rightarrow> ConfirmReply"

record frontend =
  fr_confirm :: ConfirmFn

definition noConfirmation :: ConfirmFn where
  "noConfirmation action =
     \<lparr>cr_status = StError, cr_userMessage = ''no confirmation mechanism'', cr_protocolVersion = None\<rparr>"

text \<open>What is stale in the stored anchor report is the agent library's to know; it is discarded before anything is served.\<close>

definition socketFrontend ::
    "('core \<Rightarrow> 'core) \<Rightarrow> presence \<Rightarrow> 'core \<Rightarrow> frontend \<times> ('core, 'box) world" where
  "socketFrontend discardStaleAnchorReport p core =
     (\<lparr>fr_confirm = noConfirmation\<rparr>,
      \<lparr>w_opOwners = [], w_signResults = [], w_confirmsInFlight = [], w_alive = True, w_quiesced = False, w_asked = [],
       w_continuations = [], w_presence = p, w_core = discardStaleAnchorReport core, w_trace = []\<rparr>)"

definition setConfirmProvider :: "ConfirmFn \<Rightarrow> frontend \<Rightarrow> frontend" where
  "setConfirmProvider fn f = f\<lparr>fr_confirm := fn\<rparr>"

text \<open>The answers the worker can bring back: the status of the provider's reply.\<close>

definition providerVerdicts :: "frontend \<Rightarrow> ConfirmAction \<Rightarrow> PromptReplyStatus \<Rightarrow> bool" where
  "providerVerdicts f action status \<longleftrightarrow> cr_status (fr_confirm f action) = status"

section \<open>Sinks and postings\<close>

text \<open>The channel an accepted launch gets, for the connection that asked.\<close>

definition channelFor :: "nat \<Rightarrow> nat \<Rightarrow> channel" where
  "channelFor connId opId = \<lparr>ch_connId = connId, ch_opId = opId, ch_phase = None, ch_posted = [], ch_warnings = 0\<rparr>"

definition emitConfigChanged ::
    "('core, 'cred, 'box, 'oc, 'lo) agent_env \<Rightarrow> (event \<Rightarrow> cbor) \<Rightarrow> string \<Rightarrow> ('core, 'cred, 'box) agent \<Rightarrow> ('core, 'cred, 'box) agent" where
  "emitConfigChanged e toCbor key a =
     settle (runPosted (broadcastConfigChanged (ae_wire e) toCbor key) (ag_transport a)) a"

definition onCardRemovedForLease ::
    "(nat \<Rightarrow> 'core \<Rightarrow> 'core) \<Rightarrow> nat \<Rightarrow> ('core, 'cred, 'box) agent \<Rightarrow> ('core, 'cred, 'box) agent" where
  "onCardRemovedForLease onCardRemoved cardKey a =
     (if t_loopQuiesced (ag_transport a) then a
      else a\<lparr>ag_world := (ag_world a)\<lparr>w_core := onCardRemoved cardKey (w_core (ag_world a))\<rparr>\<rparr>)"

definition cardTypeSink ::
    "('core, 'cred, 'box, 'oc, 'lo) agent_env \<Rightarrow> (event \<Rightarrow> cbor) \<Rightarrow> string \<Rightarrow> string
       \<Rightarrow> ('core, 'cred, 'box) agent \<Rightarrow> ('core, 'cred, 'box) agent" where
  "cardTypeSink e toCbor cardHandle cardType a =
     (if t_loopQuiesced (ag_transport a) then a
      else case updateCardType cardHandle cardType (w_presence (ag_world a)) of
        (p, evs) \<Rightarrow>
          settle (announce (ae_wire e) toCbor evs Presence (ag_transport a))
            (a\<lparr>ag_world := (ag_world a)\<lparr>w_presence := p\<rparr>\<rparr>))"

section \<open>The callbacks of the composition\<close>

text \<open>
  What \<^verbatim>\<open>main\<close> gives the core to call: the five observers of its object registry and the notice of a removed
  card. Each looks whether the frontend is still there; the removal notice forgets the card's caches and
  posts the revocation of its leases before the reader is let go.
\<close>

datatype registry_call =
    ReaderPublished AgentReaderState
  | CardPublished AgentCardState
  | ObjectWithdrawn nat
  | PropertiesChanged nat PropertyDelta
  | ReaderRelabelled AgentReaderState

fun observer ::
    "'att policy \<Rightarrow> (nat \<Rightarrow> string) \<Rightarrow> bool \<Rightarrow> bool \<Rightarrow> registry_call \<Rightarrow> 'att resolver \<Rightarrow> 'att resolver" where
  "observer pol tok queued here (ReaderPublished r) s = (if here then onReaderPublished r s else s)"
| "observer pol tok queued here (CardPublished c) s = (if here then onCardPublished pol queued c s else s)"
| "observer pol tok queued here (ObjectWithdrawn object) s = (if here then onWithdrawn object s else s)"
| "observer pol tok queued here (PropertiesChanged rid delta) s = (if here then onReaderPropertiesChanged rid delta s else s)"
| "observer pol tok queued here (ReaderRelabelled r) s = (if here then onReaderRelabelled tok r s else s)"

record ('core, 'rid) removal_lib =
  rl_invalidateCardRemovalCaches :: "string \<Rightarrow> 'core \<Rightarrow> 'core"
  rl_readerIdFor :: "string \<Rightarrow> 'core \<Rightarrow> 'rid"
  rl_releaseReaderOnCardRemoved :: "'rid \<Rightarrow> 'core \<Rightarrow> 'core"

definition onKeyRemoved ::
    "('core, 'rid) removal_lib \<Rightarrow> bool \<Rightarrow> nat \<Rightarrow> string \<Rightarrow> 'core \<Rightarrow> 'core \<times> nat list" where
  "onKeyRemoved lib here cardKey readerName core =
     (let key = showNat cardKey;
          core1 = rl_invalidateCardRemovalCaches lib key core;
          posted = (if here then [cardKey] else [])
      in (rl_releaseReaderOnCardRemoved lib (rl_readerIdFor lib readerName core1) core1, posted))"

definition onConfigChanged ::
    "('core, 'cred, 'box, 'oc, 'lo) agent_env \<Rightarrow> (event \<Rightarrow> cbor) \<Rightarrow> bool \<Rightarrow> string
       \<Rightarrow> ('core, 'cred, 'box) agent \<Rightarrow> ('core, 'cred, 'box) agent" where
  "onConfigChanged e toCbor here key a = (if here then emitConfigChanged e toCbor key a else a)"

text \<open>The registry's calls are steps of the card resolution, and none once the frontend is gone.\<close>

lemma observer_steps:
  assumes "\<And>r h. call = ReaderPublished r \<Longrightarrow> sm_find (p_idToHandle (rs_presence s)) (ar_id r) = Some h
      \<Longrightarrow> sm_find (p_cards (rs_presence s)) h = None"
  shows "(resolveStep pol tok)\<^sup>*\<^sup>* s (observer pol tok queued here call s)"
    and "observer pol tok queued False call s = s"
  using assms by (cases call; auto intro: resolveStep.intros)+

text \<open>
  What a removal leaves to another card: caches that forget only what is kept under the given key, and a
  release that touches none of them, still hold what any other card of the process had.
\<close>

lemma removal_spares_others:
  assumes "\<And>key k c. k \<noteq> key \<Longrightarrow> cached k (rl_invalidateCardRemovalCaches lib key c) = cached k c"
    and "\<And>rid k c. cached k (rl_releaseReaderOnCardRemoved lib rid c) = cached k c" and "other \<noteq> cardKey"
  shows "cached (showNat other) (fst (onKeyRemoved lib here cardKey readerName core)) = cached (showNat other) core"
  using assms by (simp add: onKeyRemoved_def Let_def)

section \<open>They are steps of the loop\<close>

text \<open>An announcement is a list of broadcasts; settling after each of them is settling after the last.\<close>

lemma settle_settle:
  assumes "evolves (ag_transport a) t1" and "evolves t1 t2"
  shows "settle t2 (settle t1 a) = settle t2 a"
proof -
  obtain d1 d2 where "t_notified t1 = t_notified (ag_transport a) @ d1" "t_notified t2 = t_notified t1 @ d2"
    using evolves_notified [OF assms(1)] evolves_notified [OF assms(2)] by blast
  then show ?thesis by (simp add: settle_def)
qed

lemma settle_announce:
  assumes "transportOk (ag_transport a)" and "\<not> t_loopQuiesced (ag_transport a)"
  shows "(agentStep e)\<^sup>*\<^sup>* a (settle (announce (ae_wire e) toCbor evs kind (ag_transport a)) a)"
  using assms
proof (induction evs arbitrary: a)
  case Nil
  then show ?case by (simp add: announce_def settle_def)
next
  case (Cons ev evs)
  let ?t = "broadcast (ae_wire e) (toCbor ev) kind (ag_transport a)"
  have step: "agentStep e a (settle ?t a)" using as_post [OF Cons.prems(2), of e "DoBroadcast (toCbor ev) kind"] by simp
  have ev: "evolves (ag_transport a) ?t" "transportOk ?t"
    using Cons.prems(1) evolves_command [of _ "ae_wire e" "DoBroadcast (toCbor ev) kind"]
      runCommand_ok [of _ "ae_wire e" "DoBroadcast (toCbor ev) kind"] by simp_all
  have runs: "(\<lambda>ev. runCommand (ae_wire e) (DoBroadcast (toCbor ev) kind)) = (\<lambda>ev. broadcast (ae_wire e) (toCbor ev) kind)"
    by (simp add: fun_eq_iff)
  have rest: "evolves ?t (announce (ae_wire e) toCbor evs kind ?t)"
    using evolves_commands [OF ev(2), of "ae_wire e" "map (\<lambda>ev. DoBroadcast (toCbor ev) kind) evs"]
    by (simp add: announce_def fold_map comp_def runs)
  have "(agentStep e)\<^sup>*\<^sup>* (settle ?t a) (settle (announce (ae_wire e) toCbor evs kind ?t) (settle ?t a))"
    using Cons.IH [of "settle ?t a"] ev Cons.prems(2) evolves_flags [OF ev(1)] by simp
  then have "(agentStep e)\<^sup>*\<^sup>* (settle ?t a) (settle (announce (ae_wire e) toCbor evs kind ?t) a)"
    by (simp add: settle_settle [OF ev(1) rest])
  with step show ?case by (simp add: announce_def converse_rtranclp_into_rtranclp)
qed

lemma postings_are_steps:
  assumes "agentOk a"
  shows "(agentStep e)\<^sup>*\<^sup>* a (emitConfigChanged e toCbor key a)"
    and "(agentStep e)\<^sup>*\<^sup>* a (onCardRemovedForLease onCardRemoved cardKey a)"
    and "frontendHandler \<in> set (t_disconnectHandlers (ag_transport a)) \<Longrightarrow> (agentStep e)\<^sup>*\<^sup>* a (cardTypeSink e toCbor handle ty a)"
proof -
  note ok = agentOk_transport [OF assms]
  have none: "settle (ag_transport a) a = a" for a by (simp add: settle_def)
  show "(agentStep e)\<^sup>*\<^sup>* a (emitConfigChanged e toCbor key a)"
    using settle_announce [OF ok, of e toCbor "[ConfigChanged key]" AgentWide]
    by (simp add: emitConfigChanged_def runPosted_def broadcastConfigChanged_def none)
  show "(agentStep e)\<^sup>*\<^sup>* a (onCardRemovedForLease onCardRemoved cardKey a)"
    by (auto simp: onCardRemovedForLease_def intro: as_core)
  show "(agentStep e)\<^sup>*\<^sup>* a (cardTypeSink e toCbor handle ty a)"
    if "frontendHandler \<in> set (t_disconnectHandlers (ag_transport a))"
  proof -
    obtain p evs where up: "updateCardType handle ty (w_presence (ag_world a)) = (p, evs)" by fastforce
    let ?a = "a\<lparr>ag_world := (ag_world a)\<lparr>w_presence := p\<rparr>\<rparr>"
    have "agentStep e a ?a" using that by (rule as_presence)
    moreover have "(agentStep e)\<^sup>*\<^sup>* ?a (settle (announce (ae_wire e) toCbor evs Presence (ag_transport ?a)) ?a)"
      if "\<not> t_loopQuiesced (ag_transport a)" using settle_announce [of ?a] ok that by simp
    ultimately show ?thesis by (auto simp: cardTypeSink_def up intro: converse_rtranclp_into_rtranclp)
  qed
qed

text \<open>The constructed frontend starts the frontend's transition system.\<close>

lemma constructed_init: "frontInit (snd (socketFrontend discard p core), {})"
  by (simp add: socketFrontend_def frontInit_def)

section \<open>Properties\<close>

text \<open>
  C29: a frontend nobody gave a confirmation provider changes no trust. While its provider is the one it was
  constructed with, no run of it, from its constructed state on, ever writes or resets a trust-tier key
  or imports an anchor, whatever clients ask.
\<close>
theorem unwired_frontend_changes_no_trust:
  assumes "reach frontInit (frontStep lib (providerVerdicts (fst (socketFrontend discard p core :: frontend \<times> ('core, 'box) world)))) (w, gone)"
    and "e \<in> set (w_trace w)"
  shows "\<not> trustChange lib e"
proof
  assume "trustChange lib e"
  moreover obtain pre post where "w_trace w = pre @ e # post" using assms(2) by (auto simp: in_set_conv_decomp)
  ultimately have "approvedBefore (providerVerdicts (fst (socketFrontend discard p core :: frontend \<times> ('core, 'box) world))) pre e"
    by (intro reach_approvedBefore [OF assms(1)])
  then show False
    by (auto simp: approvedBefore_def providerVerdicts_def socketFrontend_def noConfirmation_def)
qed

text \<open>The trust write of the example, answered by a frontend without a provider.\<close>

definition demoRefused :: "(nat, nat) world" where
  "demoRefused = confirmContinuation demoAgent (confirmWorker 0 StError (dispatch demoAgent demoTrustWrite demoWorld))"

lemma demo_refused:
  "\<exists>q x. w_trace demoRefused
     = [Authorized ''configure.trust'' ''conn:1'', Charged ''conn:1'', Asked q, Answered q StError, x]"
  using demo_asked
  by (auto simp: demoRefused_def confirmWorker_def confirmContinuation_def Let_def emit_def replyError_def sendReply_def)

theorem unwired_frontend_changes_no_trust_witness:
  "\<exists>q x. w_trace demoRefused
       = [Authorized ''configure.trust'' ''conn:1'', Charged ''conn:1'', Asked q, Answered q StError, x]
     \<and> \<not> trustChange demoAgent x"
proof -
  from demo_refused obtain q x where tr: "w_trace demoRefused
      = [Authorized ''configure.trust'' ''conn:1'', Charged ''conn:1'', Asked q, Answered q StError, x]" by blast
  have "reach frontInit
      (frontStep demoAgent (providerVerdicts (fst (socketFrontend id presenceInit (0 :: nat) :: frontend \<times> (nat, nat) world))))
      (demoRefused, {})"
    unfolding demoRefused_def
    by (rule demo_answered_reach) (simp add: providerVerdicts_def socketFrontend_def noConfirmation_def)
  then have "\<not> trustChange demoAgent x" by (rule unwired_frontend_changes_no_trust) (simp add: tr)
  with tr show ?thesis by blast
qed

end
