(* ===== verification/Spec2Isabelle.thy ===== *)
theory Spec2Isabelle
  imports Op_Channel Card_Resolution Lifecycle Socket_Mode Startup Log_Sink Peer_Identity Helper_Progress Agent_Clients Loop_Postings
begin

text \<open>
  A verification library for LibreDarwin, the macOS host of the LibreSCRS card agent.

  \<^bold>\<open>The program.\<close> Two processes. The agent (\<^verbatim>\<open>agent/\<close>) listens on a Unix socket in the application group
  container; clients (the app, its token extension, the PKCS#11 module) send framed CBOR requests, and the
  agent answers them, starts card operations and pushes events. The prompter (\<^verbatim>\<open>prompter/\<close>) is a second
  process with a socket of its own: the agent asks it to collect a PIN, a pair of PINs or a confirmation
  from the person at the machine. A request goes \<^verbatim>\<open>SocketTransport\<close> (connection, frame) to
  \<^verbatim>\<open>SocketFrontend::dispatch\<close> (handler, authorisation, rate limit) to the agent library (operation) to
  \<^verbatim>\<open>SocketOperationChannel\<close> (events, artifacts) and back through the transport; a secret or a trust change
  goes \<^verbatim>\<open>MacPrompterClient\<close> to \<^verbatim>\<open>PrompterServer\<close> to \<^verbatim>\<open>PromptWindow\<close> or \<^verbatim>\<open>confirmWithDeviceOwner\<close> and back.

  \<^bold>\<open>Theories\<close>, in the order of that path.
  \<^item> \<open>Prelude\<close>: expected values, ordered association lists for \<^verbatim>\<open>std::map\<close>, decimal printing, zeroed buffers,
    the map contracts \<open>keyed_store\<close> and \<open>inverse_stores\<close>, reachability, the locale \<open>invariant_system\<close> that
    every transition system below interprets, and \<open>simulation\<close>, which a composed system interprets for each of
    its parts and which carries the part's invariants over to it.
  \<^item> \<open>Cbor_Value\<close>: the value tree and the reads of its fields.
  \<^item> \<open>Connections\<close>, \<open>Presence\<close>, \<open>Listener\<close>, \<open>Socket_Mode\<close> (\<^verbatim>\<open>SocketTransport.cpp\<close>, \<^verbatim>\<open>SocketTransport.h\<close>,
    \<^verbatim>\<open>SocketPathIdentity.h\<close>): connections, frames in and out, send queues and their bounds; the reader and card
    registry with its events; the listening socket, its path guard and rebinding;
    the permission bits of the socket file at every instant of a bind.
  \<^item> \<open>Transport_Steps\<close>: what the transport's operations have in common, as the relation \<open>evolves\<close> (connections
    only leave, and every handler is told once), and the contract \<open>byte_stream\<close> of what a peer gets to read.
  \<^item> \<open>Instance_Lock\<close> (\<^verbatim>\<open>SingleInstanceLock.cpp\<close>): two processes over a directory that others change.
  \<^item> \<open>Authorizer\<close> (\<^verbatim>\<open>SecCodeAuthorizer.cpp\<close>, its binding in \<^verbatim>\<open>main.cpp\<close>): who may do what.
  \<^item> \<open>Sign_Options\<close>, \<open>Frontend_World\<close>, \<open>Frontend\<close>, \<open>Trust_Gate\<close>, \<open>Broker_Replies\<close>, \<open>Card_Resolution\<close>
    (\<^verbatim>\<open>SocketFrontend.cpp\<close>, \<^verbatim>\<open>SocketFrontend.h\<close>): the options of a signature; the world a handler changes and
    the trace of the calls it makes; every handler and \<^verbatim>\<open>dispatch\<close>; the question to a person and what follows the
    answer; the continuations of the PKCS#11 calls; the insertion probe of a card.
  \<^item> \<open>Agent_Loop\<close>, \<open>Agent_Clients\<close>, \<open>Loop_Postings\<close> (\<^verbatim>\<open>main.cpp\<close>, the rest of \<^verbatim>\<open>SocketFrontend.cpp\<close>): the
    transport and the frontend as the one loop \<^verbatim>\<open>main\<close> makes of them, a step for everything its queue runs;
    what that gives a client; the frontend's construction, the sinks and calls it posts, and the callbacks
    \<^verbatim>\<open>main\<close> installs in the core. The locales \<open>handler_steps\<close> and \<open>handler_relation\<close> hold the relations every
    handler keeps between the worlds before and after it.
  \<^item> \<open>Anon_Fd\<close>, \<open>Op_Channel\<close> (\<^verbatim>\<open>wire/AnonFd.cpp\<close>, \<^verbatim>\<open>SocketOperationChannel.cpp\<close>): events and results of an
    operation, and the unlinked files its artifacts travel in.
  \<^item> \<open>Lifecycle\<close> (\<^verbatim>\<open>SystemLifecycle.mm\<close>, \<^verbatim>\<open>SystemLifecycle.h\<close>, \<^verbatim>\<open>AgentCoreSeams.h\<close>): sleep, wake and session changes.
  \<^item> \<open>Prompter_Protocol\<close>, \<open>Display_Names\<close> (\<^verbatim>\<open>wire/PrompterProtocol.cpp\<close>): the messages between the two
    processes, each an instance of the locale \<open>message_codec\<close>, the secret hygiene of their codecs, and the neutralising of untrusted document names.
  \<^item> \<open>Prompter_Client\<close> (\<^verbatim>\<open>MacPrompterClient.cpp\<close>), \<open>Prompter_Server\<close> (\<^verbatim>\<open>prompter/PrompterServer.cpp\<close>),
    \<open>Prompt_Text\<close>, \<open>Prompt_Window\<close> (\<^verbatim>\<open>prompter/PromptWindow.mm\<close>, \<^verbatim>\<open>prompter/ConfirmAuthorizer.mm\<close>): the three
    stations of a prompt, and the words it shows.
  \<^item> \<open>Helper_Process\<close> (\<^verbatim>\<open>prompter/PrompterMain.mm\<close>): the server with the window behind it as one process, with any
    number of panels standing at once; \<open>Helper_Progress\<close>: the way out every request has there. \<open>Peer_Identity\<close> (\<^verbatim>\<open>PeerPolicy.cpp\<close>, \<^verbatim>\<open>PeerPolicy.h\<close>,
    \<^verbatim>\<open>pkcs11-module/src/SocketAgentClientFactory.cpp\<close>): whom each process takes for the other.
  \<^item> \<open>Plugin_Directory\<close>, \<open>Startup\<close> (\<^verbatim>\<open>PluginDirectory.cpp\<close>, \<^verbatim>\<open>main.cpp\<close>, \<^verbatim>\<open>ProcessHardening.cpp\<close>,
    \<^verbatim>\<open>AppGroupPaths.cpp\<close>, \<^verbatim>\<open>prompter/PrompterComposition.cpp\<close>): where plugins come from, the two start-ups, exit
    codes and the shutdown. \<open>Log_Sink\<close> (\<^verbatim>\<open>OsLogSink.cpp\<close>): the levels of a log line.

  \<^bold>\<open>State and calls.\<close> A class is a record with a field per member; a method is a function from the record to
  the record, with its early returns as branches. Calls whose order matters (replies, authorisations, charges,
  launches, questions) are entries of a trace, in the order of the code. What runs on another thread or queue is
  an entry of a list (posted closures, waiting questions, tasks of the prompter) that a step relation takes up
  in any order the queues allow. A raised exception or a failed call is a value.

  \<^bold>\<open>Parameters.\<close> Code that is not in this repository is an argument: the agent library (operations, broker,
  configuration store, wire vocabulary, encoders), the platform's answers (peer credentials, code signing,
  local authentication, notifications) and the kernel (results of \<^verbatim>\<open>write\<close>, \<^verbatim>\<open>poll\<close>, \<^verbatim>\<open>bind\<close>, \<^verbatim>\<open>stat\<close>, as
  scripts or functions of the attempt). Laws about them are named hypotheses: \<open>vocab_ok\<close> (tokens are read
  back), \<open>statusReading\<close> (the reading of a reply status), \<open>peerIsHelper\<close> and \<open>peerIsPromptHelper\<close> (the
  peer that passes the check is the helper), each with a witness that has an instance.

  \<^bold>\<open>What the theorems show.\<close>
  \<^item> Composition: the agent's loop refines its transport and its frontend, so that what is shown of either
    holds of the running agent; a read is answered on its own connection and under its own peer's authority;
    an operation's owner is connected or about to be cleaned up (\<open>Agent_Clients\<close>). The helper's process refines
    its window, and what it sends is what was typed for the one who asked (\<open>Helper_Process\<close>); each waiting
    request can be answered whatever else waits, and a panel's clock runs while it stands (\<open>Helper_Progress\<close>).
    Both processes together: a secret the agent uses was typed for it (this theory).
  \<^item> Trust: a trust change needs the device owner's authentication to a question that names it, in every run of
    the agent with its prompter (this theory) and in every interleaving of the frontend's loop (\<open>Trust_Gate\<close>), where a client has
    at most one question waiting and every answer settles in one reply; a frontend nobody gave a provider
    changes none (\<open>Loop_Postings\<close>).
  \<^item> Access: the decision of the authoriser and whose peer it judges, the gate in front of every card
    operation, the ownership of operations and results, the prompter that serves only the agent and the client
    that talks only to the prompter.
  \<^item> Delivery: one answer per request, on its connection and in order; a sent message is appended whole to its stream, its descriptors leave
    once; results with their artifacts arrive whole, can be fetched again by their owner only; broker answers
    reach the asker.
  \<^item> Secrets: where a prompt's secret comes from, what a window may answer, and that clients, decoders and
    posted replies leave no copy behind.
  \<^item> Bounds and termination: queues, connections, the start-up reset and the write loop of an artifact.
  \<^item> Messages: round trips of the prompter protocol, refusal of newer requests, the narrowing of a deadline,
    document names that stay in their rows of the panel's text, the vocabulary of signature options.
  \<^item> Life cycle: mutual exclusion of agents, the listener's descriptor discipline, presence and card
    resolution against their specification, sleep before its acknowledgement, causes of each exit code, one
    shutdown.

  \<^bold>\<open>Loops.\<close> Loops over a queue or list are structural. \<^verbatim>\<open>waitReadable\<close> and \<^verbatim>\<open>writeAll\<close> may be interrupted for
  ever; they are partial functions into \<open>option\<close>, and the theorems that they return name what ends them: a clock
  that passes the deadline, and a kernel that does not interrupt for ever. No fuel is used.

  \<^bold>\<open>Not modelled.\<close> The AppKit layout of a panel (views, fonts, focus, window levels); the option setting of
  fresh sockets (close-on-exec, non-blocking, no SIGPIPE); the hooks that only tests use. What the core does with a
  card is the agent library's: in the composed loop its state and the cards it announces change in any way.
  Allocation failure is modelled where the code handles it (encoding
  and posting in the operation channel, secret replies and scrubbed sends), not elsewhere. Time is the
  order of steps, except where a deadline is computed from a clock.
\<close>

text \<open>The handler that the composed loop takes for the frontend's is the one \<^verbatim>\<open>main\<close> registers for it.\<close>

lemma frontend_handler_registered: "disconnectHandlers ! frontendHandler = ''evict from frontend''"
  by (simp add: disconnectHandlers_def frontendHandler_def)

section \<open>The agent and its prompter together\<close>

text \<open>
  One exchange over a confirmation: the action the agent asks about, the socket as the client finds it,
  the helper's server with the connection the agent was accepted on, the frame that reached it, and the
  device owner in front of the helper's sheet.
\<close>

record exchange =
  ex_action :: ConfirmAction
  ex_client :: client_env
  ex_server :: pserver
  ex_connId :: nat
  ex_body :: bytes
  ex_providers :: providers
  ex_unavailable :: "string option option"
  ex_evaluate :: "string \<Rightarrow> la_answer"
  ex_catalogue :: catalogue

text \<open>The message an outcome of the helper's worker puts on the connection.\<close>

fun outcomeMessage :: "prompter_vocab \<Rightarrow> outcome \<Rightarrow> cbor" where
  "outcomeMessage voc (SentSecret fd r) = toCborPromptReply voc r"
| "outcomeMessage voc (SentSecrets fd r) = toCborMultiPromptReply voc r"
| "outcomeMessage voc (SentConfirm fd r) = toCborConfirmReply voc r"
| "outcomeMessage voc (SentResetDone fd r) = toCborResetDone r"

text \<open>What the helper sends for the one frame it reads: the tasks the frame adds, run by its providers.\<close>

definition helperMessages :: "prompter_vocab \<Rightarrow> codec \<Rightarrow> exchange \<Rightarrow> cbor list" where
  "helperMessages voc cd x =
     map (outcomeMessage voc \<circ> runTask (ex_providers x))
       (drop (length (ps_tasks (ex_server x)))
          (ps_tasks (psOnReadReady voc cd (ex_connId x) [ex_body x] True (ex_server x))))"

text \<open>
  The peer that passes the agent's code-signing check is this helper: it read what the agent sent, asks
  through \<^verbatim>\<open>confirmWithDeviceOwner\<close>, and the frame the agent receives is one it sent.
\<close>

definition peerIsHelper :: "prompter_vocab \<Rightarrow> codec \<Rightarrow> exchange \<Rightarrow> bool" where
  "peerIsHelper voc cd x \<longleftrightarrow>
     ce_verified (ex_client x) \<longrightarrow>
       decode cd (ex_body x) = Some (toCborConfirmAction (ex_action x))
       \<and> pv_confirm (ex_providers x)
           = confirmWithDeviceOwner (ex_unavailable x) (ex_evaluate x) (ex_catalogue x)
       \<and> (case ce_recvFrame (ex_client x) of Inl e \<Rightarrow> True
          | Inr frame \<Rightarrow> \<exists>v \<in> set (helperMessages voc cd x). decode cd frame = Some v)"

definition clientVerdicts ::
    "prompter_vocab \<Rightarrow> codec \<Rightarrow> exchange set \<Rightarrow> ConfirmAction \<Rightarrow> PromptReplyStatus \<Rightarrow> bool" where
  "clientVerdicts voc cd xs act status \<longleftrightarrow>
     (\<exists>x \<in> xs. ex_action x = act \<and> cr_status (fst (requestConfirmation voc cd (ex_client x) act)) = status)"

text \<open>A confirmation frame adds at most one task, and its message is a verdict about that very action.\<close>

lemma helperMessages_confirm:
  assumes "decode cd (ex_body x) = Some (toCborConfirmAction (ex_action x))"
    and "v \<in> set (helperMessages voc cd x)"
  shows "(ca_kind (ex_action x) = kConfigureTrust
            \<and> v = toCborConfirmReply voc (pv_confirm (ex_providers x) (ex_action x)))
       \<or> (\<exists>r. v = toCborConfirmReply voc r \<and> cr_status r = StError)"
  using assms roundtrip_confirm [OF assms(1), of voc]
  by (auto simp: helperMessages_def psOnReadReady_def psCloseConnection_def addTask_def Let_def
      split: option.splits if_splits)

lemma approval_needs_owner:
  assumes "cr_status (fst (requestConfirmation voc cd (ex_client x) (ex_action x))) = StOk"
    and "vocab_ok voc" and "peerIsHelper voc cd x"
  shows "ex_unavailable x = None
       \<and> ex_evaluate x (confirmReason (ex_catalogue x) (ex_action x)) = LaSuccess"
proof -
  obtain frame where verified: "ce_verified (ex_client x)" and frame: "ce_recvFrame (ex_client x) = Inr frame"
    and parsed: "fst (parseConfirmReply voc cd frame)
                   = Inr (fst (requestConfirmation voc cd (ex_client x) (ex_action x)))"
    using approval_only_from_prompter [OF assms(1)] by blast
  obtain v where v: "v \<in> set (helperMessages voc cd x)" "decode cd frame = Some v"
    and body: "decode cd (ex_body x) = Some (toCborConfirmAction (ex_action x))"
    and asks: "pv_confirm (ex_providers x)
                 = confirmWithDeviceOwner (ex_unavailable x) (ex_evaluate x) (ex_catalogue x)"
    using assms(3) verified frame by (auto simp: peerIsHelper_def)
  have reply: "cr_status r = StOk" if "v = toCborConfirmReply voc r" for r
    using roundtrip_confirmReply [of cd frame voc r] v(2) that assms(1,2) parsed by simp
  with helperMessages_confirm [OF body v(1)]
  have "cr_status (pv_confirm (ex_providers x) (ex_action x)) = StOk" by auto
  then show ?thesis unfolding asks approval_is_authentication .
qed

lemma secret_only_from_secret:
  assumes "fst (parsePromptReply voc cd frame) = Inr reply" and "re_status reply = StOk"
    and "decode cd frame = Some (outcomeMessage voc out)" and "vocab_ok voc"
  shows "\<exists>fd r. out = SentSecret fd r \<and> re_status r = StOk \<and> re_secret r = re_secret reply"
proof (cases out)
  case (SentSecret fd r)
  with assms show ?thesis
    by (auto simp: parsePromptReply_def promptReplyOf_def reply_parse toCborPromptReply_def Let_def vocab_status
        split: if_splits)
next
  case (SentSecrets fd r)
  with assms show ?thesis
    by (auto simp: parsePromptReply_def promptReplyOf_def reply_parse toCborMultiPromptReply_def Let_def vocab_status
        split: if_splits)
next
  case (SentConfirm fd r)
  with assms show ?thesis
    by (auto simp: parsePromptReply_def promptReplyOf_def reply_parse toCborConfirmReply_def Let_def vocab_status
        split: if_splits)
next
  case (SentResetDone fd r)
  with assms show ?thesis
    by (auto simp: parsePromptReply_def promptReplyOf_def reply_parse toCborResetDone_def Let_def textAt_def
        split: if_splits)
qed

text \<open>
  A prompt and its helper: the socket as the client finds it, and the helper's process as it stood when it
  sent the frame that reached the agent.
\<close>

definition peerIsPromptHelper ::
    "prompter_vocab \<Rightarrow> codec \<Rightarrow> ('cred \<Rightarrow> bool) \<Rightarrow> string \<Rightarrow> catalogue \<Rightarrow> client_env \<Rightarrow> helper \<Rightarrow> bool" where
  "peerIsPromptHelper voc cd peerAuth changeKind ct env h \<longleftrightarrow>
     ce_verified env \<longrightarrow>
       reach helperInit (helperStep voc cd peerAuth changeKind ct) h
       \<and> (case ce_recvFrame env of Inl e \<Rightarrow> True
          | Inr frame \<Rightarrow> \<exists>out \<in> set (he_outcomes h). decode cd frame = Some (outcomeMessage voc out))"

lemma request_ok:
  assumes "statusReading lib" and "res_status (fst (request voc cd lib budget env kind opts)) = PsOk"
  obtains frame reply where "ce_verified env" "ce_recvFrame env = Inr frame"
    "fst (parsePromptReply voc cd frame) = Inr reply" "re_status reply = StOk"
    "res_secret (fst (request voc cd lib budget env kind opts)) = re_secret reply"
proof -
  obtain frame where ans: "answered env budget (toCborPromptRequest voc (buildRequest lib kind opts)) frame"
    using request_unanswered [of env budget voc lib kind opts cd] assms(2) by auto
  obtain p res where parsed: "parsePromptReply voc cd frame = (p, res)" by fastforce
  note run = request_answered [OF ans, of cd]
  from assms(2) obtain reply where reply: "p = Inr reply"
    unfolding run by (cases p) (simp_all add: parsed Let_def errorResult_def)
  show ?thesis
    by (rule that [of frame reply])
      (use ans parsed reply run assms(2) promptOutcome_ok [OF assms(1), of reply] in \<open>auto simp: answered_def Let_def\<close>)
qed

section \<open>Properties\<close>

text \<open>
  C1: a trust change needs the owner of the machine: when every peer that passes the agent's
  code-signing check is the helper, each write or reset of a trust-tier key and each import of anchors,
  in any run of the agent, comes after a question that names exactly that change and to which
  the device owner authenticated at the helper, on the sentence that names it.
\<close>
theorem trust_change_authenticated:
  assumes "reach agentInit (agentStep e) a" and "ae_verdicts e = clientVerdicts voc cd xs"
    and "vocab_ok voc" and "\<forall>x \<in> xs. peerIsHelper voc cd x"
    and "w_trace (ag_world a) = pre @ fx # post" and "trustChange (ae_lib e) fx"
  shows "\<exists>q. Asked q \<in> set pre \<and> asksAbout q \<and> authorises q fx
       \<and> (\<exists>x \<in> xs. ex_action x = ak_action q \<and> ex_unavailable x = None
            \<and> ex_evaluate x (confirmReason (ex_catalogue x) (ak_action q)) = LaSuccess)"
proof -
  from reach_approvedBefore [OF agent_front.reach_view [OF assms(1)] assms(5,6)]
  obtain q where "Asked q \<in> set pre" "asksAbout q" "authorises q fx" and "clientVerdicts voc cd xs (ak_action q) StOk"
    unfolding assms(2) by (auto simp: approvedBefore_def)
  with assms(3,4) approval_needs_owner show ?thesis unfolding clientVerdicts_def by metis
qed

text \<open>The trust gate's example as a run of the whole agent, with an exchange behind its answer.\<close>

definition demoQuestion :: ConfirmAction where
  "demoQuestion = ak_action (w_asked (dispatch demoAgent demoTrustWrite demoWorld) ! 0)"

definition demoVerdict :: ConfirmReply where
  "demoVerdict = \<lparr>cr_status = StOk, cr_userMessage = [], cr_protocolVersion = None\<rparr>"

definition gateCodec :: codec where
  "gateCodec = \<lparr>decode = (\<lambda>b. if b = [1] then Some (toCborConfirmAction demoQuestion)
                          else Some (toCborConfirmReply demoVocab demoVerdict)), scrub = (\<lambda>_. COther 0)\<rparr>"

definition demoCatalogue :: catalogue where
  "demoCatalogue = \<lparr>ct_words = id, ct_utf8 = (\<lambda>_. True), ct_interface = (\<lambda>_. 0)\<rparr>"

definition demoExchange :: exchange where
  "demoExchange = \<lparr>ex_action = demoQuestion, ex_client = demoClient,
     ex_server = (wa_server demoServer)\<lparr>ps_connections := [(1, 9)]\<rparr>, ex_connId = 1, ex_body = [1],
     ex_providers = demoProviders\<lparr>pv_confirm := confirmWithDeviceOwner None (\<lambda>_. LaSuccess) demoCatalogue\<rparr>,
     ex_unavailable = None, ex_evaluate = (\<lambda>_. LaSuccess), ex_catalogue = demoCatalogue\<rparr>"

lemma demoQuestion_kind: "ca_kind demoQuestion = kConfigureTrust"
  by (simp add: demoQuestion_def dispatch_def demoTrustWrite_def handleSetConfig_def withMutableKey_def demoAgent_def
      configAction_def withAuthorization_def demoActions_def emit_def withRateLimit_def demoWorld_def
      confirmThenApply_def describeTrustChange_def kConfigureTrust_def Let_def)

lemma demo_received: "parsePrompterRequest demoVocab gateCodec [1] = Inr (ReqConfirm demoQuestion)"
  by (rule roundtrip_confirm) (simp add: gateCodec_def)

lemma demo_exchange_ok: "peerIsHelper demoVocab gateCodec demoExchange"
proof -
  have sent: "helperMessages demoVocab gateCodec demoExchange = [toCborConfirmReply demoVocab demoVerdict]"
    by (simp add: helperMessages_def demoExchange_def demoServer_def psOnReadReady_def demo_received demoQuestion_kind
        psCloseConnection_def addTask_def confirmWithDeviceOwner_def demoVerdict_def)
  show ?thesis unfolding peerIsHelper_def sent
    by (simp add: demoExchange_def demoClient_def gateCodec_def)
qed

lemma demo_approved:
  "cr_status (fst (requestConfirmation demoVocab gateCodec demoClient demoQuestion)) = StOk"
proof -
  have "decode gateCodec [1, 2, 3] = Some (toCborConfirmReply demoVocab demoVerdict)" by (simp add: gateCodec_def)
  from roundtrip_confirmReply [OF this demoVocab_ok]
  obtain res where "parseConfirmReply demoVocab gateCodec [1, 2, 3]
      = (Inr (demoVerdict\<lparr>cr_protocolVersion := Some kPrompterProtocolVersion\<rparr>), res)" by (metis prod.collapse)
  then show ?thesis
    by (simp add: requestConfirmation_def demoClient_def connectPrompter_def clientSunPathSize_def Let_def tooOld_def
        demoVerdict_def)
qed

definition trustParts :: "(nat, nat, nat, nat, nat) agent_env" where
  "trustParts = demoParts\<lparr>
     ae_parse := (\<lambda>b. if b = [1] then Some (5, SetConfig ''TsaUrls'' (CArray [CText ''https://tsa''])) else None),
     ae_verdicts := clientVerdicts demoVocab gateCodec {demoExchange}\<rparr>"

definition trustFrame :: "(nat \<times> nat request_body) inbound" where
  "trustFrame = \<lparr>inbound.in_caller = ''conn:1'', inbound.in_connId = 1,
     in_request = (5, SetConfig ''TsaUrls'' (CArray [CText ''https://tsa''])), inbound.in_fds = []\<rparr>"

lemma demo_trust_sunk:
  assumes "t_connections t = [(1, c)]" and "co_caller c = ''conn:1''" and "co_creds c = 501"
  shows "dispatch (libAt trustParts t) (toInbound trustFrame) demoWorld = dispatch demoAgent demoTrustWrite demoWorld"
  using assms
  by (simp add: dispatch_def toInbound_def trustFrame_def demoTrustWrite_def handleSetConfig_def withMutableKey_def demoWorld_def
      demoAgent_def libAt_def trustParts_def demoParts_def configAction_def withAuthorization_def demoActions_def withRateLimit_def
      emit_def Let_def authorizeCaller_def authorize_def isDefaultAction_def credentialsFor_def sitePolicy_def demoPeer_def
      verdict_def signingIdAllowed_def confirmThenApply_def describeTrustChange_def requesterLabel_def)

lemma demo_trust_read:
  "\<exists>t'. onReadReady (ae_parse trustParts) (agentSink trustParts) 1 \<lparr>pu_frames = [([1], [])], pu_ok = True\<rparr>
     (ag_world demoReady, ag_transport demoReady) = (dispatch demoAgent demoTrustWrite demoWorld, t')"
proof -
  let ?c = "demoConn\<lparr>co_sawFirstFrame := True, co_firstFrameTimer := False\<rparr>"
  let ?t = "setConn 1 ?c (ag_transport demoReady)"
  have "t_connections ?t = [(1, ?c)]" by (simp add: setConn_def demoReady_def demoTransport_def)
  then have "dispatch (libAt trustParts ?t) (toInbound trustFrame) demoWorld = dispatch demoAgent demoTrustWrite demoWorld"
    by (rule demo_trust_sunk) (simp_all add: demoConn_def)
  moreover have "ae_parse trustParts [1] = Some (5, SetConfig ''TsaUrls'' (CArray [CText ''https://tsa'']))"
    by (simp add: trustParts_def)
  moreover have "sm_find (t_connections (ag_transport demoReady)) 1 = Some demoConn" "t_sink ?t" "co_caller demoConn = ''conn:1''"
    by (simp_all add: demoReady_def demoTransport_def demoStart_def demoConn_def)
  moreover have "sm_find (t_connections ?t) 1 = Some ?c" by simp
  ultimately show ?thesis
    by (simp add: onReadReady_def demoReady_def demoConn_def agentSink_def Let_def trustFrame_def)
qed

lemma demo_trust_run:
  "\<exists>a. reach agentInit (agentStep trustParts) a \<and> ag_world a = demoTrusted"
proof -
  let ?d = "dispatch demoAgent demoTrustWrite demoWorld"
  obtain t' where "onReadReady (ae_parse trustParts) (agentSink trustParts) 1 \<lparr>pu_frames = [([1], [])], pu_ok = True\<rparr>
     (ag_world demoReady, ag_transport demoReady) = (?d, t')" using demo_trust_read by blast
  then have "agentStep trustParts demoReady (settle t' (demoReady\<lparr>ag_world := ?d\<rparr>))"
    by (rule as_read [where c = demoConn, rotated 2]) (simp_all add: demoReady_def demoTransport_def, simp add: demoConn_def)
  with demo_ready have "reach agentInit (agentStep trustParts) (settle t' (demoReady\<lparr>ag_world := ?d\<rparr>))" by (rule reach_step)
  moreover define a where "a = settle t' (demoReady\<lparr>ag_world := ?d\<rparr>)"
  ultimately have a: "reach agentInit (agentStep trustParts) a" "ag_world a = ?d" by simp_all
  have "clientVerdicts demoVocab gateCodec {demoExchange} demoQuestion StOk"
    using demo_approved by (simp add: clientVerdicts_def demoExchange_def)
  then have "agentStep trustParts a (a\<lparr>ag_world := confirmWorker 0 StOk (ag_world a)\<rparr>)"
    by (intro as_answer) (use demo_asked a(2) in \<open>auto simp: trustParts_def demoQuestion_def\<close>)
  with a(1) have answered: "reach agentInit (agentStep trustParts) (a\<lparr>ag_world := confirmWorker 0 StOk ?d\<rparr>)"
    unfolding a(2) by (rule reach_step)
  have "ae_lib trustParts = demoAgent" by (simp add: trustParts_def demoParts_def)
  then obtain t2 where "agentStep trustParts (a\<lparr>ag_world := confirmWorker 0 StOk ?d\<rparr>)
      (settle t2 (a\<lparr>ag_world := demoTrusted\<rparr>))"
    using as_continue [of demoTrusted trustParts "a\<lparr>ag_world := confirmWorker 0 StOk ?d\<rparr>"] by (auto simp: demoTrusted_def)
  with answered have "reach agentInit (agentStep trustParts) (settle t2 (a\<lparr>ag_world := demoTrusted\<rparr>))" by (rule reach_step)
  then show ?thesis by (intro exI conjI, assumption) simp
qed

theorem trust_change_authenticated_witness:
  "\<exists>q. Asked q \<in> set (w_trace demoTrusted) \<and> asksAbout q
     \<and> authorises q (ConfigSet (SetTsaUrls [''https://tsa'']) :: nat fx)
     \<and> ex_evaluate demoExchange (confirmReason demoCatalogue (ak_action q)) = LaSuccess"
proof -
  obtain a where run: "reach agentInit (agentStep trustParts) a" "ag_world a = demoTrusted" using demo_trust_run by blast
  from demo_trusted obtain pre x where tr: "w_trace (ag_world a) = pre @ ConfigSet (SetTsaUrls [''https://tsa'']) # [x]"
    unfolding run(2) by blast
  have verdicts: "ae_verdicts trustParts = clientVerdicts demoVocab gateCodec {demoExchange}" by (simp add: trustParts_def)
  have "\<forall>y \<in> {demoExchange}. peerIsHelper demoVocab gateCodec y" by (simp add: demo_exchange_ok)
  moreover have "trustChange (ae_lib trustParts) (ConfigSet (SetTsaUrls [''https://tsa'']))"
    by (simp add: trustParts_def demoParts_def demoAgent_def)
  ultimately show ?thesis
    using trust_change_authenticated [OF run(1) verdicts demoVocab_ok _ tr] tr run(2) by (auto simp: demoExchange_def)
qed



end
